(* ===== verification/Nox_Prelude.thy ===== *)
theory Nox_Prelude
  imports Main "HOL-Library.Word"
begin

unbundle bit_operations_syntax

text \<open>
  What every component shares: the machine types of the C code, the outcome of a C function
  (\<open>res\<close>), programs that thread one context structure (\<open>prog\<close>) with the combinators that stand for
  the C control flow, the frame rules for such programs (locale \<open>step_rel\<close>), and generic facts on
  lists and words.
\<close>

section \<open>Types\<close>

type_synonym byte = "8 word"
type_synonym u16 = "16 word"
type_synonym u32 = "32 word"
type_synonym u64 = "64 word"
type_synonym bytes = "8 word list"

text \<open>The return codes of the library, with the source's constructors.\<close>

datatype netnox_return_t =
    NETNOX_RETURN_FAILED
  | NETNOX_RETURN_BAD_PARAM
  | NETNOX_RETURN_NULL
  | NETNOX_RETURN_INSUFF_MEMORY
  | NETNOX_RETURN_PORT_IN_USE
  | NETNOX_RETURN_PORT_NOT_EXIT
  | NETNOX_RETURN_INVALID_PKT
  | NETNOX_RETURN_UNKNOWN_PROTOCOL
  | NETNOX_RETURN_AUTH_REJECTED

text \<open>
  The outcome of a C function. \<open>Ok\<close> is \<open>NETNOX_RETURN_SUCCESS\<close> with the output parameters,
  \<open>Err\<close> any other return code, \<open>Fault\<close> an access outside the initialised part of a buffer (the
  language gives the rest of the run no meaning), and \<open>Hang\<close> a run cut off by the fuel of a loop.
\<close>

datatype 'a res = Ok 'a | Err netnox_return_t | Fault | Hang

type_synonym ('s, 'a) prog = "'s \<Rightarrow> 'a res \<times> 's"

section \<open>Outcomes without state\<close>

fun bindR :: "'a res \<Rightarrow> ('a \<Rightarrow> 'b res) \<Rightarrow> 'b res" where
  "bindR (Ok a) f = f a"
| "bindR (Err e) f = Err e"
| "bindR Fault f = Fault"
| "bindR Hang f = Hang"

text \<open>The C pattern \<open>if(f(...) != NETNOX_RETURN_SUCCESS) return e;\<close> replaces the code of \<open>f\<close>.\<close>

fun recode :: "netnox_return_t \<Rightarrow> 'a res \<Rightarrow> 'a res" where
  "recode e (Err e') = Err e"
| "recode e (Ok a) = Ok a"
| "recode e Fault = Fault"
| "recode e Hang = Hang"

named_theorems res_iff \<open>when a composed outcome is a given one\<close>

lemma bindR_Ok [res_iff]: "bindR r f = Ok b \<longleftrightarrow> (\<exists>a. r = Ok a \<and> f a = Ok b)"
  by (cases r) auto

lemma bindR_Fault [res_iff]: "bindR r f = Fault \<longleftrightarrow> r = Fault \<or> (\<exists>a. r = Ok a \<and> f a = Fault)"
  by (cases r) auto

lemma recode_Ok [res_iff]: "recode e r = Ok b \<longleftrightarrow> r = Ok b"
  by (cases r) auto

lemma recode_Fault [res_iff]: "recode e r = Fault \<longleftrightarrow> r = Fault"
  by (cases r) auto

lemma option_res_Ok [res_iff]: "(case x of None \<Rightarrow> Err e | Some a \<Rightarrow> Ok a) = Ok b \<longleftrightarrow> x = Some b"
  by (cases x) auto

lemma bindR_assoc: "bindR (bindR r f) g = bindR r (\<lambda>a. bindR (f a) g)"
  by (cases r) auto

lemma bindR_cong [fundef_cong]:
  "r = r' \<Longrightarrow> (\<And>a. r' = Ok a \<Longrightarrow> f a = f' a) \<Longrightarrow> bindR r f = bindR r' f'"
  by (cases r') auto

section \<open>Programs over a context structure\<close>

definition retM :: "'a \<Rightarrow> ('s, 'a) prog" where
  "retM a s = (Ok a, s)"

definition throwM :: "netnox_return_t \<Rightarrow> ('s, 'a) prog" where
  "throwM e s = (Err e, s)"

definition liftM :: "'a res \<Rightarrow> ('s, 'a) prog" where
  "liftM r s = (r, s)"

definition getM :: "('s \<Rightarrow> 'a) \<Rightarrow> ('s, 'a) prog" where
  "getM f s = (Ok (f s), s)"

definition setM :: "('s \<Rightarrow> 's) \<Rightarrow> ('s, unit) prog" where
  "setM f s = (Ok (), f s)"

definition bindM :: "('s, 'a) prog \<Rightarrow> ('a \<Rightarrow> ('s, 'b) prog) \<Rightarrow> ('s, 'b) prog" where
  "bindM m f s = (case m s of
     (Ok a, s') \<Rightarrow> f a s'
   | (Err e, s') \<Rightarrow> (Err e, s')
   | (Fault, s') \<Rightarrow> (Fault, s')
   | (Hang, s') \<Rightarrow> (Hang, s'))"

definition checkedM :: "netnox_return_t \<Rightarrow> ('s, 'a) prog \<Rightarrow> ('s, 'a) prog" where
  "checkedM e m s = (case m s of (r, s') \<Rightarrow> (recode e r, s'))"

text \<open>\<open>rc = f(...)\<close> where the caller looks at the code itself: a fault still ends the run.\<close>

definition tryM :: "('s, 'a) prog \<Rightarrow> ('s, 'a res) prog" where
  "tryM m s = (case m s of
     (Ok a, s') \<Rightarrow> (Ok (Ok a), s')
   | (Err e, s') \<Rightarrow> (Ok (Err e), s')
   | (Fault, s') \<Rightarrow> (Fault, s')
   | (Hang, s') \<Rightarrow> (Hang, s'))"

text \<open>\<open>if(b) return e;\<close>\<close>

definition failM :: "bool \<Rightarrow> netnox_return_t \<Rightarrow> ('s, unit) prog" where
  "failM b e = (if b then throwM e else retM ())"

text \<open>A condition that reads the context.\<close>

definition ifM :: "('s \<Rightarrow> bool) \<Rightarrow> ('s, 'a) prog \<Rightarrow> ('s, 'a) prog \<Rightarrow> ('s, 'a) prog" where
  "ifM b m m' s = (if b s then m s else m' s)"

text \<open>\<open>if(cond on the context) return NETNOX_RETURN_BAD_PARAM;\<close>\<close>

definition requireM :: "('s \<Rightarrow> bool) \<Rightarrow> ('s, unit) prog" where
  "requireM ok = ifM (\<lambda>c. \<not> ok c) (throwM NETNOX_RETURN_BAD_PARAM) (retM ())"

lemmas prog_defs = retM_def throwM_def liftM_def getM_def setM_def bindM_def checkedM_def
  tryM_def failM_def ifM_def

lemma bindM_cong [fundef_cong]:
  assumes "s = s'" and "m s' = m' s'"
    and "\<And>a t. m' s' = (Ok a, t) \<Longrightarrow> f a t = f' a t"
  shows "bindM m f s = bindM m' f' s'"
  using assms by (auto simp: bindM_def split: prod.splits res.splits)

lemma bindM_Ok [res_iff]:
  "bindM m f s = (Ok b, s') \<longleftrightarrow> (\<exists>a t. m s = (Ok a, t) \<and> f a t = (Ok b, s'))"
  by (auto simp: bindM_def split: prod.splits res.splits)

lemma bindM_step:
  "m s = (Ok a, t) \<Longrightarrow> bindM m f s = f a t"
  by (simp add: bindM_def)

lemma bindM_run: "m s = (Ok a, t) \<Longrightarrow> f a t = r \<Longrightarrow> bindM m f s = r"
  by (simp add: bindM_step)

lemma checkedM_Ok [res_iff]: "checkedM e m s = (Ok b, s') \<longleftrightarrow> m s = (Ok b, s')"
  by (auto simp: checkedM_def res_iff split: prod.splits)

lemma retM_Ok [res_iff]: "retM a s = (Ok b, s') \<longleftrightarrow> b = a \<and> s' = s"
  by (auto simp: retM_def)

lemma throwM_Ok [res_iff]: "throwM e s \<noteq> (Ok b, s')"
  by (simp add: throwM_def)

lemma liftM_Ok [res_iff]: "liftM r s = (Ok b, s') \<longleftrightarrow> r = Ok b \<and> s' = s"
  by (auto simp: liftM_def)

lemma getM_Ok [res_iff]: "getM f s = (Ok b, s') \<longleftrightarrow> b = f s \<and> s' = s"
  by (auto simp: getM_def)

lemma setM_Ok [res_iff]: "setM f s = (Ok b, s') \<longleftrightarrow> s' = f s"
  by (auto simp: setM_def)

lemma failM_Ok [res_iff]: "failM c e s = (Ok b, s') \<longleftrightarrow> \<not> c \<and> s' = s"
  by (auto simp: failM_def throwM_def retM_def)

lemma ifM_Ok [res_iff]:
  "ifM c m m' s = (Ok b, s') \<longleftrightarrow> (if c s then m s = (Ok b, s') else m' s = (Ok b, s'))"
  by (simp add: ifM_def)

lemma tryM_Ok [res_iff]:
  "tryM m s = (Ok r, s') \<longleftrightarrow> m s = (r, s') \<and> r \<noteq> Fault \<and> r \<noteq> Hang"
  by (auto simp: tryM_def split: prod.splits res.splits)

section \<open>Faults\<close>

named_theorems fault_iff \<open>when a composed program faults\<close>

lemma bindM_Fault [fault_iff]:
  "bindM m f s = (Fault, s') \<longleftrightarrow>
     m s = (Fault, s') \<or> (\<exists>a t. m s = (Ok a, t) \<and> f a t = (Fault, s'))"
  by (auto simp: bindM_def split: prod.splits res.splits)

lemma checkedM_Fault [fault_iff]: "checkedM e m s = (Fault, s') \<longleftrightarrow> m s = (Fault, s')"
  by (auto simp: checkedM_def res_iff split: prod.splits)

lemma tryM_Fault [fault_iff]: "tryM m s = (Fault, s') \<longleftrightarrow> m s = (Fault, s')"
  by (auto simp: tryM_def split: prod.splits res.splits)

lemma ifM_Fault [fault_iff]:
  "ifM c m m' s = (Fault, s') \<longleftrightarrow> (if c s then m s = (Fault, s') else m' s = (Fault, s'))"
  by (simp add: ifM_def)

lemma basic_Fault [fault_iff]:
  "retM a s \<noteq> (Fault, s')" "throwM e s \<noteq> (Fault, s')" "getM g s \<noteq> (Fault, s')"
  "setM h s \<noteq> (Fault, s')" "failM b e s \<noteq> (Fault, s')"
  "liftM r s = (Fault, s') \<longleftrightarrow> r = Fault \<and> s' = s"
  by (auto simp: prog_defs)

section \<open>Running out of fuel\<close>

named_theorems hang_iff \<open>when a composed program runs out of fuel\<close>

lemma bindR_Hang [hang_iff]: "bindR r f = Hang \<longleftrightarrow> r = Hang \<or> (\<exists>a. r = Ok a \<and> f a = Hang)"
  by (cases r) auto

lemma recode_Hang [hang_iff]: "recode e r = Hang \<longleftrightarrow> r = Hang"
  by (cases r) auto

text \<open>
  \<open>extends m m'\<close>: where \<open>m\<close> has an outcome of its own, \<open>m'\<close> has the same. A recursion with more fuel
  extends the one with less.
\<close>

definition extends :: "('s, 'a) prog \<Rightarrow> ('s, 'a) prog \<Rightarrow> bool" where
  "extends m m' \<longleftrightarrow> (\<forall>s. fst (m s) \<noteq> Hang \<longrightarrow> m' s = m s)"

lemma extends_refl: "extends m m"
  by (simp add: extends_def)

lemma extends_bind: "extends m m' \<Longrightarrow> (\<And>a. extends (f a) (f' a)) \<Longrightarrow> extends (bindM m f) (bindM m' f')"
  unfolding extends_def
proof (intro allI impI)
  fix s
  assume m: "\<forall>s. fst (m s) \<noteq> Hang \<longrightarrow> m' s = m s" and f: "\<And>a. \<forall>s. fst (f a s) \<noteq> Hang \<longrightarrow> f' a s = f a s"
    and h: "fst (bindM m f s) \<noteq> Hang"
  obtain r t where run: "m s = (r, t)" by (cases "m s")
  with h m have "m' s = (r, t)" by (cases r) (auto simp: bindM_def dest!: spec [of _ s])
  with run h f show "bindM m' f' s = bindM m f s" by (cases r) (auto simp: bindM_def)
qed

lemma extends_checked: "extends m m' \<Longrightarrow> extends (checkedM e m) (checkedM e m')"
  by (auto simp: extends_def checkedM_def hang_iff split: prod.splits)

lemma extends_if: "extends m m' \<Longrightarrow> extends k k' \<Longrightarrow> extends (if b then m else k) (if b then m' else k')"
  by simp

lemma extends_ifM: "extends m m' \<Longrightarrow> extends k k' \<Longrightarrow> extends (ifM b m k) (ifM b m' k')"
  by (simp add: extends_def ifM_def)

lemma extends_try: "extends m m' \<Longrightarrow> extends (tryM m) (tryM m')"
  by (auto simp: extends_def tryM_def split: prod.splits res.splits)

lemmas extends_rules = extends_bind extends_checked extends_if extends_ifM extends_try extends_refl

section \<open>Frame rules\<close>

text \<open>
  \<open>always R m\<close>: whatever \<open>m\<close> returns, the contexts before and after are related by \<open>R\<close>. A relation
  that is reflexive and transitive is closed under the control flow of the C code; the locale proves
  that once, and each interpretation (fields kept, invariants kept, input only consumed, output only
  extended) reuses it.
\<close>

definition always :: "('s \<Rightarrow> 's \<Rightarrow> bool) \<Rightarrow> ('s, 'a) prog \<Rightarrow> bool" where
  "always R m \<longleftrightarrow> (\<forall>s. R s (snd (m s)))"

lemma alwaysI: "(\<And>s r s'. m s = (r, s') \<Longrightarrow> R s s') \<Longrightarrow> always R m"
  unfolding always_def by (metis prod.collapse)

lemma alwaysD: "always R m \<Longrightarrow> m s = (r, s') \<Longrightarrow> R s s'"
  unfolding always_def by (metis snd_conv)

lemma always_mono: "always R m \<Longrightarrow> (\<And>s t. R s t \<Longrightarrow> R' s t) \<Longrightarrow> always R' m"
  by (auto simp: always_def)

lemma always_checked: "always R m \<Longrightarrow> always R (checkedM e m)"
  by (auto simp: always_def checkedM_def split: prod.splits) (metis snd_conv)

lemma always_try: "always R m \<Longrightarrow> always R (tryM m)"
  unfolding always_def tryM_def by (auto split: prod.splits res.splits) (metis snd_conv)+

lemma always_if: "always R m \<Longrightarrow> always R m' \<Longrightarrow> always R (if b then m else m')"
  by simp

lemma always_ifM: "always R m \<Longrightarrow> always R m' \<Longrightarrow> always R (ifM b m m')"
  by (simp add: always_def ifM_def)

lemma always_set: "(\<And>s. R s (f s)) \<Longrightarrow> always R (setM f)"
  by (simp add: always_def setM_def)

lemma always_read_only: "(\<And>s. snd (m s) = s) \<Longrightarrow> (\<And>s. R s s) \<Longrightarrow> always R m"
  by (simp add: always_def)

locale step_rel =
  fixes R :: "'s \<Rightarrow> 's \<Rightarrow> bool"
  assumes refl: "R s s"
    and trans: "R s t \<Longrightarrow> R t u \<Longrightarrow> R s u"
begin

lemma always_ret: "always R (retM a)"
  by (simp add: always_def retM_def refl)

lemma always_throw: "always R (throwM e)"
  by (simp add: always_def throwM_def refl)

lemma always_lift: "always R (liftM r)"
  by (simp add: always_def liftM_def refl)

lemma always_get: "always R (getM f)"
  by (simp add: always_def getM_def refl)

lemma always_fail: "always R (failM b e)"
  by (simp add: failM_def always_ret always_throw)

lemma always_bind:
  assumes "always R m" and "\<And>a. always R (f a)"
  shows "always R (bindM m f)"
proof (rule alwaysI)
  fix s r s'
  assume run: "bindM m f s = (r, s')"
  obtain q t where m: "m s = (q, t)" by (cases "m s")
  have "R s t" using assms(1) m by (rule alwaysD)
  moreover have "R t s'"
    using run m assms(2) by (cases q) (auto simp: bindM_def refl dest: alwaysD)
  ultimately show "R s s'" by (rule trans)
qed

lemmas always_rules = always_ret always_throw always_lift always_get always_fail always_bind
  always_checked always_try always_if always_ifM

end

section \<open>Successful runs\<close>

fun is_Ok :: "'a res \<Rightarrow> bool" where
  "is_Ok (Ok a) = True"
| "is_Ok _ = False"

lemma is_OkE:
  assumes "is_Ok (fst (m s))"
  obtains a t where "m s = (Ok a, t)"
  using assms by (cases "fst (m s)") (auto intro: that [OF prod_eqI])

text \<open>A predicate on contexts that a successful run keeps, or brings about.\<close>

definition keeps :: "('s \<Rightarrow> bool) \<Rightarrow> ('s, 'a) prog \<Rightarrow> bool" where
  "keeps P m \<longleftrightarrow> (\<forall>s a t. P s \<longrightarrow> m s = (Ok a, t) \<longrightarrow> P t)"

definition ensures :: "('s \<Rightarrow> bool) \<Rightarrow> ('s, 'a) prog \<Rightarrow> bool" where
  "ensures P m \<longleftrightarrow> (\<forall>s a t. m s = (Ok a, t) \<longrightarrow> P t)"

lemma keeps_bind: "keeps P m \<Longrightarrow> (\<And>a. keeps P (f a)) \<Longrightarrow> keeps P (bindM m f)"
  unfolding keeps_def bindM_Ok by blast

lemma keeps_checked: "keeps P m \<Longrightarrow> keeps P (checkedM e m)"
  unfolding keeps_def checkedM_Ok .

lemma keeps_if: "keeps P m \<Longrightarrow> keeps P m' \<Longrightarrow> keeps P (if b then m else m')"
  by simp

lemma keeps_ifM: "keeps P m \<Longrightarrow> keeps P m' \<Longrightarrow> keeps P (ifM b m m')"
proof -
  assume m: "keeps P m" and m': "keeps P m'"
  have "P t" if "P s" and "ifM b m m' s = (Ok a, t)" for s a t
  proof (cases "b s")
    case True
    then have "m s = (Ok a, t)" using that(2) by (simp add: ifM_def)
    then show ?thesis using m that(1) unfolding keeps_def by blast
  next
    case False
    then have "m' s = (Ok a, t)" using that(2) by (simp add: ifM_def)
    then show ?thesis using m' that(1) unfolding keeps_def by blast
  qed
  then show ?thesis unfolding keeps_def by blast
qed

lemma keeps_basic: "keeps P (retM x)" "keeps P (throwM e)" "keeps P (failM b e)" "keeps P (liftM r)" "keeps P (getM g)"
  by (auto simp: keeps_def res_iff)

lemma keeps_dep: "keeps P (\<lambda>s. liftM (g s) s)"
  by (simp add: keeps_def liftM_def)

lemma keeps_set: "(\<And>s. P s \<Longrightarrow> P (g s)) \<Longrightarrow> keeps P (setM g)"
  by (simp add: keeps_def setM_def)

lemma keeps_always: "always R m \<Longrightarrow> (\<And>s t. R s t \<Longrightarrow> P s \<Longrightarrow> P t) \<Longrightarrow> keeps P m"
  unfolding keeps_def by (meson alwaysD)

lemma keeps_ensures: "ensures P m \<Longrightarrow> keeps P m"
  by (auto simp: keeps_def ensures_def)

lemmas keeps_rules = keeps_bind keeps_checked keeps_if keeps_ifM keeps_basic

lemma ensures_last: "(\<And>a. ensures P (f a)) \<Longrightarrow> ensures P (bindM m f)"
  unfolding ensures_def bindM_Ok by blast

lemma ensures_first: "ensures P m \<Longrightarrow> (\<And>a. keeps P (f a)) \<Longrightarrow> ensures P (bindM m f)"
  unfolding ensures_def keeps_def bindM_Ok by blast

section \<open>Weakest preconditions\<close>

text \<open>
  \<open>wp m Q E s\<close>: run from \<open>s\<close>, a success of \<open>m\<close> ends in a result and context with \<open>Q\<close>, anything else in a
  context with \<open>E\<close>. The rules follow the control flow; \<open>wp_always\<close> takes a step whose frame is known.
\<close>

definition wp :: "('s, 'a) prog \<Rightarrow> ('a \<Rightarrow> 's \<Rightarrow> bool) \<Rightarrow> ('s \<Rightarrow> bool) \<Rightarrow> 's \<Rightarrow> bool" where
  "wp m Q E s = (case m s of (Ok a, t) \<Rightarrow> Q a t | (Err _, t) \<Rightarrow> E t | (Fault, t) \<Rightarrow> E t | (Hang, t) \<Rightarrow> E t)"

lemma wp_Ok: "wp m Q E s \<Longrightarrow> m s = (Ok a, t) \<Longrightarrow> Q a t"
  by (simp add: wp_def)

lemma wp_other: "wp m Q E s \<Longrightarrow> m s = (r, t) \<Longrightarrow> \<not> is_Ok r \<Longrightarrow> E t"
  by (cases r) (simp_all add: wp_def)

lemma wp_any: "wp m (\<lambda>_. P) P s \<Longrightarrow> m s = (r, t) \<Longrightarrow> P t"
  by (cases r) (simp_all add: wp_def)

lemma wp_mono: "wp m Q E s \<Longrightarrow> (\<And>a t. Q a t \<Longrightarrow> Q' a t) \<Longrightarrow> (\<And>t. E t \<Longrightarrow> E' t) \<Longrightarrow> wp m Q' E' s"
  by (auto simp: wp_def split: prod.splits res.splits)

lemma wp_always: "always R m \<Longrightarrow> (\<And>a t. R s t \<Longrightarrow> Q a t) \<Longrightarrow> (\<And>t. R s t \<Longrightarrow> E t) \<Longrightarrow> wp m Q E s"
  unfolding wp_def by (cases "m s", cases "fst (m s)") (auto dest: alwaysD)

lemma wp_bind: "wp m (\<lambda>a. wp (f a) Q E) E s \<Longrightarrow> wp (bindM m f) Q E s"
  by (auto simp: wp_def bindM_def split: prod.splits res.splits)

lemma wp_checked: "wp m Q E s \<Longrightarrow> wp (checkedM e m) Q E s"
  by (auto simp: wp_def checkedM_def split: prod.splits res.splits)

lemma wp_try: "wp m (\<lambda>a. Q (Ok a)) (\<lambda>t. (\<forall>e. Q (Err e) t) \<and> E t) s \<Longrightarrow> wp (tryM m) Q E s"
  by (auto simp: wp_def tryM_def split: prod.splits res.splits)

lemma wp_ifM: "(b s \<Longrightarrow> wp m Q E s) \<Longrightarrow> (\<not> b s \<Longrightarrow> wp m' Q E s) \<Longrightarrow> wp (ifM b m m') Q E s"
  by (simp add: wp_def ifM_def)

lemma wp_if: "(b \<Longrightarrow> wp m Q E s) \<Longrightarrow> (\<not> b \<Longrightarrow> wp m' Q E s) \<Longrightarrow> wp (if b then m else m') Q E s"
  by simp

lemma wp_fail: "(b \<Longrightarrow> E s) \<Longrightarrow> (\<not> b \<Longrightarrow> Q () s) \<Longrightarrow> wp (failM b e) Q E s"
  by (simp add: wp_def failM_def throwM_def retM_def)

lemma wp_ret: "Q a s \<Longrightarrow> wp (retM a) Q E s"
  by (simp add: wp_def retM_def)

lemma wp_throw: "E s \<Longrightarrow> wp (throwM e) Q E s"
  by (simp add: wp_def throwM_def)

lemma wp_set: "Q () (g s) \<Longrightarrow> wp (setM g) Q E s"
  by (simp add: wp_def setM_def)

lemma wp_get: "Q (h s) s \<Longrightarrow> wp (getM h) Q E s"
  by (simp add: wp_def getM_def)

lemmas wp_basic = wp_ret wp_throw wp_set wp_get

lemma wp_lift: "(\<And>a. r = Ok a \<Longrightarrow> Q a s) \<Longrightarrow> (\<not> is_Ok r \<Longrightarrow> E s) \<Longrightarrow> wp (liftM r) Q E s"
  by (cases r) (simp_all add: wp_def liftM_def)

lemma wp_dep: "(\<And>a. f s = Ok a \<Longrightarrow> Q a s) \<Longrightarrow> (\<not> is_Ok (f s) \<Longrightarrow> E s) \<Longrightarrow> wp (\<lambda>c. liftM (f c) c) Q E s"
  by (cases "f s") (simp_all add: wp_def liftM_def)

lemma wp_dep_checked:
  "(\<And>a. f s = Ok a \<Longrightarrow> Q a s) \<Longrightarrow> (\<not> is_Ok (f s) \<Longrightarrow> E s) \<Longrightarrow> wp (\<lambda>c. checkedM e (liftM (f c)) c) Q E s"
  by (cases "f s") (simp_all add: wp_def checkedM_def liftM_def)

lemma wp_seq:
  "wp m R F s \<Longrightarrow> (\<And>a t. R a t \<Longrightarrow> wp (f a) Q E t) \<Longrightarrow> (\<And>t. F t \<Longrightarrow> E t) \<Longrightarrow> wp (bindM m f) Q E s"
  by (rule wp_bind, erule wp_mono)

lemma wp_step:
  "wp m R E s \<Longrightarrow> (\<And>a t. m s = (Ok a, t) \<Longrightarrow> R a t \<Longrightarrow> wp (f a) Q E t) \<Longrightarrow> wp (bindM m f) Q E s"
  by (auto simp: wp_def bindM_def split: prod.splits res.splits)

lemma wp_cong: "m s = m' s \<Longrightarrow> wp m' Q E s \<Longrightarrow> wp m Q E s"
  by (simp add: wp_def)

lemmas wp_rules = wp_bind wp_checked wp_try wp_ifM wp_if wp_fail wp_basic wp_lift wp_dep wp_dep_checked

lemma requireM_run: "requireM ok s = (if ok s then (Ok (), s) else (Err NETNOX_RETURN_BAD_PARAM, s))"
  by (simp add: requireM_def prog_defs)

lemma wp_require: "(ok s \<Longrightarrow> Q () s) \<Longrightarrow> (\<not> ok s \<Longrightarrow> E s) \<Longrightarrow> wp (requireM ok) Q E s"
  by (simp add: wp_def requireM_run)

lemma wp_guard:
  "(ok s \<Longrightarrow> wp (f ()) Q E s) \<Longrightarrow> (\<not> ok s \<Longrightarrow> E s) \<Longrightarrow> wp (bindM (requireM ok) f) Q E s"
  by (intro wp_bind wp_require)

text \<open>\<open>maintains P\<close>: a step that keeps \<open>P\<close> once it holds.\<close>

definition maintains :: "('s \<Rightarrow> bool) \<Rightarrow> 's \<Rightarrow> 's \<Rightarrow> bool" where
  "maintains P s t \<longleftrightarrow> (P s \<longrightarrow> P t)"

interpretation mt: step_rel "maintains P" for P
  by unfold_locales (auto simp: maintains_def)

lemma mt_wp: "(\<And>c. P c \<Longrightarrow> wp m (\<lambda>_. P) P c) \<Longrightarrow> always (maintains P) m"
  by (rule alwaysI) (auto simp: maintains_def dest: wp_any)

lemma wp_mt: "always (maintains P) m \<Longrightarrow> P c \<Longrightarrow> wp m (\<lambda>_. P) P c"
  by (erule wp_always) (simp_all add: maintains_def)

lemma mt_set: "(\<And>c. P c \<Longrightarrow> P (f c)) \<Longrightarrow> always (maintains P) (setM f)"
  by (rule always_set) (simp add: maintains_def)

section \<open>Bytes, C strings and lengths\<close>

definition ascii :: "string \<Rightarrow> bytes" where
  "ascii = map of_char"

lemma length_ascii [simp]: "length (ascii s) = length s"
  by (simp add: ascii_def)

text \<open>The C view of a character array: the bytes before the first NUL.\<close>

definition cstr :: "bytes \<Rightarrow> bytes" where
  "cstr = takeWhile (\<lambda>b. b \<noteq> 0)"

definition u32len :: "'a list \<Rightarrow> u32" where
  "u32len xs = word_of_nat (length xs)"

lemma u32len_Nil [simp]: "u32len [] = 0"
  by (simp add: u32len_def)

lemma u32len_append: "u32len (xs @ ys) = u32len xs + u32len ys"
  by (simp add: u32len_def)

lemma unat_u32len: "length xs < 2 ^ 32 \<Longrightarrow> unat (u32len xs) = length xs"
  by (simp add: u32len_def unat_of_nat)

lemma unat_u32_add:
  "unat (a :: u32) + unat b < 2 ^ 32 \<Longrightarrow> unat (a + b) = unat a + unat b"
  by (rule unat_add_lem [THEN iffD1]) simp

lemma int_unat_u32: "int (unat (a :: u32)) = uint a"
  by simp

lemma int_le_u32: "int k \<le> uint (a :: u32) \<longleftrightarrow> k \<le> unat a"
  by (simp only: int_unat_u32 [symmetric] of_nat_le_iff)

lemma int_gt_u32: "uint (a :: u32) < int k \<longleftrightarrow> unat a < k"
  by (simp only: int_unat_u32 [symmetric] of_nat_less_iff)

lemma minus_plus_one_less: "(x :: u32) \<noteq> 0 \<Longrightarrow> unat (- (x + 1)) < unat (- x)"
proof -
  assume x: "x \<noteq> 0"
  then have "- x \<noteq> 0" by simp
  have "unat (- x - 1) = unat (- x) - 1"
    by (rule unat_minus_one) fact
  moreover have "unat (- x) \<noteq> 0"
    using x by (simp add: unat_eq_zero)
  ultimately show "unat (- (x + 1)) < unat (- x)" by simp
qed

lemma u32_le_iff: "(a :: u32) \<le> b \<longleftrightarrow> unat a \<le> unat b"
  by (simp add: word_le_nat_alt)

lemma u32_less_iff: "(a :: u32) < b \<longleftrightarrow> unat a < unat b"
  by (simp add: word_less_nat_alt)

text \<open>A pointer is the bytes reachable from it; \<open>fetch\<close> reads the first \<open>n\<close> of them.\<close>

definition fetch :: "bytes \<Rightarrow> nat \<Rightarrow> bytes res" where
  "fetch p n = (if n \<le> length p then Ok (take n p) else Fault)"

lemma fetch_Ok [res_iff]: "fetch p n = Ok b \<longleftrightarrow> n \<le> length p \<and> b = take n p"
  by (auto simp: fetch_def)

text \<open>One byte \<open>p[i]\<close>.\<close>

definition fetch1 :: "bytes \<Rightarrow> nat \<Rightarrow> byte res" where
  "fetch1 p i = (if i < length p then Ok (p ! i) else Fault)"

lemma fetch1_Ok [res_iff]: "fetch1 p i = Ok b \<longleftrightarrow> i < length p \<and> b = p ! i"
  by (auto simp: fetch1_def)

lemma fetch_Hang [hang_iff]: "fetch d n \<noteq> Hang" "fetch1 d n \<noteq> Hang"
  by (simp_all add: fetch_def fetch1_def)

end
