(* ===== verification/Nox_Wire.thy ===== *)
theory Nox_Wire
  imports Nox_Prelude
begin

text \<open>
  The SSH data types on the wire (\<open>common/noxssh_common.c\<close>, with an identical static copy of each
  function in \<open>common/noxssh_server.c\<close>): big-endian integers, the bounded \<open>append\<close> functions that
  build a payload, the \<open>read\<close> functions that parse one, name-lists and multiple precision integers.
  A buffer under construction is the list of the bytes written so far; its capacity is the \<open>u32\<close>
  the C caller passes. Lengths and offsets are 32-bit words, so the bounds checks wrap exactly where
  the C ones do. A pointer into a buffer is the list of the bytes reachable from it.
\<close>

section \<open>Definitions\<close>

subsection \<open>Integers in network byte order\<close>

definition netnox_ssh_write_u32_be :: "u32 \<Rightarrow> bytes" where
  "netnox_ssh_write_u32_be value =
     [ucast (drop_bit 24 value AND 0xFF),
      ucast (drop_bit 16 value AND 0xFF),
      ucast (drop_bit 8 value AND 0xFF),
      ucast (value AND 0xFF)]"

definition be32 :: "byte \<Rightarrow> byte \<Rightarrow> byte \<Rightarrow> byte \<Rightarrow> u32" where
  "be32 a b c d =
     push_bit 24 (ucast a) OR push_bit 16 (ucast b) OR push_bit 8 (ucast c) OR ucast d"

fun netnox_ssh_read_u32_be :: "bytes \<Rightarrow> u32 res" where
  "netnox_ssh_read_u32_be (a # b # c # d # _) = Ok (be32 a b c d)"
| "netnox_ssh_read_u32_be _ = Fault"

subsection \<open>Building a payload\<close>

text \<open>The write itself: beyond the capacity it leaves the buffer.\<close>

definition store :: "bytes \<Rightarrow> u32 \<Rightarrow> bytes \<Rightarrow> bytes res" where
  "store buf cap data =
     (if int (length buf) + int (length data) \<le> uint cap then Ok (buf @ data) else Fault)"

type_synonym field = "bytes \<Rightarrow> u32 \<Rightarrow> bytes res"

definition netnox_ssh_payload_append_u8 :: "byte \<Rightarrow> field" where
  "netnox_ssh_payload_append_u8 value payload payload_max =
     (if u32len payload + 1 > payload_max then Err NETNOX_RETURN_BAD_PARAM
      else store payload payload_max [value])"

definition netnox_ssh_payload_append_u32 :: "u32 \<Rightarrow> field" where
  "netnox_ssh_payload_append_u32 value payload payload_max =
     (if u32len payload + 4 > payload_max then Err NETNOX_RETURN_BAD_PARAM
      else store payload payload_max (netnox_ssh_write_u32_be value))"

definition netnox_ssh_payload_append_string :: "bytes \<Rightarrow> u32 \<Rightarrow> field" where
  "netnox_ssh_payload_append_string str_data str_len payload payload_max =
     (if u32len payload + 4 + str_len > payload_max then Err NETNOX_RETURN_BAD_PARAM
      else bindR (store payload payload_max (netnox_ssh_write_u32_be str_len)) (\<lambda>p.
           if str_len > 0
           then bindR (fetch str_data (unat str_len)) (\<lambda>d. store p payload_max d)
           else Ok p))"

text \<open>A name-list argument is a C string, given as its characters.\<close>

definition netnox_ssh_payload_append_namelist :: "bytes \<Rightarrow> field" where
  "netnox_ssh_payload_append_namelist lst payload payload_max =
     (let list_len = u32len lst in
      if u32len payload + 4 + list_len > payload_max then Err NETNOX_RETURN_BAD_PARAM
      else bindR (store payload payload_max (netnox_ssh_write_u32_be list_len)) (\<lambda>p.
           if list_len > 0
           then bindR (fetch lst (unat list_len)) (\<lambda>d. store p payload_max d)
           else Ok p))"

definition netnox_ssh_buf_append :: "bytes \<Rightarrow> u32 \<Rightarrow> field" where
  "netnox_ssh_buf_append inp in_len out out_max =
     (if u32len out + in_len > out_max then Err NETNOX_RETURN_BAD_PARAM
      else if in_len > 0
      then bindR (fetch inp (unat in_len)) (\<lambda>d. store out out_max d)
      else Ok out)"

text \<open>The loop over the leading zero bytes: the pointer and the count that are left.\<close>

fun skip_zeros :: "bytes \<Rightarrow> nat \<Rightarrow> (bytes \<times> nat) res" where
  "skip_zeros p n =
     (if n = 0 then Ok (p, 0)
      else case p of [] \<Rightarrow> Fault
         | b # q \<Rightarrow> if b = 0 then skip_zeros q (n - 1) else Ok (p, n))"

declare skip_zeros.simps [simp del]

definition netnox_ssh_buf_append_mpint_be :: "bytes \<Rightarrow> u32 \<Rightarrow> field" where
  "netnox_ssh_buf_append_mpint_be inp in_len out out_max =
     bindR (skip_zeros inp (unat in_len)) (\<lambda>(p, n).
       if n = 0 then netnox_ssh_payload_append_u32 0 out out_max
       else let value_len = word_of_nat n :: u32 in
         bindR (fetch1 p 0) (\<lambda>b.
         bindR (if b AND 0x80 \<noteq> 0
                then bindR (recode NETNOX_RETURN_BAD_PARAM
                              (netnox_ssh_payload_append_u32 (value_len + 1) out out_max)) (\<lambda>o1.
                     recode NETNOX_RETURN_BAD_PARAM (netnox_ssh_buf_append [0] 1 o1 out_max))
                else recode NETNOX_RETURN_BAD_PARAM
                       (netnox_ssh_payload_append_u32 value_len out out_max)) (\<lambda>o2.
         netnox_ssh_buf_append p value_len o2 out_max)))"

text \<open>The variant for a fixed length of 32 bytes, which no function calls.\<close>

definition netnox_ssh_buf_append_mpint_be_32 :: "bytes \<Rightarrow> field" where
  "netnox_ssh_buf_append_mpint_be_32 inp out out_max =
     (if u32len out + 4 + 33 > out_max then Err NETNOX_RETURN_BAD_PARAM
      else bindR (fetch1 inp 0) (\<lambda>b.
        if b AND 0x80 \<noteq> 0
        then bindR (store out out_max (netnox_ssh_write_u32_be 33)) (\<lambda>o1.
             bindR (store o1 out_max [0]) (\<lambda>o2.
             bindR (fetch inp 32) (\<lambda>d. store o2 out_max d)))
        else bindR (store out out_max (netnox_ssh_write_u32_be 32)) (\<lambda>o1.
             bindR (fetch inp 32) (\<lambda>d. store o1 out_max d))))"

text \<open>
  A run of \<open>append\<close> calls on one local buffer, each guarded by
  \<open>if(... != NETNOX_RETURN_SUCCESS) return NETNOX_RETURN_FAILED;\<close>.
\<close>

fun append_all :: "u32 \<Rightarrow> field list \<Rightarrow> bytes \<Rightarrow> bytes res" where
  "append_all cap [] p = Ok p"
| "append_all cap (f # fs) p =
     bindR (recode NETNOX_RETURN_FAILED (f p cap)) (\<lambda>q. append_all cap fs q)"

abbreviation build :: "u32 \<Rightarrow> field list \<Rightarrow> bytes res" where
  "build cap fs \<equiv> append_all cap fs []"

text \<open>A field whose argument is a C string or a fixed-size array: its length is the data's.\<close>

abbreviation append_bytes :: "bytes \<Rightarrow> field" where
  "append_bytes d \<equiv> netnox_ssh_payload_append_string d (u32len d)"

subsection \<open>Parsing a payload\<close>

definition netnox_ssh_payload_read_u32 :: "bytes \<Rightarrow> u32 \<Rightarrow> u32 \<Rightarrow> (u32 \<times> u32) res" where
  "netnox_ssh_payload_read_u32 payload payload_len offset =
     (if offset + 4 > payload_len then Err NETNOX_RETURN_BAD_PARAM
      else bindR (netnox_ssh_read_u32_be (drop (unat offset) payload)) (\<lambda>v. Ok (v, offset + 4)))"

type_synonym view = "bytes \<times> u32"

definition netnox_ssh_payload_read_string_view :: "bytes \<Rightarrow> u32 \<Rightarrow> u32 \<Rightarrow> (view \<times> u32) res" where
  "netnox_ssh_payload_read_string_view payload payload_len offset =
     bindR (recode NETNOX_RETURN_BAD_PARAM
              (netnox_ssh_payload_read_u32 payload payload_len offset)) (\<lambda>(str_len, off).
       if off + str_len > payload_len then Err NETNOX_RETURN_BAD_PARAM
       else Ok ((drop (unat off) payload, str_len), off + str_len))"

text \<open>\<open>len == strlen(tok) && memcmp(ptr, tok, len) == 0\<close>.\<close>

definition view_eq :: "view \<Rightarrow> bytes \<Rightarrow> bool res" where
  "view_eq v tok =
     (if snd v = u32len tok then bindR (fetch (fst v) (length tok)) (\<lambda>d. Ok (d = tok))
      else Ok False)"

subsection \<open>Name-lists\<close>

text \<open>The inner loop: the characters up to a comma or to the end of the list.\<close>

fun scan_name :: "bytes \<Rightarrow> nat \<Rightarrow> (bytes \<times> bytes \<times> nat) res" where
  "scan_name p n =
     (if n = 0 then Ok ([], p, 0)
      else case p of [] \<Rightarrow> Fault
         | b # q \<Rightarrow> if b = 44 then Ok ([], p, n)
                   else bindR (scan_name q (n - 1)) (\<lambda>(w, r, k). Ok (b # w, r, k)))"

declare scan_name.simps [simp del]

lemma scan_name_length:
  "scan_name p n = Ok (w, r, k) \<Longrightarrow> length p = length w + length r \<and> (k \<noteq> 0 \<longrightarrow> r \<noteq> [])"
proof (induction p arbitrary: n w)
  case Nil
  then show ?case by (subst (asm) scan_name.simps) (auto split: if_splits)
next
  case (Cons b q)
  then show ?case
    by (subst (asm) scan_name.simps) (auto split: if_splits simp: res_iff)
qed

lemma scan_name_rest_shorter:
  "scan_name p n = Ok (w, r, k) \<Longrightarrow> 0 < k \<Longrightarrow> length r - Suc 0 < length p"
  using scan_name_length [of p n w r k] by (cases r) auto

function names_contain :: "bytes \<Rightarrow> nat \<Rightarrow> bytes \<Rightarrow> bool res" where
  "names_contain p n token =
     (if n = 0 then Ok False
      else bindR (scan_name p n) (\<lambda>(w, r, k).
        if length w = length token \<and> w = token then Ok True
        else if k = 0 then Ok False
        else names_contain (tl r) (k - 1) token))"
  by pat_completeness auto
termination
  by (relation "measure (\<lambda>(p, n, t). length p)") (auto simp: scan_name_rest_shorter)

declare names_contain.simps [simp del]

definition netnox_ssh_namelist_contains :: "view \<Rightarrow> bytes \<Rightarrow> bool res" where
  "netnox_ssh_namelist_contains v token =
     (if token = [] then Ok False else names_contain (fst v) (unat (snd v)) token)"

section \<open>Reference encodings\<close>

text \<open>The encodings of RFC 4251, section 5, as functions of the value.\<close>

definition ssh_string :: "bytes \<Rightarrow> bytes" where
  "ssh_string d = netnox_ssh_write_u32_be (u32len d) @ d"

definition significant :: "bytes \<Rightarrow> bytes" where
  "significant d = dropWhile (\<lambda>b. b = 0) d"

definition mpint_digits :: "bytes \<Rightarrow> bytes" where
  "mpint_digits d =
     (case significant d of [] \<Rightarrow> []
      | b # v \<Rightarrow> if b AND 0x80 \<noteq> 0 then 0 # b # v else b # v)"

definition ssh_mpint :: "bytes \<Rightarrow> bytes" where
  "ssh_mpint d = ssh_string (mpint_digits d)"

text \<open>The value of a big-endian byte string.\<close>

definition be_nat :: "bytes \<Rightarrow> nat" where
  "be_nat = foldl (\<lambda>acc b. acc * 256 + unat b) 0"

text \<open>The names of a comma-separated list.\<close>

fun split_on :: "byte \<Rightarrow> bytes \<Rightarrow> bytes list" where
  "split_on c [] = [[]]"
| "split_on c (b # bs) =
     (if b = c then [] # split_on c bs
      else case split_on c bs of [] \<Rightarrow> [[b]] | w # ws \<Rightarrow> (b # w) # ws)"

lemma store_eq:
  "store buf cap data = (if length buf + length data \<le> unat cap then Ok (buf @ data) else Fault)"
  by (simp only: store_def int_unat_u32 [symmetric] of_nat_add [symmetric] of_nat_le_iff)

section \<open>Integers\<close>

lemma length_write_u32_be [simp]: "length (netnox_ssh_write_u32_be v) = 4"
  by (simp add: netnox_ssh_write_u32_be_def)

lemma mask_8_u32: "(0xFF :: u32) = mask 8"
  by (simp add: mask_eq_exp_minus_1)

lemma be32_write:
  "be32 (ucast (drop_bit 24 v AND 0xFF)) (ucast (drop_bit 16 v AND 0xFF))
        (ucast (drop_bit 8 v AND 0xFF)) (ucast (v AND 0xFF)) = v"
proof (rule bit_word_eqI)
  fix n
  assume "n < LENGTH(32)"
  then consider "n < 8" | "8 \<le> n" "n < 16" | "16 \<le> n" "n < 24" | "24 \<le> n" "n < 32"
    by force
  then show "bit (be32 (ucast (drop_bit 24 v AND 0xFF)) (ucast (drop_bit 16 v AND 0xFF))
        (ucast (drop_bit 8 v AND 0xFF)) (ucast (v AND 0xFF))) n = bit v n"
    by cases (auto simp: be32_def mask_8_u32 bit_simps)
qed

lemma read_write_u32_be [simp]:
  "netnox_ssh_read_u32_be (netnox_ssh_write_u32_be v @ rest) = Ok v"
  using be32_write [of v] by (simp add: netnox_ssh_write_u32_be_def)

lemma byte_bit_high [simp]: "8 \<le> n \<Longrightarrow> \<not> bit (w :: byte) n"
  by (auto dest: bit_imp_le_length)

lemma write_be32: "netnox_ssh_write_u32_be (be32 a b c d) = [a, b, c, d]"
  unfolding netnox_ssh_write_u32_be_def be32_def mask_8_u32
  by (auto intro!: bit_word_eqI simp: bit_simps)


lemma write_u32_be_inject [simp]:
  "netnox_ssh_write_u32_be v = netnox_ssh_write_u32_be w \<longleftrightarrow> v = w"
proof
  assume eq: "netnox_ssh_write_u32_be v = netnox_ssh_write_u32_be w"
  have "Ok v = netnox_ssh_read_u32_be (netnox_ssh_write_u32_be v @ [])"
    by (rule read_write_u32_be [symmetric])
  also have "\<dots> = Ok w"
    unfolding eq by (rule read_write_u32_be)
  finally show "v = w" by simp
qed simp

lemma read_u32_be_write:
  "netnox_ssh_read_u32_be p = Ok v \<longleftrightarrow> 4 \<le> length p \<and> take 4 p = netnox_ssh_write_u32_be v"
proof (cases p rule: netnox_ssh_read_u32_be.cases)
  case (1 a b c d r)
  then have "take 4 p = netnox_ssh_write_u32_be (be32 a b c d)" by (simp add: write_be32)
  with 1 show ?thesis by auto
qed auto

lemma read_u32_be_total: "4 \<le> length p \<Longrightarrow> \<exists>v. netnox_ssh_read_u32_be p = Ok v"
  by (cases p rule: netnox_ssh_read_u32_be.cases) auto

section \<open>The contract of the append functions\<close>

text \<open>
  Each \<open>append\<close> function adds a fixed encoding or refuses, and never writes past the capacity, as
  long as capacity plus encoding stay below \<open>2 ^ 32\<close> (every call in the code passes the size of a
  local array and a length it has bounded). The payload builders use nothing else.
\<close>

locale appender =
  fixes op :: field and enc :: bytes
  assumes op_spec: "length buf \<le> unat cap \<Longrightarrow> unat cap + length enc < 2 ^ 32 \<Longrightarrow>
    op buf cap = (if length buf + length enc \<le> unat cap then Ok (buf @ enc)
                  else Err NETNOX_RETURN_BAD_PARAM)"
begin

lemma op_no_fault:
  "length buf \<le> unat cap \<Longrightarrow> unat cap + length enc < 2 ^ 32 \<Longrightarrow> op buf cap \<noteq> Fault"
  by (simp add: op_spec)

lemma op_within_capacity:
  "length buf \<le> unat cap \<Longrightarrow> unat cap + length enc < 2 ^ 32 \<Longrightarrow> op buf cap = Ok out
   \<Longrightarrow> length out \<le> unat cap"
  by (auto simp: op_spec split: if_splits)

end

lemma u32len_plus:
  "length buf + n < 2 ^ 32 \<Longrightarrow> unat (u32len buf + word_of_nat n) = length buf + n"
  by (simp add: u32len_def unat_word_ariths unat_of_nat)

lemma u32len_plus_numeral:
  "length buf + numeral k < 2 ^ 32 \<Longrightarrow> unat (u32len buf + numeral k) = length buf + numeral k"
  using u32len_plus [of buf "numeral k"] by simp

lemma u32len_plus_1: "length buf + 1 < 2 ^ 32 \<Longrightarrow> unat (u32len buf + 1) = length buf + 1"
  using u32len_plus [of buf 1] by simp

interpretation app_u8: appender "netnox_ssh_payload_append_u8 v" "[v]" for v
  by unfold_locales
    (auto simp: netnox_ssh_payload_append_u8_def store_eq u32_less_iff u32len_plus_1)

interpretation app_u32: appender "netnox_ssh_payload_append_u32 v" "netnox_ssh_write_u32_be v" for v
  by unfold_locales
    (auto simp: netnox_ssh_payload_append_u32_def store_eq u32_less_iff u32len_plus_numeral)


lemma length_ssh_string [simp]: "length (ssh_string d) = 4 + length d"
  by (simp add: ssh_string_def)

lemma append_string_spec:
  assumes "length buf \<le> unat cap" and "unat cap + (4 + length d) < 2 ^ 32"
  shows "netnox_ssh_payload_append_string (d @ more) (u32len d) buf cap =
    (if length buf + (4 + length d) \<le> unat cap
     then Ok (buf @ ssh_string d) else Err NETNOX_RETURN_BAD_PARAM)"
proof -
  have len: "unat (u32len d) = length d" using assms by (intro unat_u32len) simp
  have "unat (u32len buf + (4 + u32len d)) = length buf + (4 + length d)"
    using u32len_plus [of buf "4 + length d"] assms by (simp add: u32len_def)
  then show ?thesis
    using assms len
    by (auto simp: netnox_ssh_payload_append_string_def ssh_string_def store_eq u32_less_iff fetch_def
        add.assoc unat_gt_0 [symmetric])
qed

lemma append_namelist_eq:
  "netnox_ssh_payload_append_namelist lst = netnox_ssh_payload_append_string lst (u32len lst)"
  by (auto simp: netnox_ssh_payload_append_namelist_def netnox_ssh_payload_append_string_def Let_def
      fun_eq_iff)

interpretation app_string:
  appender "append_bytes d" "ssh_string d" for d
  using append_string_spec [of _ _ d "[]"] by unfold_locales simp

interpretation app_namelist:
  appender "netnox_ssh_payload_append_namelist d" "ssh_string d" for d
  unfolding append_namelist_eq by (rule app_string.appender_axioms)

interpretation app_buf: appender "netnox_ssh_buf_append d (u32len d)" d for d
proof unfold_locales
  fix buf :: bytes and cap :: u32
  assume a: "length buf \<le> unat cap" "unat cap + length d < 2 ^ 32"
  then have "unat (u32len d) = length d" "unat (u32len buf + u32len d) = length buf + length d"
    using u32len_plus [of buf "length d"] unat_u32len [of d] by (auto simp: u32len_def)
  with a show "netnox_ssh_buf_append d (u32len d) buf cap =
    (if length buf + length d \<le> unat cap then Ok (buf @ d) else Err NETNOX_RETURN_BAD_PARAM)"
    by (auto simp: netnox_ssh_buf_append_def store_eq u32_less_iff fetch_def unat_gt_0 [symmetric])
qed

text \<open>A payload builder: all fields fit and are concatenated, or the caller gets \<open>FAILED\<close>.\<close>

lemma append_all_spec:
  assumes "list_all2 appender fs es" and "length p \<le> unat cap"
    and "unat cap + length (concat es) < 2 ^ 32"
  shows "append_all cap fs p =
    (if length p + length (concat es) \<le> unat cap then Ok (p @ concat es)
     else Err NETNOX_RETURN_FAILED)"
  using assms
proof (induction fs es arbitrary: p rule: list_all2_induct)
  case Nil
  then show ?case by simp
next
  case (Cons f fs e es)
  from Cons.hyps(1) Cons.prems have f: "f p cap =
    (if length p + length e \<le> unat cap then Ok (p @ e) else Err NETNOX_RETURN_BAD_PARAM)"
    by (intro appender.op_spec) auto
  show ?case
  proof (cases "length p + length e \<le> unat cap")
    case True
    then show ?thesis using f Cons.prems Cons.IH [of "p @ e"] by simp
  next
    case False
    then show ?thesis using f by simp
  qed
qed

lemmas appender_axioms = app_u8.appender_axioms app_u32.appender_axioms
  app_string.appender_axioms app_namelist.appender_axioms app_buf.appender_axioms


section \<open>Multiple precision integers\<close>

lemma skip_zeros_eq:
  "n \<le> length p \<Longrightarrow> skip_zeros p n =
     (let z = length (takeWhile (\<lambda>b. b = 0) (take n p)) in Ok (drop z p, n - z))"
proof (induction p arbitrary: n)
  case Nil
  then show ?case by (simp add: skip_zeros.simps)
next
  case (Cons b q)
  then show ?case
    by (cases n) (simp_all add: skip_zeros.simps [of "b # q"] Let_def)
qed

lemma mpint_op_eq:
  assumes "length d < 2 ^ 32 - 1"
  shows "netnox_ssh_buf_append_mpint_be d (u32len d) out cap =
    (case significant d of [] \<Rightarrow> netnox_ssh_payload_append_u32 0 out cap
     | b # v \<Rightarrow>
        bindR (if b AND 0x80 \<noteq> 0
               then bindR (recode NETNOX_RETURN_BAD_PARAM
                 (netnox_ssh_payload_append_u32 (u32len (0 # b # v)) out cap)) (\<lambda>o1.
                  recode NETNOX_RETURN_BAD_PARAM (netnox_ssh_buf_append [0] 1 o1 cap))
               else recode NETNOX_RETURN_BAD_PARAM
                 (netnox_ssh_payload_append_u32 (u32len (b # v)) out cap)) (\<lambda>o2.
        netnox_ssh_buf_append (b # v) (u32len (b # v)) o2 cap))"
proof -
  have n: "unat (u32len d) = length d" using assms by (simp add: unat_u32len)
  have z: "skip_zeros d (length d) =
    Ok (significant d, length (significant d))"
    by (simp add: skip_zeros_eq Let_def dropWhile_eq_drop significant_def)
  show ?thesis
    unfolding netnox_ssh_buf_append_mpint_be_def n z
    by (cases "significant d") (simp_all add: Let_def fetch1_def u32len_def)
qed

lemma appender_mpint:
  assumes "length d < 2 ^ 32 - 1"
  shows "appender (netnox_ssh_buf_append_mpint_be d (u32len d)) (ssh_mpint d)"
proof unfold_locales
  fix buf :: bytes and cap :: u32
  assume a: "length buf \<le> unat cap" "unat cap + length (ssh_mpint d) < 2 ^ 32"
  note op = mpint_op_eq [OF assms] and specs = app_u32.op_spec app_buf.op_spec
  show "netnox_ssh_buf_append_mpint_be d (u32len d) buf cap =
    (if length buf + length (ssh_mpint d) \<le> unat cap then Ok (buf @ ssh_mpint d)
     else Err NETNOX_RETURN_BAD_PARAM)"
  proof (cases "significant d")
    case Nil
    with a show ?thesis
      by (simp add: op ssh_mpint_def mpint_digits_def ssh_string_def specs)
  next
    case (Cons b v)
    have one: "netnox_ssh_buf_append [0] 1 = netnox_ssh_buf_append [0] (u32len [0 :: byte])"
      by (simp add: u32len_def)
    from a Cons show ?thesis
      by (auto simp: op one ssh_mpint_def mpint_digits_def ssh_string_def specs)
  qed
qed

lemma be_nat_append: "be_nat (xs @ ys) = be_nat xs * 256 ^ length ys + be_nat ys"
proof (induction ys rule: rev_induct)
  case (snoc y ys)
  then show ?case by (simp add: be_nat_def algebra_simps)
qed (simp add: be_nat_def)

lemma be_nat_Cons: "be_nat (x # xs) = unat x * 256 ^ length xs + be_nat xs"
  using be_nat_append [of "[x]" xs] by (simp add: be_nat_def)

lemma be_nat_Nil [simp]: "be_nat [] = 0"
  by (simp add: be_nat_def)

lemma be_nat_less: "be_nat xs < 256 ^ length xs"
proof (induction xs)
  case (Cons x xs)
  have "unat x \<le> 255" using unsigned_less [of x, where 'a = nat] by simp
  then have "(unat x + 1) * 256 ^ length xs \<le> 256 * 256 ^ length xs"
    by (intro mult_right_mono) simp_all
  then have "unat x * 256 ^ length xs + 256 ^ length xs \<le> 256 ^ length (x # xs)"
    by (simp add: algebra_simps)
  with Cons show ?case unfolding be_nat_Cons by linarith
qed simp

lemma be_nat_significant: "be_nat (significant d) = be_nat d"
  by (induction d) (simp_all add: be_nat_Cons significant_def)

lemma significant_nonzero: "significant d = b # v \<Longrightarrow> b \<noteq> 0"
  by (simp add: significant_def dropWhile_eq_Cons_conv)

lemma be_nat_mpint_digits: "be_nat (mpint_digits d) = be_nat d"
  using be_nat_significant [of d]
  by (auto simp: mpint_digits_def be_nat_Cons split: list.splits)

lemma mpint_digits_positive: "mpint_digits d \<noteq> [] \<Longrightarrow> hd (mpint_digits d) AND 0x80 = 0"
  by (auto simp: mpint_digits_def split: list.splits if_splits)

lemma mpint_digits_minimal:
  assumes "mpint_digits d = 0 # v"
  shows "v \<noteq> [] \<and> hd v AND 0x80 \<noteq> 0"
proof (cases "significant d")
  case Nil
  with assms show ?thesis by (simp add: mpint_digits_def)
next
  case (Cons b w)
  with assms significant_nonzero [OF Cons] have "v = b # w" and "b AND 0x80 \<noteq> 0"
    by (auto simp: mpint_digits_def split: if_splits)
  then show ?thesis by simp
qed

lemma mpint_32_spec:
  assumes "length d = 32" "length buf + 37 \<le> unat cap"
  shows "netnox_ssh_buf_append_mpint_be_32 d buf cap =
    Ok (buf @ ssh_string (if hd d AND 0x80 \<noteq> 0 then 0 # d else d))"
proof -
  have "unat (u32len buf + (4 + 33)) = length buf + 37"
    using u32len_plus [of buf 37] assms(2) unsigned_less [of cap, where 'a = nat] by simp
  then have "\<not> u32len buf + 4 + 33 > cap" using assms(2) by (simp add: u32_less_iff add.assoc)
  moreover obtain b v where "d = b # v" using assms(1) by (cases d) auto
  ultimately show ?thesis
    using assms by (auto simp: netnox_ssh_buf_append_mpint_be_32_def store_eq fetch_def fetch1_def ssh_string_def u32len_def)
qed

text \<open>The fixed-length encoding is the mpint of RFC 4251 exactly for values whose first nine bits are not all zero.\<close>

lemma mpint_32_iff:
  assumes "length d = 32" "length buf + 37 \<le> unat cap"
  shows "netnox_ssh_buf_append_mpint_be_32 d buf cap = Ok (buf @ ssh_mpint d) \<longleftrightarrow> hd d \<noteq> 0 \<or> hd (tl d) AND 0x80 \<noteq> 0"
proof -
  obtain b v where d: "d = b # v" using assms(1) by (cases d) auto
  with assms(1) have v: "v \<noteq> []" by auto
  have inj: "ssh_string x = ssh_string y \<longleftrightarrow> x = y" for x y
    by (auto simp: ssh_string_def netnox_ssh_write_u32_be_def)
  show ?thesis
  proof (cases "b = 0")
    case True
    have "mpint_digits d = d \<longleftrightarrow> hd v AND 0x80 \<noteq> 0"
    proof
      assume "hd v AND 0x80 \<noteq> 0"
      moreover from this have "hd v \<noteq> 0" by auto
      ultimately show "mpint_digits d = d" using v by (cases v) (simp_all add: d True mpint_digits_def significant_def)
    qed (use mpint_digits_minimal [of d v] d True in simp)
    then show ?thesis using mpint_32_spec [OF assms] by (auto simp: d True ssh_mpint_def inj)
  next
    case False
    then show ?thesis
      using mpint_32_spec [OF assms] by (simp add: d ssh_mpint_def mpint_digits_def significant_def)
  qed
qed

section \<open>Reading\<close>

lemma read_u32_at:
  assumes "length pre + 4 \<le> unat plen"
  shows "netnox_ssh_payload_read_u32 (pre @ netnox_ssh_write_u32_be v @ post) plen (u32len pre) =
    Ok (v, u32len (pre @ netnox_ssh_write_u32_be v))"
proof -
  have "unat plen < 2 ^ 32" using unsigned_less [of plen, where 'a = nat] by simp
  then show ?thesis using assms
    by (simp add: netnox_ssh_payload_read_u32_def u32_less_iff u32len_plus_numeral unat_u32len
        u32len_append u32len_def [of "netnox_ssh_write_u32_be v"])
qed

lemma read_string_at:
  assumes "length (pre @ ssh_string d) \<le> unat plen"
  shows "netnox_ssh_payload_read_string_view (pre @ ssh_string d @ post) plen (u32len pre) =
    Ok ((d @ post, u32len d), u32len (pre @ ssh_string d))"
proof -
  let ?w = "netnox_ssh_write_u32_be (u32len d)"
  have max: "unat plen < 2 ^ 32" using unsigned_less [of plen, where 'a = nat] by simp
  have rd: "netnox_ssh_payload_read_u32 (pre @ ?w @ d @ post) plen (u32len pre) =
    Ok (u32len d, u32len (pre @ ?w))"
    using assms by (intro read_u32_at) simp
  have off: "unat (u32len (pre @ ?w)) = length pre + 4"
    using assms max by (subst unat_u32len) auto
  have "u32len (pre @ ?w) + u32len d = u32len (pre @ ssh_string d)"
    by (simp add: ssh_string_def u32len_append)
  moreover have "unat (u32len (pre @ ssh_string d)) \<le> unat plen"
    using assms max by (subst unat_u32len) auto
  ultimately show ?thesis
    using rd off
    by (simp add: netnox_ssh_payload_read_string_view_def ssh_string_def u32_less_iff)
qed

text \<open>
  What the 32-bit sum in the bounds check means for the view a parser hands out: the check accepts
  a length exactly when the sum of offset and length, reduced modulo \<open>2 ^ 32\<close>, is within the
  payload, and the view lies inside the payload exactly when that sum did not wrap.
\<close>

lemma read_string_view_cases:
  assumes "length payload = unat plen" and "unat off + 4 \<le> unat plen"
  obtains n where "netnox_ssh_read_u32_be (drop (unat off) payload) = Ok n"
    and "netnox_ssh_payload_read_string_view payload plen off =
      (if (unat off + 4 + unat n) mod 2 ^ 32 \<le> unat plen
       then Ok ((drop (unat off + 4) payload, n), off + 4 + n) else Err NETNOX_RETURN_BAD_PARAM)"
proof -
  obtain n where n: "netnox_ssh_read_u32_be (drop (unat off) payload) = Ok n"
    using read_u32_be_total [of "drop (unat off) payload"] assms by fastforce
  have max: "unat plen < 2 ^ 32" using unsigned_less [of plen, where 'a = nat] by simp
  have o4: "unat (off + 4) = unat off + 4"
    using assms max by (subst unat_u32_add) auto
  have "unat (off + 4 + n) = (unat off + 4 + unat n) mod 2 ^ 32"
    using o4 by (simp add: unat_word_ariths(1) [of "off + 4" n])
  then have "netnox_ssh_payload_read_string_view payload plen off =
      (if (unat off + 4 + unat n) mod 2 ^ 32 \<le> unat plen
       then Ok ((drop (unat off + 4) payload, n), off + 4 + n) else Err NETNOX_RETURN_BAD_PARAM)"
    using assms o4 n
    by (simp add: netnox_ssh_payload_read_string_view_def netnox_ssh_payload_read_u32_def
        u32_less_iff add.assoc)
  with n show ?thesis by (rule that)
qed

section \<open>Name-lists\<close>

lemma scan_name_eq:
  "n \<le> length p \<Longrightarrow> scan_name p n =
     (let w = takeWhile (\<lambda>b. b \<noteq> 44) (take n p) in Ok (w, drop (length w) p, n - length w))"
proof (induction p arbitrary: n)
  case Nil
  then show ?case by (simp add: scan_name.simps)
next
  case (Cons b q)
  then show ?case
    by (cases n) (simp_all add: scan_name.simps [of "b # q"] Let_def)
qed

lemma split_on_unfold:
  "split_on c xs = takeWhile (\<lambda>b. b \<noteq> c) xs #
     (case dropWhile (\<lambda>b. b \<noteq> c) xs of [] \<Rightarrow> [] | _ # ys \<Rightarrow> split_on c ys)"
  by (induction xs) auto

lemma names_contain_iff:
  assumes "n \<le> length p" and "token \<noteq> []"
  shows "names_contain p n token = Ok (token \<in> set (split_on 44 (take n p)))"
  using assms
proof (induction "length p" arbitrary: p n rule: less_induct)
  case less
  let ?w = "takeWhile (\<lambda>b. b \<noteq> 44) (take n p)"
  show ?case
  proof (cases "n = 0")
    case True
    then show ?thesis using less.prems by (simp add: names_contain.simps)
  next
    case False
    have scan: "scan_name p n = Ok (?w, drop (length ?w) p, n - length ?w)"
      using less.prems(1) by (simp add: scan_name_eq Let_def)
    have rest: "dropWhile (\<lambda>b. b \<noteq> 44) (take n p) = take (n - length ?w) (drop (length ?w) p)"
      by (simp add: dropWhile_eq_drop drop_take)
    show ?thesis
    proof (cases "n - length ?w")
      case 0
      then have "?w = take n p" 
        using rest by (metis append_Nil2 take_0 takeWhile_dropWhile_id)
      then show ?thesis using scan False less.prems 0
        by (subst names_contain.simps, subst split_on_unfold) (auto simp: rest)
    next
      case (Suc k)
      then obtain x q where q: "drop (length ?w) p = x # q"
        using less.prems(1) by (cases "drop (length ?w) p") auto
      then have dw: "dropWhile (\<lambda>b. b \<noteq> 44) (take n p) = x # take k q"
        using rest Suc by simp
      then have x: "x = 44" using hd_dropWhile [of "\<lambda>b. b \<noteq> 44" "take n p"] by fastforce
      have len: "length q < length p" "k \<le> length q"
        using arg_cong [OF q, of length] Suc less.prems(1) by auto
      have "token \<in> set (split_on 44 (take n p)) \<longleftrightarrow>
          token = ?w \<or> token \<in> set (split_on 44 (take k q))"
        by (subst split_on_unfold) (simp add: dw)
      moreover have "names_contain q k token = Ok (token \<in> set (split_on 44 (take k q)))"
        using len less.prems(2) by (intro less.hyps) auto
      ultimately show ?thesis using scan False Suc q
        by (subst names_contain.simps) auto
    qed
  qed
qed

section \<open>Properties\<close>

text \<open>C38: The bounds check of \<open>read_string_view\<close> compares a 32-bit sum. Whenever it accepts a field of a
  payload, the view it returns lies inside the payload exactly when the sum of offset and announced
  length did not wrap around; an accepted length that wraps gives a view of more bytes than are left.\<close>

theorem string_view_in_bounds_iff:
  assumes "length payload = unat plen" and "unat off + 4 \<le> unat plen"
    and "netnox_ssh_payload_read_string_view payload plen off = Ok ((ptr, n), off')"
  shows "unat n \<le> length ptr \<longleftrightarrow> unat off + 4 + unat n < 2 ^ 32"
proof -
  have max: "unat plen < 2 ^ 32" using unsigned_less [of plen, where 'a = nat] by simp
  obtain k where "netnox_ssh_payload_read_string_view payload plen off =
      (if (unat off + 4 + unat k) mod 2 ^ 32 \<le> unat plen
       then Ok ((drop (unat off + 4) payload, k), off + 4 + k) else Err NETNOX_RETURN_BAD_PARAM)"
    using read_string_view_cases [OF assms(1,2)] by blast
  with assms(3) have ok: "(unat off + 4 + unat n) mod 2 ^ 32 \<le> unat plen"
    and p: "ptr = drop (unat off + 4) payload"
    by (simp_all split: if_splits)
  show ?thesis
  proof
    assume "unat n \<le> length ptr"
    then show "unat off + 4 + unat n < 2 ^ 32" using max assms(1,2) p by simp
  next
    assume "unat off + 4 + unat n < 2 ^ 32"
    then have "unat off + 4 + unat n \<le> unat plen" using ok by simp
    then show "unat n \<le> length ptr" using assms(1) p by simp
  qed
qed

theorem string_view_in_bounds_iff_witness:
  "netnox_ssh_payload_read_string_view [0xFF, 0xFF, 0xFF, 0xFE] 4 0 = Ok (([], 0xFFFFFFFE), 2) \<and>
   (unat (0xFFFFFFFE :: u32) \<le> length ([] :: bytes) \<longleftrightarrow> unat (0 :: u32) + 4 + unat (0xFFFFFFFE :: u32) < 2 ^ 32)"
proof -
  have view: "netnox_ssh_payload_read_string_view [0xFF, 0xFF, 0xFF, 0xFE] 4 0 = Ok (([], 0xFFFFFFFE), 2)"
    by code_simp
  have len: "length [0xFF, 0xFF, 0xFF, 0xFE :: byte] = unat (4 :: u32)"
    and off: "unat (0 :: u32) + 4 \<le> unat (4 :: u32)" by simp_all
  from view string_view_in_bounds_iff [OF len off view] show ?thesis by (rule conjI)
qed

text \<open>C36: \<open>namelist_contains\<close> finds a token exactly when it is one of the comma-separated names of the list,
  and never reads outside it.\<close>

theorem namelist_contains_iff:
  assumes "unat (snd v) \<le> length (fst v)" and "token \<noteq> []"
  shows "netnox_ssh_namelist_contains v token =
    Ok (token \<in> set (split_on 44 (take (unat (snd v)) (fst v))))"
  using names_contain_iff [OF assms] assms(2) by (simp add: netnox_ssh_namelist_contains_def)

theorem namelist_contains_iff_witness:
  "netnox_ssh_namelist_contains ([97, 44, 98, 99], 4) [98, 99] = Ok True \<and>
   netnox_ssh_namelist_contains ([97, 44, 98, 99], 4) [98] = Ok False"
  using namelist_contains_iff [of "([97, 44, 98, 99], 4)" "[98, 99]"]
    namelist_contains_iff [of "([97, 44, 98, 99], 4)" "[98]"] by simp

text \<open>C37: \<open>buf_append_mpint_be\<close> appends the mpint of RFC 4251 or refuses: the digits keep the value of the
  number, their top bit is clear (the number stays positive), and a leading zero byte is there only
  when the next byte would otherwise have its top bit set.\<close>

theorem mpint_append_correct:
  assumes "length d < 2 ^ 32 - 1" and "length buf \<le> unat cap"
    and "unat cap + length (ssh_mpint d) < 2 ^ 32"
  shows "netnox_ssh_buf_append_mpint_be d (u32len d) buf cap =
      (if length buf + length (ssh_mpint d) \<le> unat cap
       then Ok (buf @ ssh_string (mpint_digits d)) else Err NETNOX_RETURN_BAD_PARAM) \<and>
    be_nat (mpint_digits d) = be_nat d \<and>
    (mpint_digits d \<noteq> [] \<longrightarrow> hd (mpint_digits d) AND 0x80 = 0) \<and>
    (\<forall>v. mpint_digits d = 0 # v \<longrightarrow> v \<noteq> [] \<and> hd v AND 0x80 \<noteq> 0)"
  using appender.op_spec [OF appender_mpint [OF assms(1)] assms(2,3)] be_nat_mpint_digits [of d]
    mpint_digits_positive [of d] mpint_digits_minimal [of d]
  by (simp add: ssh_mpint_def)

theorem mpint_append_correct_witness:
  "netnox_ssh_buf_append_mpint_be [0, 0x80, 1] (u32len [0 :: byte, 0x80, 1]) [] 64 =
     Ok (ssh_string (mpint_digits [0, 0x80, 1])) \<and> be_nat (mpint_digits [0, 0x80, 1]) = 0x8001"
  using mpint_append_correct [of "[0, 0x80, 1]" "[]" 64]
  by (simp add: ssh_mpint_def mpint_digits_def significant_def be_nat_def)

end
