(* ===== verification/Nox_Crypto.thy ===== *)
theory Nox_Crypto
  imports Nox_Wire
begin

text \<open>
  The cryptographic layer. NoxTLS is a submodule whose code is not part of this repository: its
  functions are the fields of the record \<open>noxtls\<close>, an argument of every definition that calls them,
  and \<open>noxtls_ok\<close> collects the documented behaviour the protocol relies on. On top of it are the
  functions of \<open>common/noxssh_common.c\<close> and \<open>common/noxssh_server.c\<close> that use it directly: HMAC-SHA-256,
  the AES-CTR block counter, and the constant-time comparison of MACs.
\<close>

section \<open>The interface of NoxTLS\<close>

text \<open>
  \<open>None\<close> (or \<open>False\<close>) stands for a return code other than \<open>NOXTLS_RETURN_SUCCESS\<close>.
  \<open>noxtls_sha256\<close> is one run of init, the updates and finish, on the concatenation of what was
  hashed; \<open>noxtls_sha_init\<close> tells whether the context can be initialised. The key generator draws
  on its own entropy, numbered by the calls made so far. \<open>noxtls_rsa_key_init\<close> returns the size in
  bytes of a key of the requested number of bits.
\<close>

datatype noxtls_hash_algos_t = NOXTLS_HASH_SHA1 | NOXTLS_HASH_SHA_256

record noxtls =
  noxtls_sha_init :: bool
  noxtls_sha256 :: "bytes \<Rightarrow> bytes option"
  noxtls_aes_encrypt_ctr :: "bytes \<Rightarrow> bytes \<Rightarrow> bytes \<Rightarrow> bytes option"
  noxtls_x25519_generate_key :: "nat \<Rightarrow> (bytes \<times> bytes) option"
  noxtls_x25519_clamp_scalar :: "bytes \<Rightarrow> bytes"
  noxtls_x25519_public_key :: "bytes \<Rightarrow> bytes option"
  noxtls_x25519_shared_secret :: "bytes \<Rightarrow> bytes \<Rightarrow> bytes option"
  noxtls_ed25519_public_key :: "bytes \<Rightarrow> bytes option"
  noxtls_ed25519_sign :: "bytes \<Rightarrow> bytes \<Rightarrow> bytes option"
  noxtls_ed25519_verify :: "bytes \<Rightarrow> bytes \<Rightarrow> bytes \<Rightarrow> bool"
  noxtls_rsa_key_init :: "nat \<Rightarrow> nat option"
  noxtls_rsa_verify :: "nat \<Rightarrow> bytes \<Rightarrow> bytes \<Rightarrow> bytes \<Rightarrow> bytes \<Rightarrow> noxtls_hash_algos_t \<Rightarrow> bool"

section \<open>Definitions\<close>

text \<open>\<open>memset(pad, c, 64); for(i = 0; i < key_len; i++) pad[i] ^= key[i];\<close>\<close>

definition xor_pad :: "byte \<Rightarrow> bytes \<Rightarrow> bytes" where
  "xor_pad c key = map (\<lambda>k. c XOR k) key @ replicate (64 - length key) c"

text \<open>
  The codes of the hash calls after the first are not looked at; where one of them fails, the
  digest array stays uninitialised.
\<close>

definition sha_unchecked :: "noxtls \<Rightarrow> bytes \<Rightarrow> bytes res" where
  "sha_unchecked C d = (case noxtls_sha256 C d of None \<Rightarrow> Fault | Some h \<Rightarrow> Ok h)"

definition netnox_ssh_hmac_sha256 :: "noxtls \<Rightarrow> bytes \<Rightarrow> bytes \<Rightarrow> bytes res" where
  "netnox_ssh_hmac_sha256 C key data =
     (if \<not> noxtls_sha_init C then Err NETNOX_RETURN_FAILED
      else bindR (if 64 < length key then sha_unchecked C key else Ok key) (\<lambda>k.
           bindR (sha_unchecked C (xor_pad 0x36 k @ data)) (\<lambda>inner.
           sha_unchecked C (xor_pad 0x5C k @ inner))))"

definition netnox_ssh_sha256 :: "noxtls \<Rightarrow> bytes \<Rightarrow> bytes res" where
  "netnox_ssh_sha256 C data =
     (if \<not> noxtls_sha_init C then Err NETNOX_RETURN_FAILED
      else case noxtls_sha256 C data of None \<Rightarrow> Err NETNOX_RETURN_FAILED | Some h \<Rightarrow> Ok h)"

text \<open>The loop runs from the last byte of the counter to the first while there is a carry.\<close>

fun ctr_carry :: "bytes \<Rightarrow> u64 \<Rightarrow> bytes" where
  "ctr_carry [] carry = []"
| "ctr_carry (b # bs) carry =
     (if carry > 0
      then let c = carry + ucast b in ucast (c AND 0xFF) # ctr_carry bs (drop_bit 8 c)
      else b # bs)"

definition netnox_ssh_ctr_increment_blocks :: "bytes \<Rightarrow> u32 \<Rightarrow> bytes" where
  "netnox_ssh_ctr_increment_blocks counter_16 n_blocks =
     rev (ctr_carry (rev counter_16) (ucast n_blocks))"

definition srv_equal_mac :: "bytes \<Rightarrow> bytes \<Rightarrow> nat \<Rightarrow> bool" where
  "srv_equal_mac a b len =
     (foldl (\<lambda>diff (x, y). diff OR (x XOR y)) 0 (zip (take len a) (take len b)) = 0)"

section \<open>What the code relies on\<close>

text \<open>
  Digests have 32 bytes; AES-CTR is a key stream that is added to the data: it keeps the length, is
  its own inverse, and continues a message at a block boundary with the counter advanced by the
  number of blocks already used; Ed25519 verifies what it signed; both sides of X25519 compute the
  same secret; keys, public values and signatures have their fixed sizes.
\<close>

definition sha_ok :: "noxtls \<Rightarrow> bool" where
  "sha_ok C \<longleftrightarrow> noxtls_sha_init C \<and> (\<forall>d. \<exists>h. noxtls_sha256 C d = Some h \<and> length h = 32)"

definition ctr_ok :: "noxtls \<Rightarrow> bool" where
  "ctr_ok C \<longleftrightarrow>
     (\<forall>k d c. length k = 16 \<longrightarrow> length c = 16 \<longrightarrow>
        (\<exists>e. noxtls_aes_encrypt_ctr C k d c = Some e \<and> length e = length d \<and>
             noxtls_aes_encrypt_ctr C k e c = Some d)) \<and>
     (\<forall>k c x y ex ey. length k = 16 \<longrightarrow> length c = 16 \<longrightarrow> length x = 16 \<longrightarrow>
        noxtls_aes_encrypt_ctr C k x c = Some ex \<longrightarrow>
        noxtls_aes_encrypt_ctr C k y (netnox_ssh_ctr_increment_blocks c 1) = Some ey \<longrightarrow>
        noxtls_aes_encrypt_ctr C k (x @ y) c = Some (ex @ ey))"

definition sign_ok :: "noxtls \<Rightarrow> bool" where
  "sign_ok C \<longleftrightarrow> (\<forall>sk pk m sig. noxtls_ed25519_public_key C sk = Some pk \<longrightarrow>
     noxtls_ed25519_sign C sk m = Some sig \<longrightarrow> noxtls_ed25519_verify C pk m sig)"

definition dh_ok :: "noxtls \<Rightarrow> bool" where
  "dh_ok C \<longleftrightarrow> (\<forall>n a A seed B. noxtls_x25519_generate_key C n = Some (a, A) \<longrightarrow>
     noxtls_x25519_public_key C (noxtls_x25519_clamp_scalar C seed) = Some B \<longrightarrow>
     length A = 32 \<and> length B = 32 \<and>
     noxtls_x25519_shared_secret C a B = noxtls_x25519_shared_secret C (noxtls_x25519_clamp_scalar C seed) A \<and>
     (\<forall>k. noxtls_x25519_shared_secret C a B = Some k \<longrightarrow> length k = 32))"

section \<open>HMAC\<close>

text \<open>RFC 2104 over SHA-256 with block size 64.\<close>

definition hmac_key :: "(bytes \<Rightarrow> bytes) \<Rightarrow> bytes \<Rightarrow> bytes" where
  "hmac_key H key = (let k = (if 64 < length key then H key else key) in k @ replicate (64 - length k) 0)"

definition hmac_spec :: "(bytes \<Rightarrow> bytes) \<Rightarrow> bytes \<Rightarrow> bytes \<Rightarrow> bytes" where
  "hmac_spec H key data =
     (let k = hmac_key H key in
      H (map (\<lambda>b. b XOR 0x5C) k @ H (map (\<lambda>b. b XOR 0x36) k @ data)))"

definition digest :: "noxtls \<Rightarrow> bytes \<Rightarrow> bytes" where
  "digest C d = (case noxtls_sha256 C d of Some h \<Rightarrow> h | None \<Rightarrow> [])"

lemma sha_ok_digest:
  "sha_ok C \<Longrightarrow> noxtls_sha256 C d = Some (digest C d)"
  "sha_ok C \<Longrightarrow> length (digest C d) = 32"
  "sha_ok C \<Longrightarrow> noxtls_sha_init C"
  unfolding sha_ok_def digest_def by (metis option.simps(5))+

lemma xor_pad_eq: "xor_pad c key = map (\<lambda>b. b XOR c) (key @ replicate (64 - length key) 0)"
  by (simp add: xor_pad_def xor.commute)

lemma hmac_sha256_eq:
  assumes "sha_ok C"
  shows "netnox_ssh_hmac_sha256 C key data = Ok (hmac_spec (digest C) key data)"
  using sha_ok_digest [OF assms]
  by (simp add: netnox_ssh_hmac_sha256_def sha_unchecked_def hmac_spec_def hmac_key_def xor_pad_eq
      Let_def)

lemma length_hmac: "sha_ok C \<Longrightarrow> length (hmac_spec (digest C) key data) = 32"
  by (simp add: hmac_spec_def Let_def sha_ok_digest)

lemma sha256_eq: "sha_ok C \<Longrightarrow> netnox_ssh_sha256 C d = Ok (digest C d)"
  by (simp add: netnox_ssh_sha256_def sha_ok_digest)

section \<open>The block counter\<close>

text \<open>The bytes in the order of the loop, least significant first.\<close>

fun le_nat :: "bytes \<Rightarrow> nat" where
  "le_nat [] = 0"
| "le_nat (b # bs) = unat b + 256 * le_nat bs"

lemma le_nat_append: "le_nat (xs @ [b]) = le_nat xs + 256 ^ length xs * unat b"
  by (induction xs) (simp_all add: algebra_simps)

lemma le_nat_rev: "le_nat (rev xs) = be_nat xs"
  by (induction xs) (simp_all add: le_nat_append be_nat_Cons)

lemma length_ctr_carry [simp]: "length (ctr_carry bs c) = length bs"
  by (induction bs c rule: ctr_carry.induct) (simp_all add: Let_def)

lemma length_ctr_increment [simp]:
  "length (netnox_ssh_ctr_increment_blocks c n) = length c"
  by (simp add: netnox_ssh_ctr_increment_blocks_def)

lemma unat_byte_less: "unat (b :: byte) < 256"
  using unsigned_less [of b, where 'a = nat] by simp

lemma digit_inject:
  assumes "x < 256" and "y < 256"
  shows "x + 256 * a = y + 256 * b \<longleftrightarrow> x = y \<and> a = (b :: nat)"
proof
  assume eq: "x + 256 * a = y + 256 * b"
  then have "(x + 256 * a) mod 256 = (y + 256 * b) mod 256" by simp
  then have "x = y" using assms by simp
  with eq show "x = y \<and> a = b" by simp
qed simp

lemma le_nat_inject:
  "length xs = length ys \<Longrightarrow> le_nat xs = le_nat ys \<longleftrightarrow> xs = ys"
proof (induction xs ys rule: list_induct2)
  case (Cons x xs y ys)
  have "unat x + 256 * le_nat xs = unat y + 256 * le_nat ys \<longleftrightarrow>
      unat x = unat y \<and> le_nat xs = le_nat ys"
    by (intro digit_inject unat_byte_less)
  with Cons.IH show ?case by (simp add: unsigned_word_eqI word_unat_eq_iff)
qed simp

lemma be_nat_inject:
  "length xs = length ys \<Longrightarrow> be_nat xs = be_nat ys \<longleftrightarrow> xs = ys"
  using le_nat_inject [of "rev xs" "rev ys"] by (simp add: le_nat_rev)

lemma unat_low_byte: "unat (ucast ((c :: u64) AND 0xFF) :: byte) = unat c mod 256"
proof -
  have m: "(0xFF :: u64) = mask 8" by (simp add: mask_eq_exp_minus_1)
  have "ucast (c AND 0xFF) = (ucast c :: byte)"
    unfolding m by (auto intro!: bit_word_eqI simp: bit_simps)
  then show ?thesis by (simp add: unsigned_ucast_eq take_bit_eq_mod)
qed

lemma unat_drop_byte: "unat (drop_bit 8 (c :: u64)) = unat c div 256"
  unfolding unat_drop_bit_eq by (simp add: drop_bit_eq_div)

lemma unat_ucast_byte: "unat (ucast (b :: byte) :: u64) = unat b"
  using unat_byte_less [of b] by (simp add: unsigned_ucast_eq take_bit_eq_mod)

lemma unat_ucast_u32: "unat (ucast (n :: u32) :: u64) = unat n"
  using unsigned_less [of n, where 'a = nat] by (simp add: unsigned_ucast_eq take_bit_eq_mod)

lemma carry_step:
  "(x mod 256) + 256 * ((l + x div 256) mod m) = (256 * l + x) mod (256 * m)" for x l m :: nat
  using mod_mult2_eq [of "256 * l + x" 256 m] by simp

lemma ctr_carry_value:
  "unat c < 2 ^ 40 \<Longrightarrow> le_nat (ctr_carry bs c) = (le_nat bs + unat c) mod 256 ^ length bs"
proof (induction bs c rule: ctr_carry.induct)
  case (2 b bs c)
  show ?case
  proof (cases "c > 0")
    case True
    let ?c = "c + ucast b"
    note b = unat_ucast_byte [of b]
    have sum: "unat ?c = unat c + unat b"
      using "2.prems" unat_byte_less [of b] b by (subst unat_word_ariths(1)) simp
    have "unat (drop_bit 8 ?c) < 2 ^ 40"
      using "2.prems" unat_byte_less [of b] by (simp add: unat_drop_byte sum)
    then have ih: "le_nat (ctr_carry bs (drop_bit 8 ?c)) =
        (le_nat bs + unat ?c div 256) mod 256 ^ length bs"
      using "2.IH" [OF True refl] by (simp add: unat_drop_byte)
    show ?thesis using True carry_step [of "unat ?c" "le_nat bs" "256 ^ length bs"]
      by (simp add: Let_def ih unat_low_byte sum ac_simps)
  next
    case False
    then have "c = 0" by (simp add: word_less_nat_alt unat_eq_0)
    moreover have "le_nat (b # bs) < 256 ^ length (b # bs)"
      using be_nat_less [of "rev (b # bs)"] le_nat_rev [of "rev (b # bs)"] by simp
    ultimately show ?thesis by simp
  qed
qed simp

lemma ctr_increment_value:
  "be_nat (netnox_ssh_ctr_increment_blocks c n) = (be_nat c + unat n) mod 256 ^ length c"
proof -
  note n = unat_ucast_u32 [of n]
  then have "unat (ucast n :: u64) < 2 ^ 40" using unsigned_less [of n, where 'a = nat] by simp
  then show ?thesis using ctr_carry_value [of "ucast n" "rev c"] n
    by (simp add: netnox_ssh_ctr_increment_blocks_def le_nat_rev flip: le_nat_rev)
qed

lemma ctr_increment_add:
  assumes "unat m + unat n < 2 ^ 32"
  shows "netnox_ssh_ctr_increment_blocks (netnox_ssh_ctr_increment_blocks c m) n =
    netnox_ssh_ctr_increment_blocks c (m + n)"
proof -
  have "be_nat (netnox_ssh_ctr_increment_blocks (netnox_ssh_ctr_increment_blocks c m) n) =
      be_nat (netnox_ssh_ctr_increment_blocks c (m + n))"
    using unat_u32_add [OF assms] by (simp add: ctr_increment_value mod_simps add.assoc)
  then show ?thesis by (subst (asm) be_nat_inject) simp_all
qed

section \<open>Comparing MACs\<close>

lemma or_eq_0_byte: "(x :: byte) OR y = 0 \<longleftrightarrow> x = 0 \<and> y = 0"
  by (auto simp: bit_eq_iff bit_simps)

lemma xor_eq_0_byte: "(x :: byte) XOR y = 0 \<longleftrightarrow> x = y"
  by (auto simp: bit_eq_iff bit_simps)

lemma diff_fold:
  "foldl (\<lambda>diff (x, y). diff OR (x XOR y)) d xys = (0 :: byte) \<longleftrightarrow>
     d = 0 \<and> (\<forall>(x, y) \<in> set xys. x = y)"
  by (induction xys arbitrary: d) (auto simp: or_eq_0_byte xor_eq_0_byte)

lemma zip_all_eq:
  "length xs = length ys \<Longrightarrow> (\<forall>(x, y) \<in> set (zip xs ys). x = y) \<longleftrightarrow> xs = ys"
  by (induction xs ys rule: list_induct2) auto

lemma srv_equal_mac_iff:
  "len \<le> length a \<Longrightarrow> len \<le> length b \<Longrightarrow> srv_equal_mac a b len \<longleftrightarrow> take len a = take len b"
  by (simp add: srv_equal_mac_def diff_fold zip_all_eq)

section \<open>Properties\<close>

text \<open>C34: The HMAC of the library is HMAC-SHA-256 of RFC 2104 for keys of every length, including those
  longer than the block, given that the hash of NoxTLS computes.\<close>

theorem hmac_is_rfc2104:
  assumes "sha_ok C"
  shows "netnox_ssh_hmac_sha256 C key data =
    Ok (let k = (if 64 < length key then digest C key else key);
            block = k @ replicate (64 - length k) 0
        in digest C (map (\<lambda>b. b XOR 0x5C) block @ digest C (map (\<lambda>b. b XOR 0x36) block @ data)))"
  using hmac_sha256_eq [OF assms] by (simp add: hmac_spec_def hmac_key_def Let_def)

text \<open>A stand-in for the library, to evaluate the hypotheses on.\<close>

definition toy_noxtls :: noxtls where
  "toy_noxtls = \<lparr>noxtls_sha_init = True,
     noxtls_sha256 = (\<lambda>d. Some (take 32 (d @ replicate 32 0))),
     noxtls_aes_encrypt_ctr = (\<lambda>k d c. Some (map (\<lambda>b. b XOR 0x55) d)),
     noxtls_x25519_generate_key = (\<lambda>n. Some (replicate 32 (word_of_nat n), replicate 32 (word_of_nat n))),
     noxtls_x25519_clamp_scalar = (\<lambda>k. take 32 (k @ replicate 32 0)),
     noxtls_x25519_public_key = (\<lambda>k. Some k),
     noxtls_x25519_shared_secret = (\<lambda>k p. Some (map2 (XOR) k p)),
     noxtls_ed25519_public_key = (\<lambda>k. Some k),
     noxtls_ed25519_sign = (\<lambda>k m. Some (take 32 (k @ replicate 32 0) @ take 32 (m @ replicate 32 0))),
     noxtls_ed25519_verify = (\<lambda>k m s. s = take 32 (k @ replicate 32 0) @ take 32 (m @ replicate 32 0)),
     noxtls_rsa_key_init = (\<lambda>bits. Some (bits div 8)),
     noxtls_rsa_verify = (\<lambda>n a b c d h. False)\<rparr>"

lemma toy_sha_ok: "sha_ok toy_noxtls"
  by (auto simp: sha_ok_def toy_noxtls_def min_def)

lemma toy_ctr_ok: "ctr_ok toy_noxtls"
  by (simp add: ctr_ok_def toy_noxtls_def comp_def xor.assoc)

lemma toy_sign_ok: "sign_ok toy_noxtls"
  by (simp add: sign_ok_def toy_noxtls_def)

lemma toy_dh_ok: "dh_ok toy_noxtls"
proof -
  have "map2 (XOR) xs ys = map2 (XOR) ys (xs :: bytes)" for xs ys
    by (subst zip_commute) (simp add: comp_def case_prod_beta xor.commute)
  then show ?thesis by (auto simp: dh_ok_def toy_noxtls_def min_def)
qed

theorem hmac_is_rfc2104_witness:
  "sha_ok toy_noxtls \<and> netnox_ssh_hmac_sha256 toy_noxtls [1] [2] =
    Ok (digest toy_noxtls (map (\<lambda>b. b XOR 0x5C) (1 # replicate 63 0) @
         digest toy_noxtls (map (\<lambda>b. b XOR 0x36) (1 # replicate 63 0) @ [2])))"
  using hmac_is_rfc2104 [OF toy_sha_ok, of "[1]" "[2]"] toy_sha_ok by (simp add: Let_def)

text \<open>C35: Advancing the AES-CTR counter by \<open>n\<close> blocks adds \<open>n\<close> to the 128-bit big-endian number it holds,
  wrapping modulo \<open>2 ^ 128\<close>, and keeps its 16 bytes.\<close>

theorem ctr_increment_is_addition:
  assumes "length ctr = 16"
  shows "be_nat (netnox_ssh_ctr_increment_blocks ctr n) = (be_nat ctr + unat n) mod 2 ^ 128 \<and>
    length (netnox_ssh_ctr_increment_blocks ctr n) = 16"
  using ctr_increment_value [of ctr n] assms by simp

theorem ctr_increment_is_addition_witness:
  "be_nat (netnox_ssh_ctr_increment_blocks
     [0xFF, 0xFF, 0xFF, 0xFF, 0xFF, 0xFF, 0xFF, 0xFF, 0xFF, 0xFF, 0xFF, 0xFF, 0xFF, 0xFF, 0xFF, 0xFF] 2) = 1"
  using ctr_increment_is_addition
    [of "[0xFF, 0xFF, 0xFF, 0xFF, 0xFF, 0xFF, 0xFF, 0xFF, 0xFF, 0xFF, 0xFF, 0xFF, 0xFF, 0xFF, 0xFF, 0xFF]" 2]
  by (simp add: be_nat_def)

end
