(* ===== verification/Nox_Transport.thy ===== *)
theory Nox_Transport
  imports Nox_Crypto "HOL-Library.Sublist"
begin

text \<open>
  The byte transport under both endpoints: the callbacks \<open>send_cb\<close> and \<open>recv_cb\<close>, which may move
  fewer bytes than asked for or fail, the loops \<open>send_all\<close>, \<open>recv_exact\<close>, \<open>recv_line\<close> of
  \<open>common/noxssh_common.c\<close> and their copies with deadlines in \<open>common/noxssh_server.c\<close>, the sources
  of random bytes, and the part of the context structure that the client and the server share.

  The environment of one endpoint is a script (\<open>world\<close>): the segments the peer's bytes arrive in
  (an empty segment is one failing read, the end of the list a closed connection), how many bytes
  each write accepts (\<open>0\<close> is a failing write), the bytes sent so far, the values \<open>rand()\<close>,
  \<open>getrandom()\<close>, \<open>clock_gettime()\<close> and the key generator will return, the results of \<open>poll()\<close> between
  packets, and for each \<open>fork()\<close> of the server either its failure or what every round of the session's loop
  will see; it records the sessions started and the bytes written to their input. Theorems quantify over it.
\<close>

section \<open>Definitions\<close>

subsection \<open>The environment of an endpoint\<close>

datatype getrandom_t = Got bytes | Eintr | GetrandomFails

text \<open>
  What the server's process sees of the operating system: a \<open>poll\<close> that fails, times out or reports events
  (input, hang-up, error on the transport; activity of the child), the results of single writes to and reads
  from the child, and the status \<open>waitpid\<close> reports.
\<close>

datatype poll_t = Poll_eintr | Poll_error | Poll_timeout | Poll_events bool bool bool bool

datatype write_t = Wrote nat | Write_eintr | Write_blocked bool | Write_failed

datatype read_t = Read bytes | Read_eof | Read_again | Read_failed

datatype exit_t = Exited u32 | Signaled u32

record session_round =
  round_poll :: poll_t
  round_writes :: "write_t list"
  round_read :: read_t
  round_exit :: "exit_t option"

text \<open>A started session: the user, the command (\<open>None\<close> for a shell), and whether it has a terminal.\<close>

type_synonym spawn = "bytes \<times> bytes option \<times> bool"

record world =
  rx :: "bytes list"
  tx :: bytes
  tx_accept :: "nat list"
  rand_byte :: "nat \<Rightarrow> byte"
  rand_pos :: nat
  getrandom :: "getrandom_t list"
  clock_ms :: "nat \<Rightarrow> u64"
  clock_pos :: nat
  keygen_pos :: nat
  env_key_deriv_mpint :: bool
  polls :: "poll_t list"
  children :: "session_round list option list"
  spawned :: "spawn list"
  child_input :: bytes

type_synonym 'a io = "world \<Rightarrow> 'a res \<times> world"

text \<open>One call of \<open>send_cb\<close>: the number of bytes taken, or \<open>None\<close> for a result \<open>\<le> 0\<close>.\<close>

definition transport_send :: "bytes \<Rightarrow> world \<Rightarrow> nat option \<times> world" where
  "transport_send data w =
     (case tx_accept w of
        [] \<Rightarrow> (Some (length data), w\<lparr>tx := tx w @ data\<rparr>)
      | k # ks \<Rightarrow>
          if k = 0 then (None, w\<lparr>tx_accept := ks\<rparr>)
          else (Some (min k (length data)),
                w\<lparr>tx_accept := ks, tx := tx w @ take k data\<rparr>))"

text \<open>One call of \<open>recv_cb\<close> for at most \<open>len\<close> bytes.\<close>

definition transport_recv :: "nat \<Rightarrow> world \<Rightarrow> bytes option \<times> world" where
  "transport_recv len w =
     (case rx w of
        [] \<Rightarrow> (None, w)
      | seg # segs \<Rightarrow>
          if seg = [] then (None, w\<lparr>rx := segs\<rparr>)
          else if length seg \<le> len then (Some seg, w\<lparr>rx := segs\<rparr>)
          else (Some (take len seg), w\<lparr>rx := drop len seg # segs\<rparr>))"

subsection \<open>Complete transfers\<close>

text \<open>
  The loops of the two endpoints differ only in the check made before each call (\<open>guard\<close>): none in
  the client, the deadlines in the server. \<open>room\<close> is what is left of the destination array.
\<close>

type_synonym guard = "(u64 \<Rightarrow> bool) option"

definition no_guard :: guard where
  "no_guard = None"

definition srv_now_ms :: "world \<Rightarrow> u64 \<times> world" where
  "srv_now_ms w = (clock_ms w (clock_pos w), w\<lparr>clock_pos := Suc (clock_pos w)\<rparr>)"

definition pass :: "guard \<Rightarrow> world \<Rightarrow> bool \<times> world" where
  "pass g w =
     (case g of None \<Rightarrow> (True, w)
      | Some in_time \<Rightarrow> (case srv_now_ms w of (now, w') \<Rightarrow> (in_time now, w')))"

lemma rx_pass: "pass g w = (b, w') \<Longrightarrow> rx w' = rx w"
  by (auto simp: pass_def srv_now_ms_def split: option.splits)

function send_loop :: "guard \<Rightarrow> bytes \<Rightarrow> unit io" where
  "send_loop g data w =
     (if data = [] then (Ok (), w)
      else case pass g w of (ok, w1) \<Rightarrow>
        if \<not> ok then (Err NETNOX_RETURN_FAILED, w1)
        else case transport_send data w1 of
            (None, w2) \<Rightarrow> (Err NETNOX_RETURN_FAILED, w2)
          | (Some sent, w2) \<Rightarrow> send_loop g (drop sent data) w2)"
  by pat_completeness auto
termination
  by (relation "measure (\<lambda>(g, d, w). length d)")
    (auto simp: transport_send_def split: list.splits if_splits)

function recv_loop :: "guard \<Rightarrow> nat \<Rightarrow> int \<Rightarrow> bytes \<Rightarrow> bytes io" where
  "recv_loop g len room acc w =
     (if len = 0 then (Ok acc, w)
      else case pass g w of (ok, w1) \<Rightarrow>
        if \<not> ok then (Err NETNOX_RETURN_FAILED, w1)
        else case transport_recv len w1 of
            (None, w2) \<Rightarrow> (Err NETNOX_RETURN_FAILED, w2)
          | (Some got, w2) \<Rightarrow>
              if int (length got) \<le> room
              then recv_loop g (len - length got) (room - int (length got)) (acc @ got) w2
              else (Fault, w2))"
  by pat_completeness auto
termination
  by (relation "measure (\<lambda>(g, n, r, a, w). n)")
    (auto simp: transport_recv_def split: list.splits if_splits)

declare send_loop.simps [simp del] recv_loop.simps [simp del]

subsection \<open>The context structures\<close>

text \<open>
  The fields that \<open>netnox_ssh_client_t\<close> and \<open>netnox_ssh_server_t\<close> have in common. A flag is a
  boolean, a callback pointer is whether it is set, an array with a length field is the list of its
  valid bytes, a C string its characters, and \<open>io_user_data\<close> the environment behind the callbacks.
\<close>

record ssh_context =
  send_cb :: bool
  recv_cb :: bool
  io_user_data :: world
  client_ident :: bytes
  server_ident :: bytes
  connected :: bool
  kexinit_exchanged :: bool
  userauth_service_ready :: bool
  connection_service_ready :: bool
  authenticated :: bool
  channel_open :: bool
  key_exchange_complete :: bool
  local_channel_id :: u32
  remote_channel_id :: u32
  local_window_size :: u32
  remote_window_size :: u32
  remote_max_packet_size :: u32
  kexinit_client_payload :: bytes
  kexinit_server_payload :: bytes
  session_id :: bytes
  session_id_len :: byte
  shared_secret_raw :: bytes
  c2s_iv :: bytes
  s2c_iv :: bytes
  c2s_key :: bytes
  s2c_key :: bytes
  c2s_mac_key :: bytes
  s2c_mac_key :: bytes
  send_seq :: u32
  recv_seq :: u32
  c2s_counter :: bytes
  s2c_counter :: bytes
  pending_newkeys :: bytes

text \<open>An action on the environment as an action on the context that holds it.\<close>

definition ioM :: "'a io \<Rightarrow> ('z ssh_context_scheme, 'a) prog" where
  "ioM f c = (case f (io_user_data c) of (r, w) \<Rightarrow> (r, c\<lparr>io_user_data := w\<rparr>))"

subsection \<open>Client side\<close>

definition netnox_ssh_send_all :: "bytes \<Rightarrow> ('z ssh_context_scheme, unit) prog" where
  "netnox_ssh_send_all data =
     ifM (\<lambda>c. \<not> send_cb c) (throwM NETNOX_RETURN_BAD_PARAM) (ioM (send_loop no_guard data))"

definition netnox_ssh_recv_exact :: "u32 \<Rightarrow> u32 \<Rightarrow> ('z ssh_context_scheme, bytes) prog" where
  "netnox_ssh_recv_exact len room =
     ifM (\<lambda>c. \<not> recv_cb c) (throwM NETNOX_RETURN_BAD_PARAM)
       (ioM (recv_loop no_guard (unat len) (uint room) []))"

text \<open>
  The bytes of one line. \<open>n\<close> is the room left in front of the terminating NUL; a line that fills
  the buffer is read to its end and replaced by the empty one.
\<close>

function discard_line :: "world \<Rightarrow> unit res \<times> world" where
  "discard_line w =
     (case transport_recv 1 w of
        (None, w') \<Rightarrow> (Err NETNOX_RETURN_FAILED, w')
      | (Some ch, w') \<Rightarrow> if ch = [10] then (Ok (), w') else discard_line w')"
  by pat_completeness auto

lemma transport_recv_shrinks:
  "transport_recv n w = (Some d, w') \<Longrightarrow> 0 < n \<Longrightarrow>
     length (concat (rx w')) < length (concat (rx w)) \<and> length (rx w') \<le> length (rx w)"
  by (auto simp: transport_recv_def split: list.splits if_splits)

termination discard_line
  by (relation "measure (\<lambda>w. length (concat (rx w)))") (auto dest!: sym [of "(_, _)"] dest: transport_recv_shrinks)

function recv_line_loop :: "guard \<Rightarrow> nat \<Rightarrow> bytes \<Rightarrow> bytes io" where
  "recv_line_loop g n acc w =
     (if n = 0 then
        (case discard_line w of (Ok _, w') \<Rightarrow> (Ok [], w')
         | (Err e, w') \<Rightarrow> (Err e, w') | (Fault, w') \<Rightarrow> (Fault, w') | (Hang, w') \<Rightarrow> (Hang, w'))
      else case pass g w of (ok, w1) \<Rightarrow>
        if \<not> ok then (Err NETNOX_RETURN_FAILED, w1)
        else case transport_recv 1 w1 of
            (None, w') \<Rightarrow> (Err NETNOX_RETURN_FAILED, w')
          | (Some ch, w') \<Rightarrow>
              if ch = [10] then (Ok acc, w')
              else if ch = [13] then recv_line_loop g n acc w'
              else recv_line_loop g (n - 1) (acc @ ch) w')"
  by pat_completeness auto
termination
  by (relation "measure (\<lambda>(g, n, a, w). length (concat (rx w)))")
    (auto dest!: sym [of "(_, _)"] rx_pass transport_recv_shrinks)

declare discard_line.simps [simp del] recv_line_loop.simps [simp del]

definition netnox_ssh_recv_line :: "u16 \<Rightarrow> ('z ssh_context_scheme, bytes) prog" where
  "netnox_ssh_recv_line out_len =
     ifM (\<lambda>c. \<not> recv_cb c \<or> out_len = 0) (throwM NETNOX_RETURN_BAD_PARAM)
       (ioM (recv_line_loop no_guard (unat (out_len - 1)) []))"

definition netnox_ssh_is_ident_line :: "bytes \<Rightarrow> bool" where
  "netnox_ssh_is_ident_line line = (take 4 (cstr line) = ascii ''SSH-'')"

definition netnox_ssh_fill_random :: "u32 \<Rightarrow> bytes io" where
  "netnox_ssh_fill_random len w =
     (Ok (map (rand_byte w) [rand_pos w ..< rand_pos w + unat len]),
      w\<lparr>rand_pos := rand_pos w + unat len\<rparr>)"

definition netnox_ssh_copy_string :: "u16 \<Rightarrow> bytes \<Rightarrow> bytes res" where
  "netnox_ssh_copy_string dst_len src =
     (if dst_len = 0 then Err NETNOX_RETURN_BAD_PARAM
      else if length (cstr src) > unat (dst_len - 1) then Err NETNOX_RETURN_BAD_PARAM
      else Ok (cstr src))"

subsection \<open>Server side\<close>

text \<open>The check before each transfer; \<open>deadline\<close> is the one of the direction.\<close>

definition srv_in_time :: "u64 \<Rightarrow> bool \<Rightarrow> u64 \<Rightarrow> guard" where
  "srv_in_time deadline started handshake =
     Some (\<lambda>now. \<not> (now = -1 \<or> (deadline \<noteq> 0 \<and> now > deadline) \<or>
                    (\<not> started \<and> handshake \<noteq> 0 \<and> now > handshake)))"

fun getrandom_loop :: "nat \<Rightarrow> bytes \<Rightarrow> getrandom_t list \<Rightarrow> bytes res \<times> getrandom_t list" where
  "getrandom_loop len acc [] =
     (if len = 0 then Ok acc else Err NETNOX_RETURN_FAILED, [])"
| "getrandom_loop len acc (r # rs) =
     (if len = 0 then (Ok acc, r # rs)
      else case r of
          Eintr \<Rightarrow> getrandom_loop len acc rs
        | GetrandomFails \<Rightarrow> (Err NETNOX_RETURN_FAILED, rs)
        | Got b \<Rightarrow> if b = [] then (Err NETNOX_RETURN_FAILED, rs)
                   else getrandom_loop (len - length b) (acc @ take len b) rs)"

definition srv_fill_random :: "u32 \<Rightarrow> bytes io" where
  "srv_fill_random len w =
     (case getrandom_loop (unat len) [] (getrandom w) of (r, rs) \<Rightarrow> (r, w\<lparr>getrandom := rs\<rparr>))"

section \<open>Effects on the environment\<close>

text \<open>Input is only consumed from its front, output only extended at its end.\<close>

definition io_step :: "world \<Rightarrow> world \<Rightarrow> bool" where
  "io_step w w' \<longleftrightarrow> suffix (concat (rx w')) (concat (rx w)) \<and> prefix (tx w) (tx w') \<and>
     rand_byte w' = rand_byte w \<and> clock_ms w' = clock_ms w \<and>
     env_key_deriv_mpint w' = env_key_deriv_mpint w \<and> suffix (polls w') (polls w)"

definition ctx_step :: "'z ssh_context_scheme \<Rightarrow> 'z ssh_context_scheme \<Rightarrow> bool" where
  "ctx_step c c' \<longleftrightarrow> io_step (io_user_data c) (io_user_data c')"

lemma io_step_refl [simp]: "io_step w w"
  by (simp add: io_step_def)

lemma io_step_trans: "io_step u v \<Longrightarrow> io_step v w \<Longrightarrow> io_step u w"
  by (auto simp: io_step_def intro: suffix_order.trans prefix_order.trans)

interpretation io: step_rel io_step
  by unfold_locales (auto intro: io_step_trans)

interpretation ctx: step_rel ctx_step
  by unfold_locales (auto simp: ctx_step_def intro: io_step_trans)

lemma io_step_pass: "pass g w = (b, w') \<Longrightarrow> io_step w w'"
  by (auto simp: pass_def srv_now_ms_def io_step_def split: option.splits)

lemma io_step_send: "transport_send d w = (r, w') \<Longrightarrow> io_step w w'"
  by (auto simp: transport_send_def io_step_def split: list.splits if_splits)

lemma io_step_recv: "transport_recv n w = (r, w') \<Longrightarrow> io_step w w'"
  by (auto simp: transport_recv_def io_step_def suffix_def split: list.splits if_splits)
    (metis append_assoc append_take_drop_id)+

locale sending = step_rel R for R :: "world \<Rightarrow> world \<Rightarrow> bool" +
  assumes pass_rel: "pass g w = (b, w') \<Longrightarrow> R w w'"
    and transport_send_rel: "transport_send d w = (k, w') \<Longrightarrow> R w w'"
begin

lemma send_loop_rel: "always R (send_loop g d)"
proof (rule alwaysI)
  fix w r w'
  show "send_loop g d w = (r, w') \<Longrightarrow> R w w'"
    by (induction g d w rule: send_loop.induct, subst (asm) (2) send_loop.simps)
      (auto split: if_splits prod.splits option.splits
        intro: refl trans [OF pass_rel transport_send_rel] trans [OF pass_rel trans [OF transport_send_rel]] pass_rel)
qed

end

locale receiving = step_rel R for R :: "world \<Rightarrow> world \<Rightarrow> bool" +
  assumes pass_rel': "pass g w = (b, w') \<Longrightarrow> R w w'"
    and transport_recv_rel: "transport_recv n w = (k, w') \<Longrightarrow> R w w'"
begin

lemma recv_loop_rel: "always R (recv_loop g n room acc)"
proof (rule alwaysI)
  fix w r w'
  show "recv_loop g n room acc w = (r, w') \<Longrightarrow> R w w'"
    by (induction g n room acc w rule: recv_loop.induct, subst (asm) (2) recv_loop.simps)
      (auto split: if_splits prod.splits option.splits
        intro: refl trans [OF pass_rel' transport_recv_rel] trans [OF pass_rel' trans [OF transport_recv_rel]] pass_rel')
qed

lemma discard_line_rel: "always R discard_line"
proof (rule alwaysI)
  fix w r w'
  show "discard_line w = (r, w') \<Longrightarrow> R w w'"
    by (induction w rule: discard_line.induct, subst (asm) (2) discard_line.simps)
      (auto split: if_splits prod.splits option.splits intro: transport_recv_rel trans [OF transport_recv_rel])
qed

lemma recv_line_rel: "always R (recv_line_loop g n acc)"
proof (rule alwaysI)
  fix w r w'
  show "recv_line_loop g n acc w = (r, w') \<Longrightarrow> R w w'"
    by (induction g n acc w rule: recv_line_loop.induct, subst (asm) (3) recv_line_loop.simps)
      (auto split: if_splits prod.splits option.splits res.splits dest: alwaysD [OF discard_line_rel]
        intro: refl trans [OF pass_rel' transport_recv_rel] trans [OF pass_rel' trans [OF transport_recv_rel]] pass_rel')
qed

end

interpretation io_send: sending io_step
  by unfold_locales (auto intro: io_step_pass io_step_send)

interpretation io_recv: receiving io_step
  by unfold_locales (auto intro: io_step_pass io_step_recv)

lemmas always_send_loop = io_send.send_loop_rel
lemmas always_recv_loop = io_recv.recv_loop_rel

lemma always_ioM: "always io_step f \<Longrightarrow> always ctx_step (ioM f)"
  by (auto simp: always_def ioM_def ctx_step_def split: prod.splits) (metis snd_conv)

lemma always_send_all: "always ctx_step (netnox_ssh_send_all d)"
  unfolding netnox_ssh_send_all_def
  by (intro ctx.always_rules always_ioM always_send_loop)

lemma always_recv_exact: "always ctx_step (netnox_ssh_recv_exact n room)"
  unfolding netnox_ssh_recv_exact_def
  by (intro ctx.always_rules always_ioM always_recv_loop)

section \<open>Complete transfers\<close>

text \<open>The checks that are passed whatever the clock shows.\<close>

definition open_guard :: "guard \<Rightarrow> world \<Rightarrow> bool" where
  "open_guard g w = (case g of None \<Rightarrow> True | Some in_time \<Rightarrow> \<forall>i. in_time (clock_ms w i))"

lemma open_no_guard [simp]: "open_guard no_guard w"
  by (simp add: open_guard_def no_guard_def)

lemma open_guard_step: "open_guard g w \<Longrightarrow> io_step w w' \<Longrightarrow> open_guard g w'"
  by (auto simp: open_guard_def io_step_def split: option.splits)

lemma pass_open: "open_guard g w \<Longrightarrow> \<exists>w'. pass g w = (True, w') \<and> rx w' = rx w \<and> tx w' = tx w \<and>
    tx_accept w' = tx_accept w"
  by (auto simp: pass_def srv_now_ms_def open_guard_def split: option.splits)

lemma tx_pass: "pass g w = (b, w') \<Longrightarrow> tx w' = tx w"
  by (auto simp: pass_def srv_now_ms_def split: option.splits)

lemma transport_send_tx:
  "transport_send d w = (Some n, w') \<Longrightarrow> tx w' = tx w @ take n d \<and> n \<le> length d"
  by (auto simp: transport_send_def min_def split: list.splits if_splits)

lemma transport_send_fail: "transport_send d w = (None, w') \<Longrightarrow> tx w' = tx w"
  by (auto simp: transport_send_def split: list.splits if_splits)

lemma send_loop_Ok: "send_loop g d w = (Ok u, w') \<Longrightarrow> tx w' = tx w @ d"
proof (induction g d w rule: send_loop.induct)
  case (1 g d w)
  show ?case
  proof (cases "d = []")
    case True
    with 1 show ?thesis by (simp add: send_loop.simps)
  next
    case False
    from "1.prems" False obtain w1 n w2 where
      p: "pass g w = (True, w1)" and s: "transport_send d w1 = (Some n, w2)"
      and l: "send_loop g (drop n d) w2 = (Ok u, w')"
      by (subst (asm) send_loop.simps) (auto split: prod.splits if_splits option.splits)
    have "tx w' = tx w2 @ drop n d"
      using "1.IH" [OF False p [symmetric] _ s [symmetric] refl l] by simp
    then show ?thesis using transport_send_tx [OF s] tx_pass [OF p] by simp
  qed
qed

lemma send_loop_total: "fst (send_loop g d w) = Ok () \<or> fst (send_loop g d w) = Err NETNOX_RETURN_FAILED"
  by (induction g d w rule: send_loop.induct, subst send_loop.simps, subst (2) send_loop.simps)
    (auto split: prod.splits option.splits)

lemma send_loop_complete:
  "open_guard g w \<Longrightarrow> 0 \<notin> set (tx_accept w) \<Longrightarrow> fst (send_loop g d w) = Ok ()"
proof (induction g d w rule: send_loop.induct)
  case (1 g d w)
  show ?case
  proof (cases "d = []")
    case True
    then show ?thesis by (simp add: send_loop.simps)
  next
    case False
    obtain w1 where p: "pass g w = (True, w1)" "tx_accept w1 = tx_accept w"
      using pass_open [OF "1.prems"(1)] by blast
    obtain n w2 where s: "transport_send d w1 = (Some n, w2)" "0 \<notin> set (tx_accept w2)"
      using "1.prems"(2) p(2) by (fastforce simp: transport_send_def split: list.splits)
    have "open_guard g w2"
      using "1.prems"(1) io_step_pass [OF p(1)] io_step_send [OF s(1)]
      by (blast intro: open_guard_step)
    then have "fst (send_loop g (drop n d) w2) = Ok ()"
      using "1.IH" [OF False p(1) [symmetric] _ s(1) [symmetric] refl] s(2) by simp
    then show ?thesis using False p(1) s(1) by (subst send_loop.simps) simp
  qed
qed

lemma transport_recv_some:
  "transport_recv n w = (Some d, w') \<Longrightarrow> 0 < n \<Longrightarrow>
     concat (rx w) = d @ concat (rx w') \<and> d \<noteq> [] \<and> length d \<le> n \<and>
     ([] \<notin> set (rx w) \<longrightarrow> [] \<notin> set (rx w'))"
  by (auto simp: transport_recv_def split: list.splits if_splits)

lemma recv_loop_Ok:
  assumes "recv_loop g n room acc w = (Ok d, w')"
  shows "\<exists>x. d = acc @ x \<and> length x = n \<and> concat (rx w) = x @ concat (rx w') \<and>
    ([] \<notin> set (rx w) \<longrightarrow> [] \<notin> set (rx w'))"
  using assms
proof (induction g n room acc w rule: recv_loop.induct)
  case (1 g n room acc w)
  show ?case
  proof (cases "n = 0")
    case True
    with "1.prems" show ?thesis by (simp add: recv_loop.simps)
  next
    case False
    from "1.prems"(1) False obtain w1 got w2 where
      p: "pass g w = (True, w1)" and s: "transport_recv n w1 = (Some got, w2)"
      and r: "int (length got) \<le> room"
      and l: "recv_loop g (n - length got) (room - int (length got)) (acc @ got) w2 = (Ok d, w')"
      by (subst (asm) recv_loop.simps) (auto split: prod.splits if_splits option.splits)
    obtain x where x: "d = (acc @ got) @ x" "length x = n - length got"
      "concat (rx w2) = x @ concat (rx w')" "[] \<notin> set (rx w2) \<longrightarrow> [] \<notin> set (rx w')"
      using "1.IH" [OF False p [symmetric] _ s [symmetric] refl r l] by auto
    have "d = acc @ (got @ x)" "length (got @ x) = n" "concat (rx w) = (got @ x) @ concat (rx w')"
      using x transport_recv_some [OF s] rx_pass [OF p] False by auto
    moreover have "[] \<notin> set (rx w) \<longrightarrow> [] \<notin> set (rx w')"
      using x(4) transport_recv_some [OF s] rx_pass [OF p] False by auto
    ultimately show ?thesis by blast
  qed
qed

lemma recv_loop_no_fault:
  "int n \<le> room \<Longrightarrow> \<exists>d. fst (recv_loop g n room acc w) \<in> {Ok d, Err NETNOX_RETURN_FAILED}"
proof (induction g n room acc w rule: recv_loop.induct)
  case (1 g n room acc w)
  have "fst (recv_loop g n room acc w) = Err NETNOX_RETURN_FAILED \<or> n = 0 \<or>
    (\<exists>w1 got w2. pass g w = (True, w1) \<and> transport_recv n w1 = (Some got, w2) \<and> length got \<le> n)"
    by (subst recv_loop.simps)
      (auto split: prod.splits option.splits simp: transport_recv_some)
  then consider "fst (recv_loop g n room acc w) = Err NETNOX_RETURN_FAILED" | "n = 0"
    | w1 got w2 where "n \<noteq> 0" "pass g w = (True, w1)" "transport_recv n w1 = (Some got, w2)"
      "length got \<le> n" by blast
  then show ?case
  proof cases
    case 3
    then have "\<exists>d. fst (recv_loop g (n - length got) (room - int (length got)) (acc @ got) w2)
        \<in> {Ok d, Err NETNOX_RETURN_FAILED}"
      using "1.IH" [OF 3(1) 3(2) [symmetric] _ 3(3) [symmetric] refl] "1.prems" by simp
    then show ?thesis using 3 "1.prems" by (subst recv_loop.simps) simp
  qed (simp_all add: recv_loop.simps)
qed

lemma transport_recv_ready:
  "0 < n \<Longrightarrow> [] \<notin> set (rx w) \<Longrightarrow> rx w \<noteq> [] \<Longrightarrow> \<exists>d w'. transport_recv n w = (Some d, w')"
  by (cases "rx w") (auto simp: transport_recv_def)

lemma recv_loop_complete:
  assumes "open_guard g w" and "[] \<notin> set (rx w)" and "n \<le> length (concat (rx w))" and "int n \<le> room"
  shows "\<exists>d w'. recv_loop g n room acc w = (Ok d, w')"
  using assms
proof (induction g n room acc w rule: recv_loop.induct)
  case (1 g n room acc w)
  show ?case
  proof (cases "n = 0")
    case True
    then show ?thesis by (simp add: recv_loop.simps)
  next
    case False
    obtain w1 where p: "pass g w = (True, w1)" "rx w1 = rx w"
      using pass_open [OF "1.prems"(1)] by blast
    have "rx w1 \<noteq> []" using p(2) False "1.prems"(3) by auto
    then obtain got w2 where s: "transport_recv n w1 = (Some got, w2)"
      using transport_recv_ready [of n w1] False p(2) "1.prems"(2) by auto
    note got = transport_recv_some [OF s] p(2) False "1.prems"
    have "open_guard g w2"
      using "1.prems"(1) io_step_pass [OF p(1)] io_step_recv [OF s] by (blast intro: open_guard_step)
    then have "\<exists>d w'. recv_loop g (n - length got) (room - int (length got)) (acc @ got) w2 = (Ok d, w')"
      using got by (intro "1.IH" [OF False p(1) [symmetric] _ s [symmetric] refl]) auto
    then show ?thesis using False p(1) s got by (subst recv_loop.simps) auto
  qed
qed

lemma recv_loop_delivers:
  assumes "open_guard g w" and "[] \<notin> set (rx w)" and "concat (rx w) = x @ rest"
    and "int (length x) \<le> room"
  shows "\<exists>w'. recv_loop g (length x) room [] w = (Ok x, w') \<and> concat (rx w') = rest \<and>
    [] \<notin> set (rx w') \<and> open_guard g w'"
proof -
  have "length x \<le> length (concat (rx w))" using assms(3) by simp
  from recv_loop_complete [OF assms(1,2) this assms(4)]
  obtain y w' where run: "recv_loop g (length x) room [] w = (Ok y, w')" by blast
  from recv_loop_Ok [OF run] assms(2,3) have "y = x" "concat (rx w') = rest" "[] \<notin> set (rx w')"
    by auto
  moreover have "open_guard g w'"
    using assms(1) alwaysD [OF always_recv_loop run] by (rule open_guard_step)
  ultimately show ?thesis using run by blast
qed

lemma recv_loop_Ok_room: "recv_loop g n room acc w = (Ok d, w') \<Longrightarrow> 0 \<le> room \<Longrightarrow> int n \<le> room"
proof (induction g n room acc w rule: recv_loop.induct)
  case (1 g n room acc w)
  show ?case
  proof (cases "n = 0")
    case False
    from "1.prems"(1) False obtain w1 got w2 where
      p: "pass g w = (True, w1)" and s: "transport_recv n w1 = (Some got, w2)"
      and r: "int (length got) \<le> room"
      and l: "recv_loop g (n - length got) (room - int (length got)) (acc @ got) w2 = (Ok d, w')"
      by (subst (asm) recv_loop.simps) (auto split: prod.splits if_splits option.splits)
    have "int (n - length got) \<le> room - int (length got)"
      using "1.IH" [OF False p [symmetric] _ s [symmetric] refl r l] r by simp
    then show ?thesis using r by simp
  qed (use "1.prems" in simp)
qed

lemma recv_loop_fault:
  "recv_loop g n room acc w = (Fault, w') \<Longrightarrow> room < int n \<and> room < int (length (concat (rx w)))"
proof (induction g n room acc w rule: recv_loop.induct)
  case (1 g n room acc w)
  have n: "n \<noteq> 0" using "1.prems" by (cases "n = 0") (simp_all add: recv_loop.simps)
  from "1.prems" n obtain w1 got w2 where
    p: "pass g w = (True, w1)" and s: "transport_recv n w1 = (Some got, w2)"
    and l: "int (length got) \<le> room \<Longrightarrow>
      recv_loop g (n - length got) (room - int (length got)) (acc @ got) w2 = (Fault, w')"
    by (subst (asm) recv_loop.simps) (auto split: prod.splits if_splits option.splits)
  note got = transport_recv_some [OF s] rx_pass [OF p] n
  show ?case
  proof (cases "int (length got) \<le> room")
    case True
    then have "room - int (length got) < int (n - length got) \<and> room - int (length got) < int (length (concat (rx w2)))"
      using "1.IH" [OF n p [symmetric] _ s [symmetric] refl True l [OF True]] by simp
    then show ?thesis using got True by (auto simp: less_diff_conv2)
  qed (use got in auto)
qed

lemma recv_loop_overrun:
  assumes "open_guard g w" and "[] \<notin> set (rx w)" and "room < int n"
    and "room < int (length (concat (rx w)))" and "0 \<le> room"
  shows "fst (recv_loop g n room acc w) = Fault"
  using assms
proof (induction g n room acc w rule: recv_loop.induct)
  case (1 g n room acc w)
  have n: "n \<noteq> 0" using "1.prems"(3,5) by auto
  obtain w1 where p: "pass g w = (True, w1)" "rx w1 = rx w"
    using pass_open [OF "1.prems"(1)] by blast
  have "rx w1 \<noteq> []" using p(2) "1.prems"(4,5) by auto
  then obtain got w2 where s: "transport_recv n w1 = (Some got, w2)"
    using transport_recv_ready [of n w1] n p(2) "1.prems"(2) by auto
  note got = transport_recv_some [OF s] p(2) n "1.prems"
  have og: "open_guard g w2"
    using "1.prems"(1) io_step_pass [OF p(1)] io_step_recv [OF s] by (blast intro: open_guard_step)
  have ih: "fst (recv_loop g (n - length got) (room - int (length got)) (acc @ got) w2) = Fault"
    if "int (length got) \<le> room"
    using og got that by (intro "1.IH" [OF n p(1) [symmetric] _ s [symmetric] refl that]) auto
  then show ?case using n p(1) s by (subst recv_loop.simps) auto
qed

lemma recv_loop_no_hang: "fst (recv_loop g n room acc w) \<noteq> Hang"
  by (induction g n room acc w rule: recv_loop.induct, subst recv_loop.simps)
    (auto split: prod.splits option.splits)

text \<open>The same facts for a destination whose room is the 32-bit count the callers pass.\<close>

lemma recv_loop_delivers_u32:
  assumes "open_guard g w" and "[] \<notin> set (rx w)" and "concat (rx w) = x @ rest"
    and "length x = unat n" and "length x \<le> unat (room :: u32)"
  shows "\<exists>w'. recv_loop g (unat n) (uint room) [] w = (Ok x, w') \<and> concat (rx w') = rest \<and>
    [] \<notin> set (rx w') \<and> open_guard g w'"
  using recv_loop_delivers [of g w x rest "uint room"] assms unfolding int_le_u32 by simp

lemma recv_loop_fault_u32:
  "recv_loop g n (uint (room :: u32)) acc w = (Fault, w') \<Longrightarrow>
    unat room < n \<and> unat room < length (concat (rx w))"
  using recv_loop_fault [of g n "uint room" acc w w'] unfolding int_gt_u32 .

lemma recv_loop_overrun_u32:
  "recv_loop g n (uint (room :: u32)) acc w = (r, w') \<Longrightarrow> open_guard g w \<Longrightarrow> [] \<notin> set (rx w) \<Longrightarrow>
    unat room < n \<Longrightarrow> unat room < length (concat (rx w)) \<Longrightarrow> r = Fault"
  using recv_loop_overrun [of g w "uint room" n acc] unfolding int_gt_u32 by simp

lemma recv_loop_Ok_u32:
  "recv_loop g n (uint (room :: u32)) [] w = (Ok x, w') \<Longrightarrow>
    length x = n \<and> length x \<le> unat room \<and> concat (rx w) = x @ concat (rx w')"
  using recv_loop_Ok [of g n "uint room" "[]" w x w'] recv_loop_Ok_room [of g n "uint room" "[]" w x w']
  unfolding int_le_u32 by auto

lemma ioM_Ok [res_iff]:
  "ioM f c = (Ok a, c') \<longleftrightarrow> (\<exists>w. f (io_user_data c) = (Ok a, w) \<and> c' = c\<lparr>io_user_data := w\<rparr>)"
  by (auto simp: ioM_def split: prod.splits)

lemma fill_random_Ok:
  "netnox_ssh_fill_random n w = (Ok d, w') \<Longrightarrow> length d = unat n \<and> tx w' = tx w"
  by (auto simp: netnox_ssh_fill_random_def)

lemma getrandom_loop_Ok:
  "getrandom_loop n acc rs = (Ok d, rs') \<Longrightarrow> length d = length acc + n"
  by (induction n acc rs rule: getrandom_loop.induct)
    (auto split: if_splits getrandom_t.splits)

lemma srv_fill_random_Ok:
  "srv_fill_random n w = (Ok d, w') \<Longrightarrow> length d = unat n \<and> tx w' = tx w"
  by (auto simp: srv_fill_random_def split: prod.splits dest: getrandom_loop_Ok)

lemma always_fill_random: "always io_step (netnox_ssh_fill_random n)"
  by (simp add: always_def netnox_ssh_fill_random_def io_step_def)

lemma always_srv_fill_random: "always io_step (srv_fill_random n)"
  by (auto simp: always_def srv_fill_random_def io_step_def split: prod.splits)

lemma always_setM_ctx: "(\<And>c. io_user_data (f c) = io_user_data c) \<Longrightarrow> always ctx_step (setM f)"
  by (rule always_set) (simp add: ctx_step_def)

section \<open>What sending and receiving leave alone\<close>

definition os_same :: "world \<Rightarrow> world \<Rightarrow> bool" where
  "os_same w w' \<longleftrightarrow> polls w' = polls w \<and> children w' = children w \<and> spawned w' = spawned w \<and>
     child_input w' = child_input w"

definition only_sends :: "world \<Rightarrow> world \<Rightarrow> bool" where
  "only_sends w w' \<longleftrightarrow> rx w' = rx w \<and> clock_ms w' = clock_ms w \<and> keygen_pos w' = keygen_pos w \<and>
     env_key_deriv_mpint w' = env_key_deriv_mpint w \<and> os_same w w'"

definition only_recvs :: "world \<Rightarrow> world \<Rightarrow> bool" where
  "only_recvs w w' \<longleftrightarrow> tx w' = tx w \<and> clock_ms w' = clock_ms w \<and> keygen_pos w' = keygen_pos w \<and>
     env_key_deriv_mpint w' = env_key_deriv_mpint w \<and> rand_pos w' = rand_pos w \<and> getrandom w' = getrandom w \<and>
     tx_accept w' = tx_accept w \<and> rand_byte w' = rand_byte w \<and> os_same w w'"

lemma only_sends_refl [simp]: "only_sends w w"
  by (simp add: only_sends_def os_same_def)

lemma only_recvs_refl [simp]: "only_recvs w w"
  by (simp add: only_recvs_def os_same_def)

interpretation os: sending only_sends
  by unfold_locales (auto simp: only_sends_def os_same_def pass_def srv_now_ms_def transport_send_def
      split: option.splits list.splits if_splits)

interpretation orv: receiving only_recvs
  by unfold_locales (auto simp: only_recvs_def os_same_def pass_def srv_now_ms_def transport_recv_def
      split: option.splits list.splits if_splits)

lemma always_ioM_rel:
  "always R f \<Longrightarrow> (\<And>c w. R (io_user_data c) w \<Longrightarrow> Q c (c\<lparr>io_user_data := w\<rparr>)) \<Longrightarrow> always Q (ioM f)"
  unfolding always_def ioM_def case_prod_beta by simp

lemma sends_random: "always only_sends (netnox_ssh_fill_random n)" "always only_sends (srv_fill_random n)"
  by (auto simp: always_def netnox_ssh_fill_random_def srv_fill_random_def only_sends_def os_same_def split: prod.splits)

lemma send_loop_Hang: "fst (send_loop g d w) \<noteq> Hang"
  by (induction g d w rule: send_loop.induct, subst send_loop.simps) (auto split: prod.splits option.splits)

end
