(* ===== verification/Nox_Packet.thy ===== *)
theory Nox_Packet
  imports Nox_Transport
begin

text \<open>
  The binary packet protocol of both endpoints: \<open>netnox_ssh_send_packet\<close> and \<open>netnox_ssh_recv_packet\<close>
  of \<open>common/noxssh_common.c\<close>, \<open>srv_send_packet\<close> and \<open>srv_recv_packet\<close> of \<open>common/noxssh_server.c\<close>, over
  the two context structures. What the two endpoints do alike (padding, framing, encrypting and
  authenticating in one direction) is defined once, with the direction as an argument.
\<close>

section \<open>Definitions\<close>

subsection \<open>The context structures of the endpoints\<close>

record netnox_ssh_client_t = ssh_context +
  itf :: nat
  username :: bytes
  host :: bytes
  password :: bytes
  ed25519_private_key :: bytes
  ed25519_public_key :: bytes
  has_ed25519_key :: bool
  port :: u16
  server_host_key_blob :: bytes
  server_host_key_fingerprint :: bytes
  server_host_key_ready :: bool
  remote_exit_status_valid :: bool
  remote_exit_status :: u32

text \<open>\<open>publickey_allowed_cb\<close> is the callback applied to its \<open>user_data\<close>.\<close>

record netnox_ssh_server_t = ssh_context +
  transport_fd :: int
  host_ed25519_sk :: bytes
  host_ed25519_pk :: bytes
  host_key_ready :: bool
  publickey_allowed_cb :: "(bytes \<Rightarrow> bytes \<Rightarrow> bool) option"
  authenticated_user :: bytes
  auth_attempts :: byte
  session_started :: bool
  handshake_deadline_ms :: u64
  packet_deadline_ms :: u64
  send_deadline_ms :: u64
  want_pty :: bool
  pty_term :: bytes
  pty_cols :: u32
  pty_rows :: u32
  pty_width :: u32
  pty_height :: u32
  encrypted_bytes_sent :: u64
  encrypted_bytes_recv :: u64
  rekey_threshold_bytes :: u64

text \<open>\<open>memset(ctx, 0, sizeof(*ctx))\<close>: without callbacks there is nothing behind them.\<close>

definition no_world :: world where
  "no_world = \<lparr>rx = [], tx = [], tx_accept = [], rand_byte = (\<lambda>_. 0), rand_pos = 0, getrandom = [],
     clock_ms = (\<lambda>_. 0), clock_pos = 0, keygen_pos = 0, env_key_deriv_mpint = True,
     polls = [], children = [], spawned = [], child_input = []\<rparr>"

definition zero_context :: ssh_context where
  "zero_context = \<lparr>send_cb = False, recv_cb = False, io_user_data = no_world, client_ident = [],
     server_ident = [], connected = False, kexinit_exchanged = False, userauth_service_ready = False,
     connection_service_ready = False, authenticated = False, channel_open = False,
     key_exchange_complete = False, local_channel_id = 0, remote_channel_id = 0,
     local_window_size = 0, remote_window_size = 0, remote_max_packet_size = 0,
     kexinit_client_payload = [], kexinit_server_payload = [], session_id = replicate 32 0,
     session_id_len = 0,
     shared_secret_raw = replicate 32 0, c2s_iv = replicate 16 0, s2c_iv = replicate 16 0,
     c2s_key = replicate 16 0, s2c_key = replicate 16 0, c2s_mac_key = replicate 32 0,
     s2c_mac_key = replicate 32 0, send_seq = 0, recv_seq = 0, c2s_counter = replicate 16 0,
     s2c_counter = replicate 16 0, pending_newkeys = []\<rparr>"

definition zero_client :: netnox_ssh_client_t where
  "zero_client = ssh_context.extend zero_context (netnox_ssh_client_t.fields
     0 [] [] [] (replicate 32 0) (replicate 32 0) False 0 [] (replicate 32 0) False False 0)"

definition zero_server :: netnox_ssh_server_t where
  "zero_server = ssh_context.extend zero_context (netnox_ssh_server_t.fields
     0 (replicate 32 0) (replicate 32 0) False None [] 0 False 0 0 0 False [] 0 0 0 0 0 0 0)"

definition netnox_ssh_client_init :: "nat \<Rightarrow> u16 \<Rightarrow> (netnox_ssh_client_t, unit) prog" where
  "netnox_ssh_client_init itf_ptr port_no =
     bindM (setM (\<lambda>_. zero_client\<lparr>itf := itf_ptr, port := if port_no = 0 then 22 else port_no\<rparr>)) (\<lambda>_.
     bindM (liftM (netnox_ssh_copy_string 256 (ascii ''SSH-2.0-noxssh_0.1''))) (\<lambda>ident.
     setM (\<lambda>c. c\<lparr>client_ident := ident\<rparr>)))"

definition netnox_ssh_server_init :: "(netnox_ssh_server_t, unit) prog" where
  "netnox_ssh_server_init =
     bindM (setM (\<lambda>_. zero_server\<lparr>transport_fd := -1,
                              rekey_threshold_bytes := 256 * 1024 * 1024\<rparr>)) (\<lambda>_.
     bindM (liftM (netnox_ssh_copy_string 256 (ascii ''SSH-2.0-noxsshd_0.1''))) (\<lambda>ident.
     setM (\<lambda>s. s\<lparr>server_ident := ident\<rparr>)))"

definition set_io_callbacks :: "bool \<Rightarrow> bool \<Rightarrow> world \<Rightarrow> ('z ssh_context_scheme, unit) prog" where
  "set_io_callbacks snd_cb rcv_cb user_data =
     setM (\<lambda>c. c\<lparr>send_cb := snd_cb, recv_cb := rcv_cb, io_user_data := user_data\<rparr>)"

definition srv_send_all :: "bytes \<Rightarrow> (netnox_ssh_server_t, unit) prog" where
  "srv_send_all data =
     ifM (\<lambda>s. \<not> send_cb s) (throwM NETNOX_RETURN_BAD_PARAM)
       (\<lambda>s. ioM (send_loop (srv_in_time (send_deadline_ms s) (session_started s)
                              (handshake_deadline_ms s)) data) s)"

definition srv_recv_exact :: "u32 \<Rightarrow> u32 \<Rightarrow> (netnox_ssh_server_t, bytes) prog" where
  "srv_recv_exact len room =
     ifM (\<lambda>s. \<not> recv_cb s) (throwM NETNOX_RETURN_BAD_PARAM)
       (\<lambda>s. ioM (recv_loop (srv_in_time (packet_deadline_ms s) (session_started s)
                              (handshake_deadline_ms s)) (unat len) (uint room) []) s)"

definition srv_recv_line :: "u16 \<Rightarrow> (netnox_ssh_server_t, bytes) prog" where
  "srv_recv_line out_len =
     ifM (\<lambda>s. \<not> recv_cb s \<or> out_len = 0) (throwM NETNOX_RETURN_BAD_PARAM)
       (\<lambda>s. ioM (recv_line_loop (Some (\<lambda>now. \<not> now > handshake_deadline_ms s))
                   (unat (out_len - 1)) []) s)"

subsection \<open>Framing\<close>

text \<open>\<open>while(((1u + payload_len + padding_len + 4u) % block_size) != 0u) padding_len++;\<close>\<close>

function pad_loop :: "u32 \<Rightarrow> u32 \<Rightarrow> u32 \<Rightarrow> u32" where
  "pad_loop payload_len block_size padding_len =
     (if (1 + payload_len + padding_len + 4) mod block_size \<noteq> 0
      then pad_loop payload_len block_size (padding_len + 1) else padding_len)"
  by pat_completeness auto

termination
proof (relation "measure (\<lambda>(n, b, p). unat (- (1 + n + p + 4)))", goal_cases)
  case (2 n b p)
  then have "1 + n + p + 4 \<noteq> 0" by auto
  from minus_plus_one_less [OF this] show ?case by (simp add: algebra_simps)
qed simp

declare pad_loop.simps [simp del]

definition packet_block_size :: "'z ssh_context_scheme \<Rightarrow> u32" where
  "packet_block_size c = (if key_exchange_complete c then 16 else 8)"

text \<open>\<open>plain\<close> up to the padding, and the number of padding bytes to come.\<close>

definition frame_packet :: "bytes \<Rightarrow> u32 \<Rightarrow> (bytes \<times> u32) res" where
  "frame_packet payload block_size =
     (let padding_len = pad_loop (u32len payload) block_size 4;
          packet_len = 1 + u32len payload + padding_len
      in if packet_len > 35000 then Err NETNOX_RETURN_BAD_PARAM
         else bindR (store (netnox_ssh_write_u32_be packet_len @ [ucast padding_len]) 35004 payload)
                (\<lambda>plain. Ok (plain, padding_len)))"

text \<open>\<open>packet\<close> is what follows the length field.\<close>

definition packet_payload :: "u32 \<Rightarrow> bytes \<Rightarrow> u32 \<Rightarrow> bytes res" where
  "packet_payload packet_len packet payload_max =
     bindR (fetch1 packet 0) (\<lambda>padding_len.
       if padding_len < 4 then Err NETNOX_RETURN_FAILED
       else if ucast padding_len \<ge> packet_len then Err NETNOX_RETURN_FAILED
       else let payload_len = packet_len - 1 - ucast padding_len in
         if payload_len > payload_max then Err NETNOX_RETURN_FAILED
         else fetch (drop 1 packet) (unat payload_len))"

subsection \<open>One direction of the encrypted transport\<close>

record 'z direction =
  dir_key :: "'z ssh_context_scheme \<Rightarrow> bytes"
  dir_mac_key :: "'z ssh_context_scheme \<Rightarrow> bytes"
  dir_counter :: "'z ssh_context_scheme \<Rightarrow> bytes"
  dir_set_counter :: "(bytes \<Rightarrow> bytes) \<Rightarrow> 'z ssh_context_scheme \<Rightarrow> 'z ssh_context_scheme"

definition c2s :: "'z direction" where
  "c2s = \<lparr>dir_key = c2s_key, dir_mac_key = c2s_mac_key, dir_counter = c2s_counter,
          dir_set_counter = c2s_counter_update\<rparr>"

definition s2c :: "'z direction" where
  "s2c = \<lparr>dir_key = s2c_key, dir_mac_key = s2c_mac_key, dir_counter = s2c_counter,
          dir_set_counter = s2c_counter_update\<rparr>"

definition aesM ::
  "noxtls \<Rightarrow> 'z direction \<Rightarrow> bytes \<Rightarrow> ('z ssh_context_scheme, bytes) prog" where
  "aesM C d data c =
     (case noxtls_aes_encrypt_ctr C (dir_key d c) data (dir_counter d c) of
        None \<Rightarrow> (Err NETNOX_RETURN_FAILED, c)
      | Some e \<Rightarrow> (Ok e, c))"

definition advanceM :: "'z direction \<Rightarrow> u32 \<Rightarrow> ('z ssh_context_scheme, unit) prog" where
  "advanceM d n = setM (dir_set_counter d (\<lambda>ctr. netnox_ssh_ctr_increment_blocks ctr n))"

definition macM ::
  "noxtls \<Rightarrow> 'z direction \<Rightarrow> u32 \<Rightarrow> bytes \<Rightarrow> ('z ssh_context_scheme, bytes) prog" where
  "macM C d seqno plain c =
     (recode NETNOX_RETURN_FAILED
        (netnox_ssh_hmac_sha256 C (dir_mac_key d c) (netnox_ssh_write_u32_be seqno @ plain)), c)"

text \<open>MAC over sequence number and plain packet, encryption, counter advanced by the blocks used.\<close>

definition seal_packet ::
  "noxtls \<Rightarrow> 'z direction \<Rightarrow> bytes \<Rightarrow> ('z ssh_context_scheme, bytes \<times> bytes) prog" where
  "seal_packet C d plain =
     bindM (getM send_seq) (\<lambda>seqno.
     bindM (macM C d seqno plain) (\<lambda>mac.
     bindM (aesM C d plain) (\<lambda>enc.
     bindM (advanceM d ((u32len plain + 16 - 1) div 16)) (\<lambda>_.
     retM (enc, mac)))))"

text \<open>
  The encrypted branch of the two receive functions up to the check of the MAC. \<open>rcv\<close> is the
  endpoint's \<open>recv_exact\<close>, given the room in the destination; \<open>eq\<close> its comparison of MACs.
\<close>

definition open_first_block ::
  "noxtls \<Rightarrow> 'z direction \<Rightarrow> (u32 \<Rightarrow> u32 \<Rightarrow> ('z ssh_context_scheme, bytes) prog) \<Rightarrow>
   ('z ssh_context_scheme, u32 \<times> bytes) prog" where
  "open_first_block C d rcv =
     bindM (checkedM NETNOX_RETURN_FAILED (rcv 16 35004)) (\<lambda>enc0.
     bindM (aesM C d enc0) (\<lambda>plain0.
     bindM (advanceM d 1) (\<lambda>_.
     bindM (liftM (netnox_ssh_read_u32_be plain0)) (\<lambda>packet_len.
     bindM (failM (packet_len < 1 + 4 \<or> packet_len > 35000) NETNOX_RETURN_FAILED) (\<lambda>_.
     retM (packet_len, plain0))))))"

definition open_other_blocks ::
  "noxtls \<Rightarrow> 'z direction \<Rightarrow> (u32 \<Rightarrow> u32 \<Rightarrow> ('z ssh_context_scheme, bytes) prog) \<Rightarrow>
   (bytes \<Rightarrow> bytes \<Rightarrow> bool) \<Rightarrow> u32 \<Rightarrow> bytes \<Rightarrow> ('z ssh_context_scheme, bytes) prog" where
  "open_other_blocks C d rcv eq packet_len plain0 =
     (let plain_len = 4 + packet_len in
     bindM (checkedM NETNOX_RETURN_FAILED (rcv (plain_len - 16) (35004 - 16))) (\<lambda>enc1.
     bindM (aesM C d enc1) (\<lambda>plain1.
     bindM (advanceM d ((plain_len + 16 - 1) div 16 - 1)) (\<lambda>_.
     bindM (checkedM NETNOX_RETURN_FAILED (rcv 32 32)) (\<lambda>mac_buf.
     bindM (liftM (fetch (plain0 @ plain1) (unat plain_len))) (\<lambda>plain.
     bindM (getM recv_seq) (\<lambda>seqno.
     bindM (macM C d seqno plain) (\<lambda>mac.
     bindM (failM (\<not> eq mac mac_buf) NETNOX_RETURN_FAILED) (\<lambda>_.
     bindM (setM (\<lambda>c. c\<lparr>recv_seq := recv_seq c + 1\<rparr>)) (\<lambda>_.
     retM plain))))))))))"

definition open_packet ::
  "noxtls \<Rightarrow> 'z direction \<Rightarrow> (u32 \<Rightarrow> u32 \<Rightarrow> ('z ssh_context_scheme, bytes) prog) \<Rightarrow>
   (bytes \<Rightarrow> bytes \<Rightarrow> bool) \<Rightarrow> ('z ssh_context_scheme, u32 \<times> bytes) prog" where
  "open_packet C d rcv eq =
     bindM (open_first_block C d rcv) (\<lambda>(packet_len, plain0).
     bindM (open_other_blocks C d rcv eq packet_len plain0) (\<lambda>plain.
     retM (packet_len, plain)))"

text \<open>The branch of the receive functions before the keys are in place.\<close>

definition recv_plain_packet ::
  "(u32 \<Rightarrow> u32 \<Rightarrow> ('z ssh_context_scheme, bytes) prog) \<Rightarrow> u32 \<Rightarrow>
   ('z ssh_context_scheme, bytes) prog" where
  "recv_plain_packet rcv payload_max =
     bindM (checkedM NETNOX_RETURN_FAILED (rcv 4 4)) (\<lambda>len_buf.
     bindM (liftM (netnox_ssh_read_u32_be len_buf)) (\<lambda>packet_len.
     bindM (failM (packet_len < 1 + 4 \<or> packet_len > 35000) NETNOX_RETURN_FAILED) (\<lambda>_.
     bindM (checkedM NETNOX_RETURN_FAILED (rcv packet_len 35000)) (\<lambda>packet.
     bindM (liftM (packet_payload packet_len packet payload_max)) (\<lambda>payload.
     bindM (setM (\<lambda>c. c\<lparr>recv_seq := recv_seq c + 1\<rparr>)) (\<lambda>_.
     retM payload))))))"

subsection \<open>The client\<close>

text \<open>
  The encrypted packet and any pending NEWKEYS packet leave in one write when they fit into 128
  bytes, otherwise in two or three.
\<close>

definition send_sealed :: "bytes \<Rightarrow> bytes \<Rightarrow> ('z ssh_context_scheme, unit) prog" where
  "send_sealed enc mac =
     bindM (getM pending_newkeys) (\<lambda>pending.
     let enc_mac_len = u32len enc + 32; total = u32len pending + enc_mac_len in
     if total > 0 \<and> total \<le> 128 then
       bindM (setM (\<lambda>c. c\<lparr>pending_newkeys := []\<rparr>)) (\<lambda>_.
       checkedM NETNOX_RETURN_FAILED (netnox_ssh_send_all (pending @ enc @ mac)))
     else
       bindM (if u32len pending > 0
              then bindM (checkedM NETNOX_RETURN_FAILED (netnox_ssh_send_all pending)) (\<lambda>_.
                   setM (\<lambda>c. c\<lparr>pending_newkeys := []\<rparr>))
              else retM ()) (\<lambda>_.
       if enc_mac_len \<le> 128
       then checkedM NETNOX_RETURN_FAILED (netnox_ssh_send_all (enc @ mac))
       else bindM (checkedM NETNOX_RETURN_FAILED (netnox_ssh_send_all enc)) (\<lambda>_.
            checkedM NETNOX_RETURN_FAILED (netnox_ssh_send_all mac))))"

definition count_sent :: "('z ssh_context_scheme, unit) prog" where
  "count_sent = setM (\<lambda>c. c\<lparr>send_seq := send_seq c + 1\<rparr>)"

text \<open>The two unencrypted branches of the code (NEWKEYS and the rest) are the same calls.\<close>

definition netnox_ssh_send_packet :: "noxtls \<Rightarrow> bytes \<Rightarrow> (netnox_ssh_client_t, unit) prog" where
  "netnox_ssh_send_packet C payload =
     bindM (failM (u32len payload = 0) NETNOX_RETURN_BAD_PARAM) (\<lambda>_.
     bindM (getM packet_block_size) (\<lambda>block_size.
     bindM (liftM (frame_packet payload block_size)) (\<lambda>(framed, padding_len).
     bindM (ioM (netnox_ssh_fill_random padding_len)) (\<lambda>padding.
     let plain = framed @ padding in
     ifM key_exchange_complete
       (bindM (seal_packet C c2s plain) (\<lambda>(enc, mac).
        bindM (send_sealed enc mac) (\<lambda>_. count_sent)))
       (bindM (netnox_ssh_send_all plain) (\<lambda>_. count_sent))))))"

definition netnox_ssh_recv_packet :: "noxtls \<Rightarrow> u32 \<Rightarrow> (netnox_ssh_client_t, bytes) prog" where
  "netnox_ssh_recv_packet C payload_max =
     ifM key_exchange_complete
       (bindM (open_packet C s2c netnox_ssh_recv_exact (\<lambda>a b. take 32 a = take 32 b))
          (\<lambda>(packet_len, plain). liftM (packet_payload packet_len (drop 4 plain) payload_max)))
       (recv_plain_packet netnox_ssh_recv_exact payload_max)"

subsection \<open>The server\<close>

definition srv_nowM :: "(netnox_ssh_server_t, u64) prog" where
  "srv_nowM = ioM (\<lambda>w. case srv_now_ms w of (now, w') \<Rightarrow> (Ok now, w'))"

definition srv_send_packet :: "noxtls \<Rightarrow> bytes \<Rightarrow> (netnox_ssh_server_t, unit) prog" where
  "srv_send_packet C payload =
     bindM (failM (u32len payload = 0) NETNOX_RETURN_BAD_PARAM) (\<lambda>_.
     bindM srv_nowM (\<lambda>now.
     bindM (setM (\<lambda>s. s\<lparr>send_deadline_ms := now + 10000\<rparr>)) (\<lambda>_.
     bindM (getM packet_block_size) (\<lambda>block_size.
     bindM (liftM (frame_packet payload block_size)) (\<lambda>(framed, padding_len).
     bindM (checkedM NETNOX_RETURN_FAILED (ioM (srv_fill_random padding_len))) (\<lambda>padding.
     let plain = framed @ padding in
     ifM key_exchange_complete
       (bindM (seal_packet C s2c plain) (\<lambda>(enc, mac).
        bindM (checkedM NETNOX_RETURN_FAILED (srv_send_all enc)) (\<lambda>_.
        bindM (checkedM NETNOX_RETURN_FAILED (srv_send_all mac)) (\<lambda>_.
        bindM count_sent (\<lambda>_.
        setM (\<lambda>s. s\<lparr>encrypted_bytes_sent :=
               encrypted_bytes_sent s + ucast (u32len plain + 32)\<rparr>))))))
       (bindM (srv_send_all plain) (\<lambda>_. count_sent))))))))"

text \<open>What follows the reading of the clock.\<close>

definition srv_recv_body :: "noxtls \<Rightarrow> u32 \<Rightarrow> (netnox_ssh_server_t, bytes) prog" where
  "srv_recv_body C payload_max =
     ifM key_exchange_complete
       (bindM (open_packet C c2s srv_recv_exact (\<lambda>a b. srv_equal_mac a b 32))
          (\<lambda>(packet_len, plain).
        bindM (setM (\<lambda>s. s\<lparr>encrypted_bytes_recv :=
                 encrypted_bytes_recv s + ucast (4 + packet_len + 32)\<rparr>)) (\<lambda>_.
        liftM (packet_payload packet_len (drop 4 plain) payload_max))))
       (recv_plain_packet srv_recv_exact payload_max)"

definition srv_recv_packet :: "noxtls \<Rightarrow> u32 \<Rightarrow> (netnox_ssh_server_t, bytes) prog" where
  "srv_recv_packet C payload_max =
     bindM srv_nowM (\<lambda>now.
     bindM (setM (\<lambda>s. s\<lparr>packet_deadline_ms := now + 10000\<rparr>)) (\<lambda>_.
     srv_recv_body C payload_max))"

section \<open>Padding and framing\<close>

lemma pad_loop_steps:
  assumes "unat n + unat p + 5 + k < 2 ^ 32" and "0 < unat b"
    and "(unat n + unat p + 5 + k) mod unat b = 0"
    and "\<And>j. j < k \<Longrightarrow> (unat n + unat p + 5 + j) mod unat b \<noteq> 0"
  shows "pad_loop n b p = p + word_of_nat k"
  using assms
proof (induction k arbitrary: p)
  case 0
  have "unat (1 + n + p + 4) = unat n + unat p + 5"
    using 0(1) by (simp add: unat_word_ariths)
  then have "unat ((1 + n + p + 4) mod b) = 0"
    using 0(3) by (simp add: unat_mod)
  then show ?case by (subst pad_loop.simps) (simp add: unat_eq_zero)
next
  case (Suc k)
  have "unat (1 + n + p + 4) = unat n + unat p + 5"
    using Suc.prems(1) by (simp add: unat_word_ariths)
  then have "unat ((1 + n + p + 4) mod b) \<noteq> 0"
    using Suc.prems(4) [of 0] by (simp add: unat_mod)
  then have "(1 + n + p + 4) mod b \<noteq> 0" by (metis unat_0)
  then have step: "pad_loop n b p = pad_loop n b (p + 1)"
    using pad_loop.simps [of n b p] by (simp only: if_True not_False_eq_True)
  have p1: "unat (p + 1) = unat p + 1"
    using Suc.prems(1) by (simp add: unat_word_ariths)
  have shift: "unat n + unat (p + 1) + 5 + j = unat n + unat p + 5 + Suc j" for j
    by (simp add: p1)
  have "pad_loop n b (p + 1) = p + 1 + word_of_nat k"
    using Suc.prems by (intro Suc.IH) (simp_all only: shift Suc_less_eq not_False_eq_True)
  then show ?case using step by simp
qed

lemma next_multiple:
  assumes "0 < (b :: nat)"
  obtains k where "k < b" and "(m + k) mod b = 0" and "\<And>j. j < k \<Longrightarrow> (m + j) mod b \<noteq> 0"
proof -
  define k where "k = (LEAST k. (m + k) mod b = 0)"
  have "(m + (b - 1) * m) mod b = (b * m) mod b"
    using assms by (cases b) simp_all
  then have P: "(m + k) mod b = 0"
    unfolding k_def by (intro LeastI [of "\<lambda>k. (m + k) mod b = 0"]) simp
  have least: "(m + j) mod b \<noteq> 0" if "j < k" for j
    using that unfolding k_def by (rule not_less_Least)
  have "(m + k mod b) mod b = 0" using P by (simp only: mod_add_right_eq)
  then have "k \<le> k mod b" using least [of "k mod b"] by (cases "k mod b < k") simp_all
  then have "k < b" using mod_less_divisor [OF assms, of k] by (rule le_less_trans)
  then show ?thesis using P least by (rule that)
qed

lemma pad_loop_bounds:
  assumes "n < 2 ^ 31" and "b \<in> {8, 16}"
  obtains p where "unat (pad_loop (word_of_nat n) b 4) = p" and "4 \<le> p" and "p < 4 + unat b"
    and "(5 + n + p) mod unat b = 0" and "\<And>q. 4 \<le> q \<Longrightarrow> q < p \<Longrightarrow> (5 + n + q) mod unat b \<noteq> 0"
proof -
  have n: "unat (word_of_nat n :: u32) = n" using assms(1) by (simp add: unat_of_nat)
  have b: "0 < unat b" "unat b \<le> 16" using assms(2) by auto
  obtain k where k: "k < unat b" "(n + 4 + 5 + k) mod unat b = 0"
    "\<And>j. j < k \<Longrightarrow> (n + 4 + 5 + j) mod unat b \<noteq> 0"
    using next_multiple [OF b(1)] by metis
  have "pad_loop (word_of_nat n) b 4 = 4 + word_of_nat k"
    using k b assms(1) by (intro pad_loop_steps) (auto simp: n)
  moreover have "unat (4 + word_of_nat k :: u32) = 4 + k"
    using k(1) b by (simp add: unat_word_ariths unat_of_nat)
  moreover have "(5 + n + q) mod unat b \<noteq> 0" if "4 \<le> q" "q < 4 + k" for q
    using k(3) [of "q - 4"] that by (simp add: ac_simps)
  ultimately show ?thesis using k by (intro that [of "4 + k"]) (auto simp: ac_simps)
qed

lemma frame_packet_cases:
  assumes "length payload < 2 ^ 31" and "b \<in> {8, 16}"
  obtains p where "4 \<le> p" and "p < 4 + unat b" and "(5 + length payload + p) mod unat b = 0"
    and "frame_packet payload b =
      (if 1 + length payload + p \<le> 35000
       then Ok (netnox_ssh_write_u32_be (word_of_nat (1 + length payload + p)) @
                word_of_nat p # payload, word_of_nat p)
       else Err NETNOX_RETURN_BAD_PARAM)"
proof -
  let ?n = "length payload"
  obtain p where p: "unat (pad_loop (word_of_nat ?n) b 4) = p" "4 \<le> p" "p < 4 + unat b"
    "(5 + ?n + p) mod unat b = 0"
    using pad_loop_bounds [OF assms] by metis
  have p256: "p < 256" using p(3) assms(2) by auto
  have pw: "pad_loop (u32len payload) b 4 = word_of_nat p"
    using p(1) by (auto simp: u32len_def)
  have pu: "unat (word_of_nat p :: u32) = p" using p256 by (simp add: unat_of_nat)
  have len: "1 + u32len payload + word_of_nat p = (word_of_nat (1 + ?n + p) :: u32)"
    by (simp add: u32len_def)
  have lenu: "unat (word_of_nat (1 + ?n + p) :: u32) = 1 + ?n + p"
    using assms(1) p256 by (simp add: unat_of_nat del: of_nat_add of_nat_Suc)
  have byte: "ucast (word_of_nat p :: u32) = (word_of_nat p :: byte)"
    using p256 by (simp add: word_unat_eq_iff unsigned_ucast_eq take_bit_eq_mod unat_of_nat)
  have "frame_packet payload b =
      (if 1 + ?n + p \<le> 35000
       then Ok (netnox_ssh_write_u32_be (word_of_nat (1 + ?n + p)) @
                word_of_nat p # payload, word_of_nat p)
       else Err NETNOX_RETURN_BAD_PARAM)"
    unfolding frame_packet_def pw Let_def len u32_less_iff lenu
    by (simp add: store_eq byte not_less del: of_nat_add of_nat_Suc)
  with p show ?thesis by (intro that)
qed

lemma packet_payload_framed:
  assumes "4 \<le> p" and "p < 256" and "1 + length payload + p \<le> 35000" and "length pad = p"
  shows "packet_payload (word_of_nat (1 + length payload + p)) (word_of_nat p # payload @ pad) m =
    (if length payload \<le> unat m then Ok payload else Err NETNOX_RETURN_FAILED)"
proof -
  define len :: u32 where "len = word_of_nat (1 + length payload + p)"
  have len: "unat len = 1 + length payload + p"
    using assms by (simp add: len_def unat_of_nat del: of_nat_add of_nat_Suc)
  have b: "unat (word_of_nat p :: byte) = p" using assms by (simp add: unat_of_nat)
  have pu: "unat (word_of_nat p :: u32) = p" using assms by (simp add: unat_of_nat)
  have u: "ucast (word_of_nat p :: byte) = (word_of_nat p :: u32)"
    using assms(2) by (simp add: word_unat_eq_iff unsigned_ucast_eq take_bit_eq_mod unat_of_nat)
  have n: "len - 1 - word_of_nat p = word_of_nat (length payload)" by (simp add: len_def)
  have nu: "unat (word_of_nat (length payload) :: u32) = length payload"
    using assms by (simp add: unat_of_nat)
  have "\<not> (word_of_nat p :: byte) < 4" using assms b by (simp add: word_less_nat_alt)
  moreover have "\<not> len \<le> word_of_nat p" unfolding u32_le_iff len pu by simp
  ultimately show ?thesis
    unfolding packet_payload_def len_def [symmetric] fetch1_def
    by (simp add: u Let_def u32_less_iff fetch_def linorder_not_less [symmetric] n nu
        del: of_nat_add of_nat_Suc linorder_not_less)
qed

section \<open>One direction\<close>

text \<open>What a direction is: its fields are independent of the other parts of the context.\<close>

locale direction_fields =
  fixes d :: "'z direction"
  assumes key_frame: "dir_key d (c\<lparr>io_user_data := w\<rparr>) = dir_key d c"
      "dir_key d (c\<lparr>send_seq := n\<rparr>) = dir_key d c" "dir_key d (c\<lparr>recv_seq := n\<rparr>) = dir_key d c"
      "dir_key d (dir_set_counter d f c) = dir_key d c"
    and mac_frame: "dir_mac_key d (c\<lparr>io_user_data := w\<rparr>) = dir_mac_key d c"
      "dir_mac_key d (c\<lparr>send_seq := n\<rparr>) = dir_mac_key d c"
      "dir_mac_key d (c\<lparr>recv_seq := n\<rparr>) = dir_mac_key d c"
      "dir_mac_key d (dir_set_counter d f c) = dir_mac_key d c"
    and counter_frame: "dir_counter d (c\<lparr>io_user_data := w\<rparr>) = dir_counter d c"
      "dir_counter d (c\<lparr>send_seq := n\<rparr>) = dir_counter d c"
      "dir_counter d (c\<lparr>recv_seq := n\<rparr>) = dir_counter d c"
      "dir_counter d (dir_set_counter d f c) = f (dir_counter d c)"
    and others: "io_user_data (dir_set_counter d f c) = io_user_data c"
      "send_seq (dir_set_counter d f c) = send_seq c"
      "recv_seq (dir_set_counter d f c) = recv_seq c"
      "dir_set_counter d f (c\<lparr>io_user_data := w\<rparr>) = (dir_set_counter d f c)\<lparr>io_user_data := w\<rparr>"
      "dir_set_counter d f (dir_set_counter d g c) = dir_set_counter d (\<lambda>x. f (g x)) c"
begin

lemmas frames = key_frame mac_frame counter_frame others

end

interpretation c2s: direction_fields c2s
  by unfold_locales (simp_all add: c2s_def)

interpretation s2c: direction_fields s2c
  by unfold_locales (simp_all add: s2c_def)

text \<open>The packet as its length field announces it.\<close>

definition framed :: "bytes \<Rightarrow> u32 \<Rightarrow> bool" where
  "framed plain packet_len \<longleftrightarrow> netnox_ssh_read_u32_be plain = Ok packet_len \<and>
     length plain = 4 + unat packet_len \<and> unat packet_len \<le> 35000"

lemma u32len_framed: "framed plain packet_len \<Longrightarrow> u32len plain = 4 + packet_len"
  by (auto simp: framed_def u32len_def)

definition blocks :: "bytes \<Rightarrow> u32" where
  "blocks plain = (u32len plain + 16 - 1) div 16"

lemma blocks_ge_1: "framed plain n \<Longrightarrow> 16 \<le> length plain \<Longrightarrow> 1 \<le> unat (blocks plain)"
proof -
  assume f: "framed plain n" and l: "16 \<le> length plain"
  have "unat (u32len plain + 16 - 1) = length plain + 15"
    using f l u32len_plus [of plain 15] by (simp add: framed_def add.commute)
  then show ?thesis using l by (simp add: blocks_def unat_div)
qed

lemma ctr_increment_split:
  assumes "framed plain n" and "16 \<le> length plain"
  shows "netnox_ssh_ctr_increment_blocks (netnox_ssh_ctr_increment_blocks ctr 1) (blocks plain - 1) =
    netnox_ssh_ctr_increment_blocks ctr (blocks plain)"
proof -
  note ge = blocks_ge_1 [OF assms]
  have "unat (blocks plain - 1) = unat (blocks plain) - 1"
    using ge by (intro unat_minus_one) auto
  then show ?thesis
    using ctr_increment_add [of 1 "blocks plain - 1" ctr] ge
      unsigned_less [of "blocks plain", where 'a = nat] by simp
qed

definition packet_mac :: "noxtls \<Rightarrow> bytes \<Rightarrow> u32 \<Rightarrow> bytes \<Rightarrow> bytes" where
  "packet_mac C mac_key seqno plain =
     hmac_spec (digest C) mac_key (netnox_ssh_write_u32_be seqno @ plain)"

lemma aes_total:
  assumes "ctr_ok C" and "length k = 16" and "length ctr = 16"
  shows "\<exists>e. noxtls_aes_encrypt_ctr C k d ctr = Some e \<and> length e = length d \<and>
    noxtls_aes_encrypt_ctr C k e ctr = Some d"
  using assms unfolding ctr_ok_def by blast

text \<open>A packet encrypted in one call is decrypted in two: its first block, then the rest.\<close>

lemma aes_two_chunks:
  assumes "ctr_ok C" and "length k = 16" and "length ctr = 16" and "16 \<le> length plain"
    and "noxtls_aes_encrypt_ctr C k plain ctr = Some enc"
  shows "length enc = length plain"
    and "noxtls_aes_encrypt_ctr C k (take 16 enc) ctr = Some (take 16 plain)"
    and "noxtls_aes_encrypt_ctr C k (drop 16 enc) (netnox_ssh_ctr_increment_blocks ctr 1) =
      Some (drop 16 plain)"
proof -
  let ?x = "take 16 plain" and ?y = "drop 16 plain" and ?ctr' = "netnox_ssh_ctr_increment_blocks ctr 1"
  obtain ex where ex: "noxtls_aes_encrypt_ctr C k ?x ctr = Some ex" "length ex = length ?x"
    "noxtls_aes_encrypt_ctr C k ex ctr = Some ?x"
    using aes_total [OF assms(1-3)] by blast
  obtain ey where ey: "noxtls_aes_encrypt_ctr C k ?y ?ctr' = Some ey" "length ey = length ?y"
    "noxtls_aes_encrypt_ctr C k ey ?ctr' = Some ?y"
    using aes_total [OF assms(1,2), of ?ctr' ?y] assms(3) by auto
  have "noxtls_aes_encrypt_ctr C k (?x @ ?y) ctr = Some (ex @ ey)"
    using assms(1-4) ex(1) ey(1) unfolding ctr_ok_def by (metis length_take min.absorb2)
  then have "enc = ex @ ey" using assms(5) by simp
  then show "length enc = length plain"
    and "noxtls_aes_encrypt_ctr C k (take 16 enc) ctr = Some (take 16 plain)"
    and "noxtls_aes_encrypt_ctr C k (drop 16 enc) ?ctr' = Some (drop 16 plain)"
    using ex ey assms(4) by simp_all
qed

context direction_fields
begin

lemma seal_packet_eq:
  assumes "sha_ok C" and "noxtls_aes_encrypt_ctr C (dir_key d c) plain (dir_counter d c) = Some enc"
  shows "seal_packet C d plain c =
    (Ok (enc, packet_mac C (dir_mac_key d c) (send_seq c) plain),
     dir_set_counter d (\<lambda>ctr. netnox_ssh_ctr_increment_blocks ctr (blocks plain)) c)"
  using assms(2) by (simp add: seal_packet_def macM_def aesM_def advanceM_def prog_defs
      hmac_sha256_eq [OF assms(1)] blocks_def packet_mac_def)

end

lemma always_count_sent: "always ctx_step count_sent"
  unfolding count_sent_def by (rule always_set) (simp add: ctx_step_def)

lemma always_aesM: "always ctx_step (aesM C d data)"
  by (auto simp: always_def aesM_def ctx_step_def split: option.splits)

lemma always_macM: "always ctx_step (macM C d n data)"
  by (auto simp: always_def macM_def ctx_step_def)

context direction_fields
begin

lemma always_advance: "always ctx_step (advanceM d n)"
  unfolding advanceM_def by (rule always_set) (simp add: ctx_step_def others)

lemma always_seal: "always ctx_step (seal_packet C d plain)"
  unfolding seal_packet_def
  by (intro ctx.always_rules always_aesM always_macM always_advance)

lemma always_open:
  "(\<And>n room. always ctx_step (rcv n room)) \<Longrightarrow> always ctx_step (open_packet C d rcv eq)"
  unfolding open_packet_def open_first_block_def open_other_blocks_def case_prod_beta Let_def
  by (intro ctx.always_rules always_aesM always_macM always_advance always_setM_ctx) simp_all

end

lemma always_send_sealed: "always ctx_step (send_sealed enc mac)"
  unfolding send_sealed_def Let_def
  by (intro ctx.always_rules always_send_all always_setM_ctx) simp_all

lemma always_srv_send_all: "always ctx_step (srv_send_all data)"
  unfolding always_def srv_send_all_def ifM_def throwM_def
  by (auto simp: ctx.refl intro: always_ioM [OF always_send_loop, unfolded always_def, rule_format])

lemma always_srv_recv_exact: "always ctx_step (srv_recv_exact n room)"
  unfolding always_def srv_recv_exact_def ifM_def throwM_def
  by (auto simp: ctx.refl intro: always_ioM [OF always_recv_loop, unfolded always_def, rule_format])

lemma always_srv_nowM: "always ctx_step srv_nowM"
  unfolding srv_nowM_def by (rule always_ioM) (simp add: always_def srv_now_ms_def io_step_def)

lemma always_send_packet: "always ctx_step (netnox_ssh_send_packet C payload)"
  unfolding netnox_ssh_send_packet_def case_prod_beta Let_def
  by (intro ctx.always_rules always_ioM always_fill_random always_send_all always_send_sealed
      always_count_sent c2s.always_seal)

lemma always_srv_send_packet: "always ctx_step (srv_send_packet C payload)"
  unfolding srv_send_packet_def case_prod_beta Let_def
  by (intro ctx.always_rules always_ioM always_srv_fill_random always_srv_send_all always_srv_nowM
      always_count_sent s2c.always_seal always_setM_ctx) simp_all

lemma always_recv_plain:
  "(\<And>n room. always ctx_step (rcv n room)) \<Longrightarrow> always ctx_step (recv_plain_packet rcv m)"
  unfolding recv_plain_packet_def
  by (intro ctx.always_rules always_setM_ctx) simp_all

lemma always_recv_packet: "always ctx_step (netnox_ssh_recv_packet C m)"
  unfolding netnox_ssh_recv_packet_def case_prod_beta
  by (intro ctx.always_rules always_recv_plain s2c.always_open always_recv_exact)

lemma always_srv_recv_packet: "always ctx_step (srv_recv_packet C m)"
  unfolding srv_recv_packet_def srv_recv_body_def case_prod_beta
  by (intro ctx.always_rules always_recv_plain c2s.always_open always_srv_recv_exact always_srv_nowM
      always_setM_ctx) simp_all

lemma c2s_fields [simp]:
  "dir_key c2s c = c2s_key c" "dir_mac_key c2s c = c2s_mac_key c" "dir_counter c2s c = c2s_counter c"
  "dir_set_counter c2s f c = c\<lparr>c2s_counter := f (c2s_counter c)\<rparr>"
  by (simp_all add: c2s_def)

lemma s2c_fields [simp]:
  "dir_key s2c c = s2c_key c" "dir_mac_key s2c c = s2c_mac_key c" "dir_counter s2c c = s2c_counter c"
  "dir_set_counter s2c f c = c\<lparr>s2c_counter := f (s2c_counter c)\<rparr>"
  by (simp_all add: s2c_def)

text \<open>
  What the receive functions rely on in \<open>recv_exact\<close>: when the endpoint is \<open>ready\<close> (callback set,
  deadlines not passed, no failing read ahead) and enough bytes are under way, it delivers exactly
  the next ones.
\<close>

locale receiver = direction_fields d
  for d :: "'z direction" +
  fixes rcv :: "u32 \<Rightarrow> u32 \<Rightarrow> ('z ssh_context_scheme, bytes) prog"
    and ready :: "'z ssh_context_scheme \<Rightarrow> bool"
  assumes rcv_ready: "ready c \<Longrightarrow> concat (rx (io_user_data c)) = x @ rest \<Longrightarrow> length x = unat n \<Longrightarrow>
      length x \<le> unat room \<Longrightarrow> \<exists>w. rcv n room c = (Ok x, c\<lparr>io_user_data := w\<rparr>) \<and>
        concat (rx w) = rest \<and> ready (c\<lparr>io_user_data := w\<rparr>)"
    and ready_counter: "ready (dir_set_counter d f c) \<longleftrightarrow> ready c"
    and ready_seq: "ready (c\<lparr>recv_seq := n\<rparr>) \<longleftrightarrow> ready c"
begin

lemma rcv_checked:
  assumes "ready c" and "concat (rx (io_user_data c)) = x @ rest" and "length x = unat n"
    and "length x \<le> unat room"
  shows "\<exists>w. checkedM e (rcv n room) c = (Ok x, c\<lparr>io_user_data := w\<rparr>) \<and>
    concat (rx w) = rest \<and> ready (c\<lparr>io_user_data := w\<rparr>)"
  using rcv_ready [OF assms] by (auto simp: checkedM_def)

lemma open_first_block_delivers:
  assumes rdy: "ready c" and rx: "concat (rx (io_user_data c)) = enc0 @ rest"
    and len: "length enc0 = 16"
    and aes: "noxtls_aes_encrypt_ctr C (dir_key d c) enc0 (dir_counter d c) = Some plain0"
    and rd: "netnox_ssh_read_u32_be plain0 = Ok n" and range: "\<not> (n < 1 + 4 \<or> n > 35000)"
  shows "\<exists>w. open_first_block C d rcv c = (Ok (n, plain0),
      dir_set_counter d (\<lambda>ctr. netnox_ssh_ctr_increment_blocks ctr 1) (c\<lparr>io_user_data := w\<rparr>)) \<and>
    concat (rx w) = rest \<and> ready (c\<lparr>io_user_data := w\<rparr>)"
proof -
  have len16: "length enc0 = unat (16 :: u32)" using len by simp
  obtain w where w: "checkedM NETNOX_RETURN_FAILED (rcv 16 35004) c = (Ok enc0, c\<lparr>io_user_data := w\<rparr>)"
    "concat (rx w) = rest" "ready (c\<lparr>io_user_data := w\<rparr>)"
    using rcv_checked [OF rdy rx len16, of 35004 NETNOX_RETURN_FAILED] len by auto
  let ?c1 = "dir_set_counter d (\<lambda>ctr. netnox_ssh_ctr_increment_blocks ctr 1) (c\<lparr>io_user_data := w\<rparr>)"
  have a: "aesM C d enc0 (c\<lparr>io_user_data := w\<rparr>) = (Ok plain0, c\<lparr>io_user_data := w\<rparr>)"
    by (simp add: aesM_def aes frames)
  have "open_first_block C d rcv c = (Ok (n, plain0), ?c1)"
    unfolding open_first_block_def
  proof (rule bindM_run, rule w(1), rule bindM_run, rule a)
    show "bindM (advanceM d 1) (\<lambda>_. bindM (liftM (netnox_ssh_read_u32_be plain0)) (\<lambda>packet_len.
        bindM (failM (packet_len < 1 + 4 \<or> packet_len > 35000) NETNOX_RETURN_FAILED) (\<lambda>_.
        retM (packet_len, plain0)))) (c\<lparr>io_user_data := w\<rparr>) = (Ok (n, plain0), ?c1)"
      using range unfolding rd by (simp add: prog_defs advanceM_def)
  qed
  with w show ?thesis by blast
qed

lemma open_other_blocks_delivers:
  assumes C: "sha_ok C" and rdy: "ready c"
    and len: "length plain0 = 16" "length plain1 + 16 = 4 + unat n" "unat n \<le> 35000"
      "length enc1 = length plain1"
    and aes: "noxtls_aes_encrypt_ctr C (dir_key d c) enc1 (dir_counter d c) = Some plain1"
    and rx: "concat (rx (io_user_data c)) =
      enc1 @ packet_mac C (dir_mac_key d c) (recv_seq c) (plain0 @ plain1) @ rest"
    and eq: "\<And>m. length m = 32 \<Longrightarrow> eq m m"
  shows "\<exists>w. open_other_blocks C d rcv eq n plain0 c = (Ok (plain0 @ plain1),
      (dir_set_counter d (\<lambda>ctr. netnox_ssh_ctr_increment_blocks ctr ((4 + n + 16 - 1) div 16 - 1)) c)
        \<lparr>io_user_data := w, recv_seq := recv_seq c + 1\<rparr>) \<and>
    concat (rx w) = rest \<and> ready (c\<lparr>io_user_data := w\<rparr>)"
proof -
  let ?mac = "packet_mac C (dir_mac_key d c) (recv_seq c) (plain0 @ plain1)"
  have total: "unat (4 + n) = length (plain0 @ plain1)" using len by (simp add: unat_word_ariths)
  moreover from this have "unat (4 + n - 16) = unat (4 + n) - unat (16 :: u32)"
    using len(1) by (intro unat_sub) (simp add: word_le_nat_alt)
  ultimately have len1: "length enc1 = unat (4 + n - 16)" using len by (simp only: length_append) simp
  obtain w1 where w1: "checkedM NETNOX_RETURN_FAILED (rcv (4 + n - 16) (35004 - 16)) c =
      (Ok enc1, c\<lparr>io_user_data := w1\<rparr>)"
    "concat (rx w1) = ?mac @ rest" "ready (c\<lparr>io_user_data := w1\<rparr>)"
    using rcv_checked [OF rdy rx len1, of "35004 - 16" NETNOX_RETURN_FAILED] len by auto
  define c1 where "c1 = dir_set_counter d
    (\<lambda>ctr. netnox_ssh_ctr_increment_blocks ctr ((4 + n + 16 - 1) div 16 - 1)) (c\<lparr>io_user_data := w1\<rparr>)"
  have c1: "ready c1" using w1(3) by (simp only: c1_def ready_counter)
  have rx1: "concat (rx (io_user_data c1)) = ?mac @ rest" using w1(2) by (simp add: c1_def others)
  have mac32: "length ?mac = unat (32 :: u32)" using C by (simp add: packet_mac_def length_hmac)
  obtain w2 where w2: "checkedM NETNOX_RETURN_FAILED (rcv 32 32) c1 = (Ok ?mac, c1\<lparr>io_user_data := w2\<rparr>)"
    "concat (rx w2) = rest" "ready (c1\<lparr>io_user_data := w2\<rparr>)"
    using rcv_checked [OF c1 rx1 mac32, of 32 NETNOX_RETURN_FAILED] mac32 by auto
  have a: "aesM C d enc1 (c\<lparr>io_user_data := w1\<rparr>) = (Ok plain1, c\<lparr>io_user_data := w1\<rparr>)"
    by (simp add: aesM_def aes frames)
  have adv: "advanceM d ((4 + n + 16 - 1) div 16 - 1) (c\<lparr>io_user_data := w1\<rparr>) = (Ok (), c1)"
    unfolding advanceM_def setM_def c1_def ..
  have fetch: "fetch (plain0 @ plain1) (unat (4 + n)) = Ok (plain0 @ plain1)"
    unfolding total by (simp add: fetch_def)
  have fields: "dir_mac_key d c1 = dir_mac_key d c" "recv_seq c1 = recv_seq c"
    by (simp_all add: c1_def frames)
  have "open_other_blocks C d rcv eq n plain0 c =
      (Ok (plain0 @ plain1), c1\<lparr>io_user_data := w2, recv_seq := recv_seq c + 1\<rparr>)"
    unfolding open_other_blocks_def Let_def
  proof (rule bindM_run, rule w1(1), rule bindM_run, rule a, rule bindM_run, rule adv,
      rule bindM_run, rule w2(1), unfold fetch)
  qed (simp add: prog_defs macM_def hmac_sha256_eq C fields frames packet_mac_def eq length_hmac)
  with w2 show ?thesis unfolding c1_def by (auto simp: others ready_counter simp flip: others(4))
qed

lemma open_packet_delivers:
  assumes C: "sha_ok C" "ctr_ok C" and rdy: "ready c"
    and lens: "length (dir_key d c) = 16" "length (dir_counter d c) = 16"
    and plain: "framed plain n" "16 \<le> length plain"
    and enc: "noxtls_aes_encrypt_ctr C (dir_key d c) plain (dir_counter d c) = Some enc"
    and rx: "concat (rx (io_user_data c)) =
      enc @ packet_mac C (dir_mac_key d c) (recv_seq c) plain @ rest"
    and eq: "\<And>m. length m = 32 \<Longrightarrow> eq m m"
  shows "\<exists>w. open_packet C d rcv eq c = (Ok (n, plain),
      (dir_set_counter d (\<lambda>ctr. netnox_ssh_ctr_increment_blocks ctr (blocks plain)) c)
        \<lparr>io_user_data := w, recv_seq := recv_seq c + 1\<rparr>) \<and> concat (rx w) = rest \<and>
    ready (c\<lparr>io_user_data := w\<rparr>)"
proof -
  let ?mac = "packet_mac C (dir_mac_key d c) (recv_seq c) plain"
  let ?inc = "netnox_ssh_ctr_increment_blocks"
  note chunks = aes_two_chunks [OF C(2) lens plain(2) enc]
  have n: "length plain = 4 + unat n" "unat n \<le> 35000" "\<not> (n < 1 + 4 \<or> n > 35000)"
    and rd: "netnox_ssh_read_u32_be (take 16 plain) = Ok n"
    using plain by (auto simp: framed_def read_u32_be_write word_less_nat_alt)
  have rx1: "concat (rx (io_user_data c)) = take 16 enc @ drop 16 enc @ ?mac @ rest"
    using rx by simp
  have len16: "length (take 16 enc) = 16" using chunks(1) plain(2) by simp
  obtain w1 where w1: "open_first_block C d rcv c =
      (Ok (n, take 16 plain), dir_set_counter d (\<lambda>ctr. ?inc ctr 1) (c\<lparr>io_user_data := w1\<rparr>))"
    "concat (rx w1) = drop 16 enc @ ?mac @ rest" "ready (c\<lparr>io_user_data := w1\<rparr>)"
    using open_first_block_delivers [OF rdy rx1 len16 chunks(2) rd n(3)] by blast
  define c1 where "c1 = dir_set_counter d (\<lambda>ctr. ?inc ctr 1) (c\<lparr>io_user_data := w1\<rparr>)"
  have c1: "ready c1" using w1(3) by (simp only: c1_def ready_counter)
  have f1: "dir_key d c1 = dir_key d c" "dir_counter d c1 = ?inc (dir_counter d c) 1"
    "dir_mac_key d c1 = dir_mac_key d c" "recv_seq c1 = recv_seq c" "io_user_data c1 = w1"
    by (simp_all add: c1_def frames)
  have "\<exists>w. open_other_blocks C d rcv eq n (take 16 plain) c1 = (Ok (take 16 plain @ drop 16 plain),
      (dir_set_counter d (\<lambda>ctr. ?inc ctr ((4 + n + 16 - 1) div 16 - 1)) c1)
        \<lparr>io_user_data := w, recv_seq := recv_seq c1 + 1\<rparr>) \<and>
    concat (rx w) = rest \<and> ready (c1\<lparr>io_user_data := w\<rparr>)"
    using C(1) c1 n plain(2) chunks w1(2) eq
    by (intro open_other_blocks_delivers) (auto simp: f1)
  then obtain w2 where w2: "open_other_blocks C d rcv eq n (take 16 plain) c1 = (Ok plain,
      (dir_set_counter d (\<lambda>ctr. ?inc ctr ((4 + n + 16 - 1) div 16 - 1)) c1)
        \<lparr>io_user_data := w2, recv_seq := recv_seq c + 1\<rparr>)"
    "concat (rx w2) = rest" "ready (c1\<lparr>io_user_data := w2\<rparr>)"
    by (auto simp: f1)
  have bl: "(4 + n + 16 - 1) div 16 = blocks plain"
    using u32len_framed [OF plain(1)] by (simp add: blocks_def)
  have "ready (c\<lparr>io_user_data := w2\<rparr>)"
    using w2(3) ready_counter [of _ "c\<lparr>io_user_data := w2\<rparr>"] by (simp add: c1_def others)
  moreover have "open_packet C d rcv eq c = (Ok (n, plain),
      (dir_set_counter d (\<lambda>ctr. ?inc ctr (blocks plain)) c)
        \<lparr>io_user_data := w2, recv_seq := recv_seq c + 1\<rparr>)"
    using w2(1) ctr_increment_split [OF plain] unfolding bl
    by (simp add: open_packet_def bindM_step [where m = "open_first_block C d rcv"] w1(1) retM_def
        bindM_def c1_def others)
  ultimately show ?thesis using w2(2) by blast
qed

end

end
