(* ===== verification/Nox_Channel.thy ===== *)
theory Nox_Channel
  imports Nox_Packet
begin

text \<open>
  What the packet protocol guarantees across the two endpoints: a payload sent by one is what the
  other receives, in order and under every segmentation of the byte stream (locale
  \<open>packet_channel\<close>, interpreted for both directions); an encrypted packet is accepted only with the
  MAC over its content and sequence number; and the exact condition under which the receive
  functions write outside their buffers.
\<close>

section \<open>Both endpoints as receivers\<close>

definition cli_ready :: "netnox_ssh_client_t \<Rightarrow> bool" where
  "cli_ready c \<longleftrightarrow> recv_cb c \<and> [] \<notin> set (rx (io_user_data c))"

definition srv_ready :: "netnox_ssh_server_t \<Rightarrow> bool" where
  "srv_ready s \<longleftrightarrow> recv_cb s \<and> [] \<notin> set (rx (io_user_data s)) \<and>
     open_guard (srv_in_time (packet_deadline_ms s) (session_started s) (handshake_deadline_ms s))
       (io_user_data s)"

interpretation cli_recv: receiver s2c netnox_ssh_recv_exact cli_ready
proof unfold_locales
  fix c :: netnox_ssh_client_t and x rest and n room :: u32
  assume a: "cli_ready c" "concat (rx (io_user_data c)) = x @ rest" "length x = unat n" "length x \<le> unat room"
  then obtain w where "recv_loop no_guard (unat n) (uint room) [] (io_user_data c) = (Ok x, w)"
    "concat (rx w) = rest" "[] \<notin> set (rx w)"
    using recv_loop_delivers_u32 [of no_guard "io_user_data c" x rest n room] by (auto simp: cli_ready_def)
  then show "\<exists>w. netnox_ssh_recv_exact n room c = (Ok x, c\<lparr>io_user_data := w\<rparr>) \<and>
      concat (rx w) = rest \<and> cli_ready (c\<lparr>io_user_data := w\<rparr>)"
    using a by (auto simp: netnox_ssh_recv_exact_def ifM_def ioM_def cli_ready_def)
qed (simp_all add: cli_ready_def s2c_def)

interpretation srv_recv: receiver c2s srv_recv_exact srv_ready
proof unfold_locales
  fix s :: netnox_ssh_server_t and x rest and n room :: u32
  assume a: "srv_ready s" "concat (rx (io_user_data s)) = x @ rest" "length x = unat n" "length x \<le> unat room"
  let ?g = "srv_in_time (packet_deadline_ms s) (session_started s) (handshake_deadline_ms s)"
  from a obtain w where "recv_loop ?g (unat n) (uint room) [] (io_user_data s) = (Ok x, w)"
    "concat (rx w) = rest" "[] \<notin> set (rx w)" "open_guard ?g w"
    using recv_loop_delivers_u32 [of ?g "io_user_data s" x rest n room] by (auto simp: srv_ready_def)
  then show "\<exists>w. srv_recv_exact n room s = (Ok x, s\<lparr>io_user_data := w\<rparr>) \<and>
      concat (rx w) = rest \<and> srv_ready (s\<lparr>io_user_data := w\<rparr>)"
    using a by (auto simp: srv_recv_exact_def ifM_def ioM_def srv_ready_def)
qed (simp_all add: srv_ready_def c2s_def)

text \<open>A clock that does not fail and moves by at most ten seconds, within the handshake deadline.\<close>

definition srv_timely :: "netnox_ssh_server_t \<Rightarrow> bool" where
  "srv_timely s \<longleftrightarrow> (\<exists>t. t + 20000 < 2 ^ 64 \<and> (\<forall>i. let now = clock_ms (io_user_data s) i in
     t \<le> unat now \<and> unat now \<le> t + 10000 \<and>
     (session_started s \<or> handshake_deadline_ms s = 0 \<or> now \<le> handshake_deadline_ms s)))"

lemma srv_timely_open:
  assumes "srv_timely s"
  shows "open_guard (srv_in_time (clock_ms (io_user_data s) i + 10000) (session_started s)
    (handshake_deadline_ms s)) (io_user_data s)"
proof -
  obtain t where t: "t + 20000 < 2 ^ 64" and b: "\<And>i. t \<le> unat (clock_ms (io_user_data s) i)"
    "\<And>i. unat (clock_ms (io_user_data s) i) \<le> t + 10000"
    "\<And>i. session_started s \<or> handshake_deadline_ms s = 0 \<or> clock_ms (io_user_data s) i \<le> handshake_deadline_ms s"
    using assms unfolding srv_timely_def Let_def by blast
  have "unat (clock_ms (io_user_data s) i + 10000) = unat (clock_ms (io_user_data s) i) + 10000"
    using t b(2) [of i] by (simp add: unat_word_ariths)
  then have "\<not> clock_ms (io_user_data s) i + 10000 < clock_ms (io_user_data s) j" for j
    using b(1) [of i] b(2) [of j] by (simp add: word_less_nat_alt)
  moreover have "clock_ms (io_user_data s) j \<noteq> -1" for j
  proof
    assume "clock_ms (io_user_data s) j = -1"
    then have "unat (clock_ms (io_user_data s) j) = 2 ^ 64 - 1"
      by (simp add: unsigned_minus_1_eq_mask mask_eq_exp_minus_1)
    then show False using t b(2) [of j] by simp
  qed
  moreover have "\<not> (\<not> session_started s \<and> handshake_deadline_ms s \<noteq> 0 \<and>
      handshake_deadline_ms s < clock_ms (io_user_data s) j)" for j
    using b(3) [of j] by auto
  ultimately show ?thesis by (simp add: open_guard_def srv_in_time_def)
qed

context receiver
begin

lemma recv_plain_delivers:
  assumes rdy: "ready c" and plain: "framed (netnox_ssh_write_u32_be n @ packet) n" "5 \<le> unat n"
    and rx: "concat (rx (io_user_data c)) = netnox_ssh_write_u32_be n @ packet @ rest"
    and pl: "packet_payload n packet m = Ok payload"
  shows "\<exists>w. recv_plain_packet rcv m c =
      (Ok payload, c\<lparr>io_user_data := w, recv_seq := recv_seq c + 1\<rparr>) \<and>
    concat (rx w) = rest \<and> ready (c\<lparr>io_user_data := w\<rparr>)"
proof -
  have len4: "length (netnox_ssh_write_u32_be n) = unat (4 :: u32)" by simp
  obtain w1 where w1: "checkedM NETNOX_RETURN_FAILED (rcv 4 4) c =
      (Ok (netnox_ssh_write_u32_be n), c\<lparr>io_user_data := w1\<rparr>)"
    "concat (rx w1) = packet @ rest" "ready (c\<lparr>io_user_data := w1\<rparr>)"
    using rcv_checked [OF rdy rx len4, of 4 NETNOX_RETURN_FAILED] by auto
  have lenp: "length packet = unat n" "length packet \<le> unat (35000 :: u32)"
    using plain by (auto simp: framed_def)
  have rx1: "concat (rx (io_user_data (c\<lparr>io_user_data := w1\<rparr>))) = packet @ rest"
    using w1(2) by simp
  obtain w2 where w2: "checkedM NETNOX_RETURN_FAILED (rcv n 35000) (c\<lparr>io_user_data := w1\<rparr>) =
      (Ok packet, c\<lparr>io_user_data := w2\<rparr>)" "concat (rx w2) = rest" "ready (c\<lparr>io_user_data := w2\<rparr>)"
    using rcv_checked [OF w1(3) rx1 lenp, of NETNOX_RETURN_FAILED] by auto
  have range: "\<not> (n < 1 + 4 \<or> n > 35000)" using lenp plain(2) by (simp add: word_less_nat_alt)
  have "recv_plain_packet rcv m c =
      (Ok payload, c\<lparr>io_user_data := w2, recv_seq := recv_seq c + 1\<rparr>)"
    using w1(1) w2(1) range pl read_write_u32_be [of n "[]"]
    by (simp add: recv_plain_packet_def bindM_def liftM_def failM_def retM_def setM_def)
  with w2 show ?thesis by blast
qed

end

section \<open>What the senders put on the wire\<close>

text \<open>A plain packet whose payload every receiver with enough room extracts.\<close>

definition carries :: "bytes \<Rightarrow> u32 \<Rightarrow> bytes \<Rightarrow> bool" where
  "carries plain n payload \<longleftrightarrow> framed plain n \<and> 16 \<le> length plain \<and>
     (\<forall>m. packet_payload n (drop 4 plain) m =
        (if length payload \<le> unat m then Ok payload else Err NETNOX_RETURN_FAILED))"

lemma frame_carries:
  assumes "payload \<noteq> []" and "length payload < 2 ^ 31" and "b \<in> {8, 16}"
    and "frame_packet payload b = Ok (f, p)" and "length pad = unat p"
  shows "\<exists>n. carries (f @ pad) n payload \<and> f @ pad = netnox_ssh_write_u32_be n @ drop 4 (f @ pad) \<and>
    length (f @ pad) mod unat b = 0 \<and> 4 \<le> unat p \<and> unat p < 4 + unat b"
proof -
  obtain q where q: "4 \<le> q" "q < 4 + unat b" "(5 + length payload + q) mod unat b = 0"
    "frame_packet payload b = (if 1 + length payload + q \<le> 35000
       then Ok (netnox_ssh_write_u32_be (word_of_nat (1 + length payload + q)) @
                word_of_nat q # payload, word_of_nat q)
       else Err NETNOX_RETURN_BAD_PARAM)"
    using frame_packet_cases [OF assms(2,3)] by metis
  define n :: u32 where "n = word_of_nat (1 + length payload + q)"
  have q256: "q < 256" using q(2) assms(3) by auto
  from q(4) assms(4) have f: "f = netnox_ssh_write_u32_be n @ word_of_nat q # payload"
    and p: "p = word_of_nat q" and le: "1 + length payload + q \<le> 35000"
    by (auto simp: n_def split: if_splits)
  have pu: "unat p = q" using q256 by (simp add: p unat_of_nat)
  have nu: "unat n = 1 + length payload + q"
    using le by (simp add: n_def unat_of_nat del: of_nat_add of_nat_Suc)
  have len: "length (f @ pad) = 5 + length payload + q" using assms(5) by (simp add: f pu)
  have "1 \<le> length payload" using assms(1) by (cases payload) simp_all
  then have "10 \<le> length (f @ pad)" using q(1) by (simp only: len)
  moreover have "length (f @ pad) mod 8 = 0"
    using q(3) assms(3) unfolding len by auto
  ultimately have "16 \<le> length (f @ pad)" by presburger
  moreover have "framed (f @ pad) n" using nu le assms(5) by (simp add: framed_def f pu)
  moreover have "packet_payload n (drop 4 (f @ pad)) m =
      (if length payload \<le> unat m then Ok payload else Err NETNOX_RETURN_FAILED)" for m
    using packet_payload_framed [OF q(1) q256 le, of pad m] assms(5) by (simp add: f pu n_def)
  ultimately have "carries (f @ pad) n payload" by (simp add: carries_def)
  moreover have "length (f @ pad) mod unat b = 0" using q(3) by (simp only: len)
  ultimately show ?thesis using q(1,2) by (intro exI [of _ n]) (simp add: f pu)
qed

text \<open>The packet of RFC 4253, section 6: length, padding length, payload and padding, at least 4 bytes of padding and no more
  than are needed to fill the last block.\<close>

definition rfc_padding :: "nat \<Rightarrow> nat \<Rightarrow> nat" where
  "rfc_padding b n = 4 + (b - (9 + n) mod b) mod b"

definition rfc_packet :: "bytes \<Rightarrow> bytes \<Rightarrow> bytes" where
  "rfc_packet payload pad =
     netnox_ssh_write_u32_be (word_of_nat (1 + length payload + length pad)) @ word_of_nat (length pad) # payload @ pad"

definition rfc_framed :: "nat \<Rightarrow> bytes \<Rightarrow> bytes \<Rightarrow> bool" where
  "rfc_framed b payload plain \<longleftrightarrow>
     (\<exists>pad. length pad = rfc_padding b (length payload) \<and> 1 + length payload + length pad \<le> 35000 \<and> plain = rfc_packet payload pad)"

lemma rfc_padding_fills:
  assumes "0 < b"
  shows "4 \<le> rfc_padding b n" "rfc_padding b n < 4 + b" "(5 + n + rfc_padding b n) mod b = 0"
proof -
  have "(9 + n + (b - (9 + n) mod b) mod b) mod b = ((9 + n) mod b + (b - (9 + n) mod b)) mod b"
    by (simp only: mod_add_left_eq mod_add_right_eq)
  also have "\<dots> = 0" using assms by (simp add: mod_less_divisor less_imp_le)
  finally show "(5 + n + rfc_padding b n) mod b = 0" by (simp add: rfc_padding_def add.assoc add.commute)
qed (use assms in \<open>simp_all add: rfc_padding_def\<close>)

lemma rfc_padding_unique:
  assumes "0 < b" "4 \<le> q" "q < 4 + b" "(5 + n + q) mod b = 0"
  shows "q = rfc_padding b n"
proof -
  note r = rfc_padding_fills [OF assms(1), of n]
  have same: "(5 + n + q) mod b = (5 + n + rfc_padding b n) mod b" using assms(4) r(3) by simp
  have near: "x = y" if "(5 + n + x) mod b = (5 + n + y) mod b" "y \<le> x" "4 \<le> y" "x < 4 + b" for x y
  proof -
    have "b dvd x - y" using mod_eq_dvd_iff_nat [of "5 + n + y" "5 + n + x" b] that(1,2) by simp
    moreover have "x - y < b" using that(2-4) by simp
    ultimately show ?thesis using that(2) nat_dvd_not_less [of "x - y" b] by (cases "x = y") auto
  qed
  show ?thesis using near [OF same] near [OF same [symmetric]] assms(2,3) r(1,2) by (cases "q \<le> rfc_padding b n") auto
qed

lemma frame_rfc:
  assumes "length payload < 2 ^ 31" and "b \<in> {8, 16}"
  shows "frame_packet payload b =
    (if 1 + length payload + rfc_padding (unat b) (length payload) \<le> 35000
     then Ok (netnox_ssh_write_u32_be (word_of_nat (1 + length payload + rfc_padding (unat b) (length payload))) @
              word_of_nat (rfc_padding (unat b) (length payload)) # payload, word_of_nat (rfc_padding (unat b) (length payload)))
     else Err NETNOX_RETURN_BAD_PARAM)"
proof -
  have "0 < unat b" using assms(2) by auto
  then show ?thesis using frame_packet_cases [OF assms] rfc_padding_unique by metis
qed

lemma frame_framed:
  assumes "length payload < 2 ^ 31" and "b \<in> {8, 16}" and "frame_packet payload b = Ok (f, p)" and "length pad = unat p"
  shows "rfc_framed (unat b) payload (f @ pad)"
proof -
  define q where "q = rfc_padding (unat b) (length payload)"
  have "0 < unat b" "unat b \<le> 16" using assms(2) by auto
  then have "q < 20" using rfc_padding_fills(2) [of "unat b" "length payload"] by (simp add: q_def)
  then have q: "unat (word_of_nat q :: u32) = q" by (simp add: unat_of_nat)
  have "1 + length payload + q \<le> 35000" "p = word_of_nat q"
    "f = netnox_ssh_write_u32_be (word_of_nat (1 + length payload + q)) @ word_of_nat q # payload"
    using assms(3) unfolding frame_rfc [OF assms(1,2)] q_def [symmetric] by (auto split: if_splits)
  then show ?thesis using assms(4) q unfolding rfc_framed_def rfc_packet_def q_def [symmetric] by (intro exI [of _ pad]) simp
qed

lemma block_size_range: "packet_block_size c \<in> {8, 16}"
  by (simp add: packet_block_size_def)

lemma send_all_Ok:
  "netnox_ssh_send_all data c = (Ok u, c') \<Longrightarrow>
     \<exists>w. c' = c\<lparr>io_user_data := w\<rparr> \<and> tx w = tx (io_user_data c) @ data"
  by (auto simp: netnox_ssh_send_all_def ifM_def throwM_def ioM_def split: if_splits prod.splits
      dest: send_loop_Ok)

lemma srv_send_all_Ok:
  "srv_send_all data s = (Ok u, s') \<Longrightarrow>
     \<exists>w. s' = s\<lparr>io_user_data := w\<rparr> \<and> tx w = tx (io_user_data s) @ data"
  by (auto simp: srv_send_all_def ifM_def throwM_def ioM_def split: if_splits prod.splits
      dest: send_loop_Ok)

lemma send_sealed_Ok:
  assumes "send_sealed enc mac c = (Ok u, c')" and "length (pending_newkeys c) < 2 ^ 32"
  shows "\<exists>w. c' = c\<lparr>pending_newkeys := [], io_user_data := w\<rparr> \<and>
    tx w = tx (io_user_data c) @ pending_newkeys c @ enc @ mac"
proof (cases "pending_newkeys c = []")
  case True
  then have same: "c\<lparr>pending_newkeys := []\<rparr> = c" and
    eq: "c\<lparr>pending_newkeys := [], io_user_data := w\<rparr> = c\<lparr>io_user_data := w\<rparr>" for w
    by (cases c, simp)+
  have "\<exists>w. c' = c\<lparr>io_user_data := w\<rparr> \<and> tx w = tx (io_user_data c) @ enc @ mac"
    using assms(1) True unfolding send_sealed_def
    by (auto simp: res_iff Let_def same split: if_splits dest!: send_all_Ok)
  then show ?thesis unfolding eq True by simp
next
  case False
  then have "u32len (pending_newkeys c) > 0"
    using unat_u32len [OF assms(2)] by (simp add: u32_less_iff)
  then show ?thesis
    using assms(1) unfolding send_sealed_def
    by (auto simp: res_iff Let_def split: if_splits dest!: send_all_Ok)
qed

lemma send_packet_enc:
  assumes C: "sha_ok C" and run: "netnox_ssh_send_packet C payload c = (Ok u, c')"
    and kex: "key_exchange_complete c" and pend: "length (pending_newkeys c) < 2 ^ 32"
    and pl: "length payload < 2 ^ 31"
  shows "\<exists>plain n enc w. carries plain n payload \<and> rfc_framed 16 payload plain \<and>
    noxtls_aes_encrypt_ctr C (c2s_key c) plain (c2s_counter c) = Some enc \<and>
    tx w = tx (io_user_data c) @ pending_newkeys c @ enc @ packet_mac C (c2s_mac_key c) (send_seq c) plain \<and>
    c' = c\<lparr>c2s_counter := netnox_ssh_ctr_increment_blocks (c2s_counter c) (blocks plain),
            pending_newkeys := [], io_user_data := w, send_seq := send_seq c + 1\<rparr>"
proof -
  have ne: "payload \<noteq> []" using run by (auto simp: netnox_ssh_send_packet_def res_iff)
  obtain f p pad w1 enc mac c1 c2 where
    fr: "frame_packet payload (packet_block_size c) = Ok (f, p)"
    and pad: "netnox_ssh_fill_random p (io_user_data c) = (Ok pad, w1)"
    and seal: "seal_packet C c2s (f @ pad) (c\<lparr>io_user_data := w1\<rparr>) = (Ok (enc, mac), c1)"
    and sent: "send_sealed enc mac c1 = (Ok (), c2)" and c': "c' = c2\<lparr>send_seq := send_seq c2 + 1\<rparr>"
    using run kex unfolding netnox_ssh_send_packet_def Let_def count_sent_def
    by (auto simp: res_iff)
  have padlen: "length pad = unat p" and w1: "tx w1 = tx (io_user_data c)"
    using pad by (auto simp: netnox_ssh_fill_random_def)
  obtain n where n: "carries (f @ pad) n payload" "rfc_framed 16 payload (f @ pad)"
    using frame_carries [OF ne pl block_size_range fr padlen] frame_framed [OF pl block_size_range fr padlen] kex
    by (auto simp: packet_block_size_def)
  have aes: "noxtls_aes_encrypt_ctr C (c2s_key c) (f @ pad) (c2s_counter c) = Some enc"
    using seal by (auto simp: seal_packet_def res_iff aesM_def macM_def advanceM_def c2s_def
        split: option.splits)
  have "seal_packet C c2s (f @ pad) (c\<lparr>io_user_data := w1\<rparr>) =
      (Ok (enc, packet_mac C (c2s_mac_key c) (send_seq c) (f @ pad)),
       c\<lparr>io_user_data := w1, c2s_counter := netnox_ssh_ctr_increment_blocks (c2s_counter c) (blocks (f @ pad))\<rparr>)"
    using c2s.seal_packet_eq [OF C, of "c\<lparr>io_user_data := w1\<rparr>" "f @ pad" enc] aes
    by (simp add: c2s_def)
  with seal have "mac = packet_mac C (c2s_mac_key c) (send_seq c) (f @ pad)"
    and "c1 = c\<lparr>io_user_data := w1, c2s_counter := netnox_ssh_ctr_increment_blocks (c2s_counter c) (blocks (f @ pad))\<rparr>"
    by auto
  with send_sealed_Ok [OF sent] pend n aes w1 c' show ?thesis
    by (intro exI [of _ "f @ pad"] exI [of _ n] exI [of _ enc]) auto
qed

lemma seal_packet_run:
  assumes "sha_ok C" and "seal_packet C s2c plain s = (Ok (enc, mac), s')"
  shows "noxtls_aes_encrypt_ctr C (s2c_key s) plain (s2c_counter s) = Some enc \<and>
    mac = packet_mac C (s2c_mac_key s) (send_seq s) plain \<and>
    s' = s\<lparr>s2c_counter := netnox_ssh_ctr_increment_blocks (s2c_counter s) (blocks plain)\<rparr>"
proof -
  have aes: "noxtls_aes_encrypt_ctr C (s2c_key s) plain (s2c_counter s) = Some enc"
    using assms(2) by (auto simp: seal_packet_def res_iff aesM_def macM_def advanceM_def s2c_def
        split: option.splits)
  have "s2c_counter_update (\<lambda>ctr. netnox_ssh_ctr_increment_blocks ctr (blocks plain)) s =
      s\<lparr>s2c_counter := netnox_ssh_ctr_increment_blocks (s2c_counter s) (blocks plain)\<rparr>"
    by (cases s) simp
  moreover have "seal_packet C s2c plain s = (Ok (enc, packet_mac C (s2c_mac_key s) (send_seq s) plain),
      s2c_counter_update (\<lambda>ctr. netnox_ssh_ctr_increment_blocks ctr (blocks plain)) s)"
    using s2c.seal_packet_eq [OF assms(1), of s plain enc] aes by (simp add: s2c_def)
  ultimately show ?thesis using aes assms(2) by (metis Pair_inject res.inject(1))
qed

lemma srv_send_packet_enc:
  assumes C: "sha_ok C" and run: "srv_send_packet C payload s = (Ok u, s')"
    and kex: "key_exchange_complete s" and pl: "length payload < 2 ^ 31"
  shows "\<exists>plain n enc w dl by. carries plain n payload \<and> rfc_framed 16 payload plain \<and>
    noxtls_aes_encrypt_ctr C (s2c_key s) plain (s2c_counter s) = Some enc \<and>
    tx w = tx (io_user_data s) @ enc @ packet_mac C (s2c_mac_key s) (send_seq s) plain \<and>
    s' = s\<lparr>send_deadline_ms := dl,
            s2c_counter := netnox_ssh_ctr_increment_blocks (s2c_counter s) (blocks plain),
            io_user_data := w, send_seq := send_seq s + 1, encrypted_bytes_sent := by\<rparr>"
proof -
  have ne: "payload \<noteq> []" using run by (auto simp: srv_send_packet_def res_iff)
  obtain now w0 f p pad w1 enc mac s1 s2 s3 where
    now: "srv_now_ms (io_user_data s) = (now, w0)"
    and fr: "frame_packet payload (packet_block_size s) = Ok (f, p)"
    and pad: "srv_fill_random p w0 = (Ok pad, w1)"
    and seal: "seal_packet C s2c (f @ pad) (s\<lparr>send_deadline_ms := now + 10000, io_user_data := w1\<rparr>) =
      (Ok (enc, mac), s1)"
    and sent: "srv_send_all enc s1 = (Ok (), s2)" "srv_send_all mac s2 = (Ok (), s3)"
    and s': "s' = s3\<lparr>send_seq := send_seq s3 + 1, encrypted_bytes_sent :=
               encrypted_bytes_sent s3 + ucast (u32len (f @ pad) + 32)\<rparr>"
    using run kex unfolding srv_send_packet_def Let_def count_sent_def srv_nowM_def
    by (auto simp: res_iff packet_block_size_def split: prod.splits)
  have padlen: "length pad = unat p" and w1: "tx w1 = tx (io_user_data s)"
    using srv_fill_random_Ok [OF pad] now by (auto simp: srv_now_ms_def)
  obtain n where n: "carries (f @ pad) n payload" "rfc_framed 16 payload (f @ pad)"
    using frame_carries [OF ne pl block_size_range fr padlen] frame_framed [OF pl block_size_range fr padlen] kex
    by (auto simp: packet_block_size_def)
  obtain w where "tx w = tx (io_user_data s) @ enc @ packet_mac C (s2c_mac_key s) (send_seq s) (f @ pad)"
    and "s' = s\<lparr>send_deadline_ms := now + 10000,
      s2c_counter := netnox_ssh_ctr_increment_blocks (s2c_counter s) (blocks (f @ pad)),
      io_user_data := w, send_seq := send_seq s + 1, encrypted_bytes_sent :=
        encrypted_bytes_sent s + ucast (u32len (f @ pad) + 32)\<rparr>"
    using seal_packet_run [OF C seal] srv_send_all_Ok [OF sent(1)] srv_send_all_Ok [OF sent(2)] w1 s'
    by auto
  moreover have "noxtls_aes_encrypt_ctr C (s2c_key s) (f @ pad) (s2c_counter s) = Some enc"
    using seal_packet_run [OF C seal] by simp
  ultimately show ?thesis using n by (intro exI conjI)
qed

lemma send_packet_plain:
  assumes run: "netnox_ssh_send_packet C payload c = (Ok u, c')"
    and kex: "\<not> key_exchange_complete c" and pl: "length payload < 2 ^ 31"
  shows "\<exists>packet n w. carries (netnox_ssh_write_u32_be n @ packet) n payload \<and>
    rfc_framed 8 payload (netnox_ssh_write_u32_be n @ packet) \<and>
    tx w = tx (io_user_data c) @ netnox_ssh_write_u32_be n @ packet \<and>
    c' = c\<lparr>io_user_data := w, send_seq := send_seq c + 1\<rparr>"
proof -
  have ne: "payload \<noteq> []" using run by (auto simp: netnox_ssh_send_packet_def res_iff)
  obtain f p pad w1 c2 where
    fr: "frame_packet payload (packet_block_size c) = Ok (f, p)"
    and pad: "netnox_ssh_fill_random p (io_user_data c) = (Ok pad, w1)"
    and sent: "netnox_ssh_send_all (f @ pad) (c\<lparr>io_user_data := w1\<rparr>) = (Ok (), c2)"
    and c': "c' = c2\<lparr>send_seq := send_seq c2 + 1\<rparr>"
    using run kex unfolding netnox_ssh_send_packet_def Let_def count_sent_def
    by (auto simp: res_iff)
  note pad' = fill_random_Ok [OF pad]
  obtain n where n: "carries (f @ pad) n payload"
    "f @ pad = netnox_ssh_write_u32_be n @ drop 4 (f @ pad)"
    using frame_carries [OF ne pl block_size_range fr] pad' by blast
  have r: "rfc_framed 8 payload (f @ pad)"
    using frame_framed [OF pl block_size_range fr, of pad] pad' kex by (auto simp: packet_block_size_def)
  from send_all_Ok [OF sent] pad' c' obtain w where
    "tx w = tx (io_user_data c) @ f @ pad" "c' = c\<lparr>io_user_data := w, send_seq := send_seq c + 1\<rparr>"
    by auto
  with n r show ?thesis by (metis append.assoc)
qed

lemma srv_send_packet_plain:
  assumes run: "srv_send_packet C payload s = (Ok u, s')"
    and kex: "\<not> key_exchange_complete s" and pl: "length payload < 2 ^ 31"
  shows "\<exists>packet n w dl. carries (netnox_ssh_write_u32_be n @ packet) n payload \<and>
    rfc_framed 8 payload (netnox_ssh_write_u32_be n @ packet) \<and>
    tx w = tx (io_user_data s) @ netnox_ssh_write_u32_be n @ packet \<and>
    s' = s\<lparr>send_deadline_ms := dl, io_user_data := w, send_seq := send_seq s + 1\<rparr>"
proof -
  have ne: "payload \<noteq> []" using run by (auto simp: srv_send_packet_def res_iff)
  obtain now w0 f p pad w1 s2 where
    now: "srv_now_ms (io_user_data s) = (now, w0)"
    and fr: "frame_packet payload (packet_block_size s) = Ok (f, p)"
    and pad: "srv_fill_random p w0 = (Ok pad, w1)"
    and sent: "srv_send_all (f @ pad) (s\<lparr>send_deadline_ms := now + 10000, io_user_data := w1\<rparr>) = (Ok (), s2)"
    and s': "s' = s2\<lparr>send_seq := send_seq s2 + 1\<rparr>"
    using run kex unfolding srv_send_packet_def Let_def count_sent_def srv_nowM_def
    by (auto simp: res_iff packet_block_size_def split: prod.splits)
  have pad': "length pad = unat p" "tx w1 = tx (io_user_data s)"
    using srv_fill_random_Ok [OF pad] now by (auto simp: srv_now_ms_def)
  obtain n where n: "carries (f @ pad) n payload"
    "f @ pad = netnox_ssh_write_u32_be n @ drop 4 (f @ pad)"
    using frame_carries [OF ne pl block_size_range fr pad'(1)] by blast
  have r: "rfc_framed 8 payload (f @ pad)"
    using frame_framed [OF pl block_size_range fr pad'(1)] kex by (auto simp: packet_block_size_def)
  from srv_send_all_Ok [OF sent] pad' s' obtain w where
    "tx w = tx (io_user_data s) @ f @ pad"
    "s' = s\<lparr>send_deadline_ms := now + 10000, io_user_data := w, send_seq := send_seq s + 1\<rparr>"
    by auto
  with n r show ?thesis by (metis append.assoc)
qed

text \<open>A payload that does not fit into a packet is refused before anything is sent.\<close>

lemma frame_refused:
  assumes "length payload < 2 ^ 31" "35000 < 1 + length payload + rfc_padding (unat (packet_block_size c)) (length payload)"
  shows "frame_packet payload (packet_block_size c) = Err NETNOX_RETURN_BAD_PARAM"
  using frame_rfc [OF assms(1) block_size_range, of c] assms(2) by (simp add: not_le del: of_nat_add of_nat_Suc)

lemma send_packet_refused:
  assumes "payload \<noteq> []" "length payload < 2 ^ 31"
    "35000 < 1 + length payload + rfc_padding (unat (packet_block_size c)) (length payload)"
  shows "netnox_ssh_send_packet C payload c = (Err NETNOX_RETURN_BAD_PARAM, c)"
  using frame_refused [OF assms(2,3)] by (simp add: netnox_ssh_send_packet_def bindM_def failM_def throwM_def retM_def getM_def liftM_def)

lemma srv_send_packet_refused:
  assumes "payload \<noteq> []" "length payload < 2 ^ 31" "srv_send_packet C payload s = (r, s')"
    "35000 < 1 + length payload + rfc_padding (unat (packet_block_size s)) (length payload)"
  shows "r = Err NETNOX_RETURN_BAD_PARAM \<and> tx (io_user_data s') = tx (io_user_data s)"
proof -
  obtain now w where now: "srv_now_ms (io_user_data s) = (now, w)" "tx w = tx (io_user_data s)" by (simp add: srv_now_ms_def)
  have "packet_block_size (s\<lparr>io_user_data := w, send_deadline_ms := now + 10000\<rparr>) = packet_block_size s"
    by (simp add: packet_block_size_def)
  then show ?thesis
    using frame_refused [OF assms(2,4)] assms(1,3) now
    by (cases "u32len payload = 0"; auto simp: srv_send_packet_def srv_nowM_def ioM_def bindM_def failM_def throwM_def retM_def getM_def setM_def liftM_def)
qed

text \<open>Every packet of the RFC carries its payload.\<close>

lemma framed_carries:
  assumes "rfc_framed b payload plain" "b \<in> {8, 16}" "payload \<noteq> []"
  shows "\<exists>packet. plain = netnox_ssh_write_u32_be (word_of_nat (length plain - 4)) @ packet \<and>
    carries plain (word_of_nat (length plain - 4)) payload"
proof -
  obtain pad where pad: "length pad = rfc_padding b (length payload)" "1 + length payload + length pad \<le> 35000"
    "plain = rfc_packet payload pad" using assms(1) by (auto simp: rfc_framed_def)
  have p: "4 \<le> length pad" "length pad < 256" "(5 + length payload + length pad) mod b = 0"
    using rfc_padding_fills [of b "length payload"] assms(2) pad(1) by auto
  define n :: u32 where "n = word_of_nat (1 + length payload + length pad)"
  have plain: "plain = netnox_ssh_write_u32_be n @ word_of_nat (length pad) # payload @ pad" by (simp add: pad(3) rfc_packet_def n_def)
  have len: "length plain = 5 + length payload + length pad" by (simp add: plain)
  have "unat n = 1 + length payload + length pad" using pad(2) by (simp add: n_def unat_of_nat del: of_nat_add of_nat_Suc)
  then have fr: "framed plain n" using pad(2) by (simp add: framed_def plain)
  have "8 dvd length plain" using p(3) assms(2) unfolding len by (auto simp: mod_eq_0_iff_dvd intro: dvd_trans [of 8 16])
  moreover have "10 \<le> length plain" using p(1) assms(3) unfolding len by (cases payload) auto
  ultimately have "16 \<le> length plain" by presburger
  moreover note fr
  moreover have "packet_payload n (drop 4 plain) m = (if length payload \<le> unat m then Ok payload else Err NETNOX_RETURN_FAILED)" for m
    using packet_payload_framed [OF p(1,2) pad(2) refl, of m] by (simp add: plain n_def)
  moreover have "word_of_nat (length plain - 4) = n" by (simp add: len n_def)
  ultimately show ?thesis using plain unfolding carries_def by auto
qed

section \<open>In-order delivery\<close>

primrec send_msgs :: "(bytes \<Rightarrow> ('a, unit) prog) \<Rightarrow> bytes list \<Rightarrow> ('a, unit) prog" where
  "send_msgs send [] = retM ()"
| "send_msgs send (p # ps) = bindM (send p) (\<lambda>_. send_msgs send ps)"

primrec recv_msgs :: "('b, bytes) prog \<Rightarrow> nat \<Rightarrow> ('b, bytes list) prog" where
  "recv_msgs recv 0 = retM []"
| "recv_msgs recv (Suc n) = bindM recv (\<lambda>p. bindM (recv_msgs recv n) (\<lambda>ps. retM (p # ps)))"

text \<open>
  What one endpoint promises the other: a payload sent by the one is what the next receive of the
  other returns, and the two are again in step.
\<close>

locale packet_channel =
  fixes send :: "bytes \<Rightarrow> ('a, unit) prog" and recv :: "('b, bytes) prog"
    and in_step :: "'a \<Rightarrow> 'b \<Rightarrow> bool" and out :: "'a \<Rightarrow> bytes" and inp :: "'b \<Rightarrow> bytes"
    and fits :: "bytes \<Rightarrow> bool"
  assumes send_extends: "send p a = (Ok u, a') \<Longrightarrow> prefix (out a) (out a')"
    and deliver: "in_step a b \<Longrightarrow> fits p \<Longrightarrow> send p a = (Ok u, a') \<Longrightarrow> out a' = out a @ d \<Longrightarrow>
      inp b = d @ rest \<Longrightarrow> \<exists>b'. recv b = (Ok p, b') \<and> inp b' = rest \<and> in_step a' b'"
begin

lemma send_msgs_extends: "send_msgs send ps a = (Ok u, a') \<Longrightarrow> prefix (out a) (out a')"
  by (induction ps arbitrary: a) (auto simp: res_iff intro: prefix_order.trans dest: send_extends)

lemma delivers_in_order:
  assumes "in_step a b" and "list_all fits ps" and "send_msgs send ps a = (Ok u, a')"
    and "out a' = out a @ d" and "inp b = d @ rest"
  shows "\<exists>b'. recv_msgs recv (length ps) b = (Ok ps, b') \<and> inp b' = rest \<and> in_step a' b'"
  using assms
proof (induction ps arbitrary: a b d)
  case Nil
  then show ?case by (auto simp: res_iff)
next
  case (Cons p ps)
  then obtain a1 where s: "send p a = (Ok (), a1)" and r: "send_msgs send ps a1 = (Ok u, a')"
    by (auto simp: res_iff)
  have fit: "fits p" "list_all fits ps" using Cons.prems(2) by auto
  obtain d1 where d1: "out a1 = out a @ d1"
    using send_extends [OF s] by (auto simp: prefix_def)
  obtain d2 where d2: "out a' = out a1 @ d2"
    using send_msgs_extends [OF r] by (auto simp: prefix_def)
  have d: "d = d1 @ d2" using Cons.prems(4) d1 d2 by simp
  with Cons.prems(5) obtain b1 where
    b1: "recv b = (Ok p, b1)" "inp b1 = d2 @ rest" "in_step a1 b1"
    using deliver [OF Cons.prems(1) fit(1) s d1, of "d2 @ rest"] by auto
  then obtain b' where "recv_msgs recv (length ps) b1 = (Ok ps, b')" "inp b' = rest" "in_step a' b'"
    using Cons.IH [OF b1(3) fit(2) r d2 b1(2)] by blast
  with b1(1) show ?case by (simp add: bindM_def retM_def)
qed

end

definition fits :: "u32 \<Rightarrow> bytes \<Rightarrow> bool" where
  "fits m p \<longleftrightarrow> length p \<le> unat m \<and> length p \<le> 35000"

definition tx_of :: "'z ssh_context_scheme \<Rightarrow> bytes" where
  "tx_of c = tx (io_user_data c)"

definition rx_of :: "'z ssh_context_scheme \<Rightarrow> bytes" where
  "rx_of c = concat (rx (io_user_data c))"

text \<open>Sender and receiver agree on mode, sequence number and, once encrypting, on keys and counter.\<close>

definition in_step_c2s :: "noxtls \<Rightarrow> netnox_ssh_client_t \<Rightarrow> netnox_ssh_server_t \<Rightarrow> bool" where
  "in_step_c2s C c s \<longleftrightarrow> sha_ok C \<and> ctr_ok C \<and>
     key_exchange_complete c = key_exchange_complete s \<and> send_seq c = recv_seq s \<and>
     (key_exchange_complete c \<longrightarrow> c2s_key c = c2s_key s \<and> c2s_mac_key c = c2s_mac_key s \<and>
        c2s_counter c = c2s_counter s \<and> length (c2s_key c) = 16 \<and> length (c2s_counter c) = 16) \<and>
     pending_newkeys c = [] \<and> recv_cb s \<and> [] \<notin> set (rx (io_user_data s)) \<and> srv_timely s"

definition in_step_s2c :: "noxtls \<Rightarrow> netnox_ssh_server_t \<Rightarrow> netnox_ssh_client_t \<Rightarrow> bool" where
  "in_step_s2c C s c \<longleftrightarrow> sha_ok C \<and> ctr_ok C \<and>
     key_exchange_complete s = key_exchange_complete c \<and> send_seq s = recv_seq c \<and>
     (key_exchange_complete s \<longrightarrow> s2c_key s = s2c_key c \<and> s2c_mac_key s = s2c_mac_key c \<and>
        s2c_counter s = s2c_counter c \<and> length (s2c_key s) = 16 \<and> length (s2c_counter s) = 16) \<and>
     recv_cb c \<and> [] \<notin> set (rx (io_user_data c))"

lemma mac_eq_refl: "length m = 32 \<Longrightarrow> srv_equal_mac m m 32"
  by (simp add: srv_equal_mac_iff)

lemma prefix_tx: "always ctx_step (m :: ('z ssh_context_scheme, 'a) prog) \<Longrightarrow>
    m c = (r, c') \<Longrightarrow> prefix (tx_of c) (tx_of c')"
  by (auto dest!: alwaysD simp: ctx_step_def io_step_def tx_of_def)

lemma srv_start:
  assumes "srv_timely s" and "recv_cb s" and "[] \<notin> set (rx (io_user_data s))"
  shows "\<exists>w0 dl. bindM srv_nowM (\<lambda>now. bindM (setM (\<lambda>s. s\<lparr>packet_deadline_ms := now + 10000\<rparr>)) (\<lambda>_. body)) s =
      body (s\<lparr>io_user_data := w0, packet_deadline_ms := dl\<rparr>) \<and>
    srv_ready (s\<lparr>io_user_data := w0, packet_deadline_ms := dl\<rparr>) \<and> rx w0 = rx (io_user_data s)"
proof -
  let ?w = "io_user_data s"
  let ?dl = "clock_ms ?w (clock_pos ?w) + 10000"
  let ?v = "?w\<lparr>clock_pos := Suc (clock_pos ?w)\<rparr>"
  have "open_guard (srv_in_time ?dl (session_started s) (handshake_deadline_ms s)) ?v"
    using srv_timely_open [OF assms(1), of "clock_pos ?w"] by (simp add: open_guard_def srv_in_time_def)
  then have "srv_ready (s\<lparr>io_user_data := ?v, packet_deadline_ms := ?dl\<rparr>)"
    using assms(2,3) by (simp add: srv_ready_def)
  moreover have "bindM srv_nowM (\<lambda>now. bindM (setM (\<lambda>s. s\<lparr>packet_deadline_ms := now + 10000\<rparr>)) (\<lambda>_. body)) s =
      body (s\<lparr>io_user_data := ?v, packet_deadline_ms := ?dl\<rparr>)"
    by (simp add: bindM_def srv_nowM_def ioM_def srv_now_ms_def setM_def)
  ultimately show ?thesis by (intro exI [of _ ?v] exI [of _ ?dl]) simp
qed

lemma srv_recv_enc_delivers:
  assumes C: "sha_ok C" "ctr_ok C" and kex: "key_exchange_complete s"
    and rdy: "srv_timely s" "recv_cb s" "[] \<notin> set (rx (io_user_data s))"
    and lens: "length (c2s_key s) = 16" "length (c2s_counter s) = 16"
    and plain: "carries plain n p" "length p \<le> unat m"
    and enc: "noxtls_aes_encrypt_ctr C (c2s_key s) plain (c2s_counter s) = Some enc"
    and rx: "rx_of s = enc @ packet_mac C (c2s_mac_key s) (recv_seq s) plain @ rest"
  shows "\<exists>w dl eb. srv_recv_packet C m s = (Ok p,
      s\<lparr>packet_deadline_ms := dl,
        c2s_counter := netnox_ssh_ctr_increment_blocks (c2s_counter s) (blocks plain), io_user_data := w, recv_seq := recv_seq s + 1,
        encrypted_bytes_recv := eb\<rparr>) \<and> concat (rx w) = rest \<and> [] \<notin> set (rx w)"
proof -
  obtain w0 dl where s0: "srv_recv_packet C m s = srv_recv_body C m (s\<lparr>io_user_data := w0, packet_deadline_ms := dl\<rparr>)"
    "srv_ready (s\<lparr>io_user_data := w0, packet_deadline_ms := dl\<rparr>)" "rx w0 = rx (io_user_data s)"
    using srv_start [OF rdy, of "srv_recv_body C m"] unfolding srv_recv_packet_def by blast
  let ?s0 = "s\<lparr>io_user_data := w0, packet_deadline_ms := dl\<rparr>"
  have "\<exists>w. open_packet C c2s srv_recv_exact (\<lambda>a b. srv_equal_mac a b 32) ?s0 = (Ok (n, plain),
      (dir_set_counter c2s (\<lambda>ctr. netnox_ssh_ctr_increment_blocks ctr (blocks plain)) ?s0)
        \<lparr>io_user_data := w, recv_seq := recv_seq ?s0 + 1\<rparr>) \<and> concat (rx w) = rest \<and>
    srv_ready (?s0\<lparr>io_user_data := w\<rparr>)"
    using C lens plain enc rx s0(2,3)
    by (intro srv_recv.open_packet_delivers) (auto simp: carries_def rx_of_def mac_eq_refl)
  then obtain w where w: "open_packet C c2s srv_recv_exact (\<lambda>a b. srv_equal_mac a b 32) ?s0 =
      (Ok (n, plain), s\<lparr>packet_deadline_ms := dl,
        c2s_counter := netnox_ssh_ctr_increment_blocks (c2s_counter s) (blocks plain), io_user_data := w, recv_seq := recv_seq s + 1\<rparr>)"
    "concat (rx w) = rest" "[] \<notin> set (rx w)"
    by (auto simp: srv_ready_def)
  have "srv_recv_packet C m s = (Ok p,
      s\<lparr>packet_deadline_ms := dl,
        c2s_counter := netnox_ssh_ctr_increment_blocks (c2s_counter s) (blocks plain), io_user_data := w, recv_seq := recv_seq s + 1,
        encrypted_bytes_recv := encrypted_bytes_recv s + ucast (4 + n + 32)\<rparr>)"
    using plain kex unfolding s0(1)
    by (simp add: srv_recv_body_def ifM_def bindM_def w(1) setM_def liftM_def carries_def)
  with w(2,3) show ?thesis by (intro exI conjI)
qed

lemma srv_recv_plain_delivers:
  assumes kex: "\<not> key_exchange_complete s"
    and rdy: "srv_timely s" "recv_cb s" "[] \<notin> set (rx (io_user_data s))"
    and plain: "carries (netnox_ssh_write_u32_be n @ packet) n p" "length p \<le> unat m"
    and rx: "rx_of s = netnox_ssh_write_u32_be n @ packet @ rest"
  shows "\<exists>w dl. srv_recv_packet C m s = (Ok p,
      s\<lparr>packet_deadline_ms := dl, io_user_data := w, recv_seq := recv_seq s + 1\<rparr>) \<and>
    concat (rx w) = rest \<and> [] \<notin> set (rx w)"
proof -
  obtain w0 dl where s0: "srv_recv_packet C m s = srv_recv_body C m (s\<lparr>io_user_data := w0, packet_deadline_ms := dl\<rparr>)"
    "srv_ready (s\<lparr>io_user_data := w0, packet_deadline_ms := dl\<rparr>)" "rx w0 = rx (io_user_data s)"
    using srv_start [OF rdy, of "srv_recv_body C m"] unfolding srv_recv_packet_def by blast
  let ?s0 = "s\<lparr>io_user_data := w0, packet_deadline_ms := dl\<rparr>"
  have "\<exists>w. recv_plain_packet srv_recv_exact m ?s0 =
      (Ok p, ?s0\<lparr>io_user_data := w, recv_seq := recv_seq ?s0 + 1\<rparr>) \<and>
    concat (rx w) = rest \<and> srv_ready (?s0\<lparr>io_user_data := w\<rparr>)"
    using plain rx s0(2,3)
    by (intro srv_recv.recv_plain_delivers [of _ n packet]) (auto simp: carries_def rx_of_def framed_def)
  then obtain w where w: "recv_plain_packet srv_recv_exact m ?s0 =
      (Ok p, s\<lparr>packet_deadline_ms := dl, io_user_data := w, recv_seq := recv_seq s + 1\<rparr>)"
    "concat (rx w) = rest" "[] \<notin> set (rx w)"
    by (auto simp: srv_ready_def)
  have "srv_recv_packet C m s = (Ok p,
      s\<lparr>packet_deadline_ms := dl, io_user_data := w, recv_seq := recv_seq s + 1\<rparr>)"
    using kex unfolding s0(1) by (simp add: srv_recv_body_def ifM_def w(1))
  with w(2,3) show ?thesis by (intro exI conjI)
qed

lemma srv_timely_step:
  "srv_timely s \<Longrightarrow> srv_recv_packet C m s = (r, s') \<Longrightarrow> session_started s' = session_started s \<Longrightarrow>
    handshake_deadline_ms s' = handshake_deadline_ms s \<Longrightarrow> srv_timely s'"
  using alwaysD [OF always_srv_recv_packet, of C m s r s']
  by (auto simp: srv_timely_def ctx_step_def io_step_def)

lemma srv_recv_delivers:
  assumes sync: "in_step_c2s C c s" and fit: "fits m p"
    and send: "netnox_ssh_send_packet C p c = (Ok u, c')"
    and d: "tx_of c' = tx_of c @ d" and rx: "rx_of s = d @ rest"
  shows "\<exists>s'. srv_recv_packet C m s = (Ok p, s') \<and> rx_of s' = rest \<and> in_step_c2s C c' s'"
proof -
  have C: "sha_ok C" "ctr_ok C" and pl: "length p < 2 ^ 31" and fit: "length p \<le> unat m"
    and rdy: "srv_timely s" "recv_cb s" "[] \<notin> set (rx (io_user_data s))"
    and pend: "pending_newkeys c = []" and seqs: "send_seq c = recv_seq s"
    and kexs: "key_exchange_complete c = key_exchange_complete s"
    using sync fit by (auto simp: in_step_c2s_def fits_def)
  show ?thesis
  proof (cases "key_exchange_complete c")
    case True
    with sync have keys: "c2s_key c = c2s_key s" "c2s_mac_key c = c2s_mac_key s"
      "c2s_counter c = c2s_counter s" "length (c2s_key s) = 16" "length (c2s_counter s) = 16"
      by (auto simp: in_step_c2s_def)
    have pend': "length (pending_newkeys c) < 2 ^ 32" using pend by simp
    from send_packet_enc [OF C(1) send True pend' pl, unfolded pend append_Nil] obtain plain n enc w where
      plain: "carries plain n p"
      and enc: "noxtls_aes_encrypt_ctr C (c2s_key c) plain (c2s_counter c) = Some enc"
      and tx: "tx w = tx (io_user_data c) @ enc @ packet_mac C (c2s_mac_key c) (send_seq c) plain"
      and c': "c' = c\<lparr>c2s_counter := netnox_ssh_ctr_increment_blocks (c2s_counter c) (blocks plain),
            pending_newkeys := [], io_user_data := w, send_seq := send_seq c + 1\<rparr>"
      by blast
    have "rx_of s = enc @ packet_mac C (c2s_mac_key s) (recv_seq s) plain @ rest"
      using tx c' d rx keys seqs by (simp add: tx_of_def)
    with srv_recv_enc_delivers [OF C _ rdy keys(4,5) plain fit, of enc rest] enc keys kexs True
    obtain w' dl eb where run: "srv_recv_packet C m s = (Ok p, s\<lparr>packet_deadline_ms := dl,
        c2s_counter := netnox_ssh_ctr_increment_blocks (c2s_counter s) (blocks plain),
        io_user_data := w', recv_seq := recv_seq s + 1, encrypted_bytes_recv := eb\<rparr>)"
      "concat (rx w') = rest" "[] \<notin> set (rx w')" by auto
    with C rdy srv_timely_step [OF rdy(1) run(1)] keys seqs kexs True c' show ?thesis
      by (simp add: rx_of_def in_step_c2s_def)
  next
    case False
    from send_packet_plain [OF send False pl] obtain packet n w where
      plain: "carries (netnox_ssh_write_u32_be n @ packet) n p"
      and tx: "tx w = tx (io_user_data c) @ netnox_ssh_write_u32_be n @ packet"
      and c': "c' = c\<lparr>io_user_data := w, send_seq := send_seq c + 1\<rparr>" by blast
    have "rx_of s = netnox_ssh_write_u32_be n @ packet @ rest"
      using tx c' d rx by (simp add: tx_of_def)
    with srv_recv_plain_delivers [OF _ rdy plain fit, of rest C] kexs False
    obtain w' dl where run: "srv_recv_packet C m s = (Ok p,
        s\<lparr>packet_deadline_ms := dl, io_user_data := w', recv_seq := recv_seq s + 1\<rparr>)"
      "concat (rx w') = rest" "[] \<notin> set (rx w')" by auto
    with C rdy srv_timely_step [OF rdy(1) run(1)] seqs kexs pend False c' show ?thesis
      by (simp add: rx_of_def in_step_c2s_def)
  qed
qed

interpretation c2s_channel: packet_channel "netnox_ssh_send_packet C" "srv_recv_packet C m"
  "in_step_c2s C" tx_of rx_of "fits m" for C m
  by unfold_locales (auto intro: prefix_tx [OF always_send_packet] srv_recv_delivers)

lemma cli_recv_enc_delivers:
  assumes C: "sha_ok C" "ctr_ok C" and kex: "key_exchange_complete c"
    and rdy: "cli_ready c"
    and lens: "length (s2c_key c) = 16" "length (s2c_counter c) = 16"
    and plain: "carries plain n p" "length p \<le> unat m"
    and enc: "noxtls_aes_encrypt_ctr C (s2c_key c) plain (s2c_counter c) = Some enc"
    and rx: "rx_of c = enc @ packet_mac C (s2c_mac_key c) (recv_seq c) plain @ rest"
  shows "\<exists>w. netnox_ssh_recv_packet C m c = (Ok p,
      c\<lparr>s2c_counter := netnox_ssh_ctr_increment_blocks (s2c_counter c) (blocks plain),
        io_user_data := w, recv_seq := recv_seq c + 1\<rparr>) \<and> concat (rx w) = rest \<and> [] \<notin> set (rx w)"
proof -
  have "\<exists>w. open_packet C s2c netnox_ssh_recv_exact (\<lambda>a b. take 32 a = take 32 b) c = (Ok (n, plain),
      (dir_set_counter s2c (\<lambda>ctr. netnox_ssh_ctr_increment_blocks ctr (blocks plain)) c)
        \<lparr>io_user_data := w, recv_seq := recv_seq c + 1\<rparr>) \<and> concat (rx w) = rest \<and>
    cli_ready (c\<lparr>io_user_data := w\<rparr>)"
    using C lens plain enc rx rdy
    by (intro cli_recv.open_packet_delivers) (auto simp: carries_def rx_of_def)
  with plain kex show ?thesis
    by (auto simp: netnox_ssh_recv_packet_def ifM_def bindM_def liftM_def carries_def cli_ready_def)
qed

lemma cli_recv_plain_delivers:
  assumes kex: "\<not> key_exchange_complete c" and rdy: "cli_ready c"
    and plain: "carries (netnox_ssh_write_u32_be n @ packet) n p" "length p \<le> unat m"
    and rx: "rx_of c = netnox_ssh_write_u32_be n @ packet @ rest"
  shows "\<exists>w. netnox_ssh_recv_packet C m c = (Ok p,
      c\<lparr>io_user_data := w, recv_seq := recv_seq c + 1\<rparr>) \<and> concat (rx w) = rest \<and> [] \<notin> set (rx w)"
proof -
  have "\<exists>w. recv_plain_packet netnox_ssh_recv_exact m c =
      (Ok p, c\<lparr>io_user_data := w, recv_seq := recv_seq c + 1\<rparr>) \<and>
    concat (rx w) = rest \<and> cli_ready (c\<lparr>io_user_data := w\<rparr>)"
    using plain rx rdy
    by (intro cli_recv.recv_plain_delivers [of _ n packet]) (auto simp: carries_def rx_of_def framed_def)
  with kex show ?thesis by (auto simp: netnox_ssh_recv_packet_def ifM_def cli_ready_def)
qed

lemma cli_recv_delivers:
  assumes sync: "in_step_s2c C s c" and fit: "fits m p"
    and send: "srv_send_packet C p s = (Ok u, s')"
    and d: "tx_of s' = tx_of s @ d" and rx: "rx_of c = d @ rest"
  shows "\<exists>c'. netnox_ssh_recv_packet C m c = (Ok p, c') \<and> rx_of c' = rest \<and> in_step_s2c C s' c'"
proof -
  have C: "sha_ok C" "ctr_ok C" and pl: "length p < 2 ^ 31" and fit: "length p \<le> unat m"
    and rdy: "cli_ready c" and seqs: "send_seq s = recv_seq c"
    and kexs: "key_exchange_complete s = key_exchange_complete c"
    using sync fit by (auto simp: in_step_s2c_def fits_def cli_ready_def)
  show ?thesis
  proof (cases "key_exchange_complete s")
    case True
    with sync have keys: "s2c_key s = s2c_key c" "s2c_mac_key s = s2c_mac_key c"
      "s2c_counter s = s2c_counter c" "length (s2c_key c) = 16" "length (s2c_counter c) = 16"
      by (auto simp: in_step_s2c_def)
    from srv_send_packet_enc [OF C(1) send True pl] obtain plain n enc w dl eb where
      plain: "carries plain n p"
      and enc: "noxtls_aes_encrypt_ctr C (s2c_key s) plain (s2c_counter s) = Some enc"
      and tx: "tx w = tx (io_user_data s) @ enc @ packet_mac C (s2c_mac_key s) (send_seq s) plain"
      and s': "s' = s\<lparr>send_deadline_ms := dl,
            s2c_counter := netnox_ssh_ctr_increment_blocks (s2c_counter s) (blocks plain),
            io_user_data := w, send_seq := send_seq s + 1, encrypted_bytes_sent := eb\<rparr>"
      by blast
    have "rx_of c = enc @ packet_mac C (s2c_mac_key c) (recv_seq c) plain @ rest"
      using tx s' d rx keys seqs by (simp add: tx_of_def)
    with cli_recv_enc_delivers [OF C _ rdy keys(4,5) plain fit, of enc rest] enc keys kexs True
      C rdy seqs s' show ?thesis
      by (auto simp: rx_of_def in_step_s2c_def cli_ready_def)
  next
    case False
    from srv_send_packet_plain [OF send False pl] obtain packet n w dl where
      plain: "carries (netnox_ssh_write_u32_be n @ packet) n p"
      and tx: "tx w = tx (io_user_data s) @ netnox_ssh_write_u32_be n @ packet"
      and s': "s' = s\<lparr>send_deadline_ms := dl, io_user_data := w, send_seq := send_seq s + 1\<rparr>" by blast
    have "rx_of c = netnox_ssh_write_u32_be n @ packet @ rest"
      using tx s' d rx by (simp add: tx_of_def)
    with cli_recv_plain_delivers [OF _ rdy plain fit, of rest C] kexs False
      C rdy seqs s' show ?thesis
      by (auto simp: rx_of_def in_step_s2c_def cli_ready_def)
  qed
qed

interpretation s2c_channel: packet_channel "srv_send_packet C" "netnox_ssh_recv_packet C m"
  "in_step_s2c C" tx_of rx_of "fits m" for C m
  by unfold_locales (auto intro: prefix_tx [OF always_srv_send_packet] cli_recv_delivers)

section \<open>One packet on the wire\<close>

definition sent_as :: "noxtls \<Rightarrow> 'z direction \<Rightarrow> 'z ssh_context_scheme \<Rightarrow> bytes \<Rightarrow> bytes \<Rightarrow> bool" where
  "sent_as C d c payload out \<longleftrightarrow>
     (if key_exchange_complete c
      then \<exists>plain enc. rfc_framed 16 payload plain \<and>
        noxtls_aes_encrypt_ctr C (dir_key d c) plain (dir_counter d c) = Some enc \<and>
        out = enc @ packet_mac C (dir_mac_key d c) (send_seq c) plain
      else rfc_framed 8 payload out)"

lemma cli_sends:
  assumes "sha_ok C" "length payload < 2 ^ 31" "length (pending_newkeys c) < 2 ^ 32"
    "netnox_ssh_send_packet C payload c = (Ok u, c')"
  shows "\<exists>out. sent_as C c2s c payload out \<and>
    tx_of c' = tx_of c @ (if key_exchange_complete c then pending_newkeys c else []) @ out"
proof (cases "key_exchange_complete c")
  case True
  from send_packet_enc [OF assms(1,4) True assms(3,2)] show ?thesis
    using True by (auto simp: sent_as_def tx_of_def c2s_def) blast
next
  case False
  from send_packet_plain [OF assms(4) False assms(2)] show ?thesis
    using False by (auto simp: sent_as_def tx_of_def)
qed

lemma srv_sends:
  assumes "sha_ok C" "length payload < 2 ^ 31" "srv_send_packet C payload s = (Ok u, s')"
  shows "\<exists>out. sent_as C s2c s payload out \<and> tx_of s' = tx_of s @ out"
proof (cases "key_exchange_complete s")
  case True
  from srv_send_packet_enc [OF assms(1,3) True assms(2)] show ?thesis
    using True by (auto simp: sent_as_def tx_of_def s2c_def) blast
next
  case False
  from srv_send_packet_plain [OF assms(3) False assms(2)] show ?thesis
    using False by (auto simp: sent_as_def tx_of_def)
qed

lemma cli_reads:
  assumes "rfc_framed 8 payload plain" "payload \<noteq> []" "length payload \<le> unat m"
    and "\<not> key_exchange_complete c" "cli_ready c" "rx_of c = plain @ rest"
  shows "\<exists>c'. netnox_ssh_recv_packet C m c = (Ok payload, c') \<and> rx_of c' = rest"
proof -
  obtain packet where p: "plain = netnox_ssh_write_u32_be (word_of_nat (length plain - 4)) @ packet"
    "carries plain (word_of_nat (length plain - 4)) payload" using framed_carries [OF assms(1) _ assms(2)] by auto
  then show ?thesis
    using cli_recv_plain_delivers [OF assms(4,5), of "word_of_nat (length plain - 4)" packet payload m rest C] assms(3,6)
    by (auto simp: rx_of_def)
qed

lemma srv_reads:
  assumes "rfc_framed 8 payload plain" "payload \<noteq> []" "length payload \<le> unat m"
    and "\<not> key_exchange_complete s" "recv_cb s" "srv_timely s" "[] \<notin> set (rx (io_user_data s))" "rx_of s = plain @ rest"
  shows "\<exists>s'. srv_recv_packet C m s = (Ok payload, s') \<and> rx_of s' = rest"
proof -
  obtain packet where p: "plain = netnox_ssh_write_u32_be (word_of_nat (length plain - 4)) @ packet"
    "carries plain (word_of_nat (length plain - 4)) payload" using framed_carries [OF assms(1) _ assms(2)] by auto
  then show ?thesis
    using srv_recv_plain_delivers [OF assms(4,6,5,7), of "word_of_nat (length plain - 4)" packet payload m rest C] assms(3,8)
    by (auto simp: rx_of_def)
qed

section \<open>Authenticity and memory safety\<close>

text \<open>The rest of what the receive functions need of \<open>recv_exact\<close>, without assuming it succeeds.\<close>

lemma short_underflow:
  assumes "\<not> n < 1 + 4" and "\<not> n > (35000 :: u32)"
  shows "unat (4 + n - 16) = (if 12 \<le> unat n then unat n - 12 else unat n + (2 ^ 32 - 12))"
proof (cases "12 \<le> unat n")
  case True
  then have "unat (n - 12) = unat n - unat (12 :: u32)"
    by (intro unat_sub) (simp add: word_le_nat_alt)
  with True show ?thesis by simp
next
  case False
  have "4 + n - 16 = n + word_of_nat (2 ^ 32 - 12)" by simp
  then have "unat (4 + n - 16) = unat n + (2 ^ 32 - 12)"
    using False by (simp only: unat_word_ariths) (simp add: unat_of_nat)
  with False show ?thesis by simp
qed

locale bounded_receiver = receiver d rcv ready
  for d :: "'z direction" and rcv and ready +
  assumes rcv_Ok: "rcv n room c = (Ok x, c') \<Longrightarrow> \<exists>w. c' = c\<lparr>io_user_data := w\<rparr> \<and>
      length x = unat n \<and> length x \<le> unat room \<and> concat (rx (io_user_data c)) = x @ concat (rx w)"
    and rcv_Fault: "rcv n room c = (Fault, c') \<Longrightarrow>
      unat room < unat n \<and> unat room < length (concat (rx (io_user_data c)))"
    and rcv_overrun: "ready c \<Longrightarrow> unat room < unat n \<Longrightarrow> unat room < length (concat (rx (io_user_data c))) \<Longrightarrow>
      fst (rcv n room c) = Fault"
begin

text \<open>Only a packet whose MAC was computed over its decrypted content is accepted.\<close>

lemma open_packet_authentic:
  assumes C: "sha_ok C" and run: "open_packet C d rcv eq c = (Ok (n, plain), c')"
  shows "\<exists>enc mac. rx_of c = enc @ mac @ rx_of c' \<and> length enc = length plain \<and> length mac = 32 \<and>
    framed plain n \<and> eq (packet_mac C (dir_mac_key d c) (recv_seq c) plain) mac \<and>
    recv_seq c' = recv_seq c + 1"
proof -
  obtain enc0 plain0 enc1 plain1 mac c1 c2 c3 where
    r0: "rcv 16 35004 c = (Ok enc0, c1)" 
    and a0: "aesM C d enc0 c1 = (Ok plain0, c1)"
    and rd: "netnox_ssh_read_u32_be plain0 = Ok n" and range: "\<not> n < 1 + 4" "\<not> n > 35000"
    and r1: "rcv (4 + n - 16) (35004 - 16) (dir_set_counter d (\<lambda>ctr. netnox_ssh_ctr_increment_blocks ctr 1) c1) = (Ok enc1, c2)"
    and a1: "aesM C d enc1 c2 = (Ok plain1, c2)"
    and r2: "rcv 32 32 (dir_set_counter d (\<lambda>ctr. netnox_ssh_ctr_increment_blocks ctr
        ((4 + n + 16 - 1) div 16 - 1)) c2) = (Ok mac, c3)"
    and pl: "fetch (plain0 @ plain1) (unat (4 + n)) = Ok plain"
    and eq: "eq (packet_mac C (dir_mac_key d c3) (recv_seq c3) plain) mac"
    and c': "c' = c3\<lparr>recv_seq := recv_seq c3 + 1\<rparr>"
    using run unfolding open_packet_def open_first_block_def open_other_blocks_def Let_def advanceM_def
      macM_def hmac_sha256_eq [OF C] packet_mac_def [symmetric]
    by (auto simp: res_iff aesM_def split: option.splits)
  obtain w1 w2 w3 where
    c1: "c1 = c\<lparr>io_user_data := w1\<rparr>" "length enc0 = 16" "rx_of c = enc0 @ concat (rx w1)" and
    c2: "c2 = (dir_set_counter d (\<lambda>ctr. netnox_ssh_ctr_increment_blocks ctr 1) c1)\<lparr>io_user_data := w2\<rparr>"
      "length enc1 = unat (4 + n - 16)" "length enc1 \<le> 35004 - 16" "concat (rx w1) = enc1 @ concat (rx w2)" and
    c3: "c3 = (dir_set_counter d (\<lambda>ctr. netnox_ssh_ctr_increment_blocks ctr
        ((4 + n + 16 - 1) div 16 - 1)) c2)\<lparr>io_user_data := w3\<rparr>" "length mac = 32" "concat (rx w2) = mac @ concat (rx w3)"
    using rcv_Ok [OF r0] rcv_Ok [OF r1] rcv_Ok [OF r2] by (auto simp: others rx_of_def)
  have flds: "dir_mac_key d c3 = dir_mac_key d c" "recv_seq c3 = recv_seq c" "rx_of c' = concat (rx w3)"
    unfolding c' c3(1) c2(1) c1(1) by (simp_all add: frames rx_of_def)
  have n: "unat (4 + n) = 4 + unat n" "unat n \<le> 35000"
    using range by (simp_all add: unat_word_ariths word_less_nat_alt)
  have "12 \<le> unat n"
    using short_underflow [OF range] c2(2,3) by (cases "12 \<le> unat n") simp_all
  then have "length enc1 = unat n - 12" using c2(2) by (simp add: unat_sub word_le_nat_alt)
  moreover have "length plain = 4 + unat n" "netnox_ssh_read_u32_be plain = Ok n"
    using pl n rd by (auto simp: res_iff read_u32_be_write)
  ultimately show ?thesis
    using c1 c2 c3 flds eq n \<open>12 \<le> unat n\<close>
    by (intro exI [of _ "enc0 @ enc1"] exI [of _ mac]) (auto simp: framed_def c')
qed

text \<open>With the keys in place and AES-CTR as documented, what was authenticated is the decryption.\<close>

lemma open_packet_decrypts:
  assumes C: "ctr_ok C" and lens: "length (dir_key d c) = 16" "length (dir_counter d c) = 16"
    and run: "open_packet C d rcv eq c = (Ok (n, plain), c')"
  shows "noxtls_aes_encrypt_ctr C (dir_key d c) (take (length plain) (rx_of c)) (dir_counter d c) =
    Some plain"
proof -
  let ?inc = "netnox_ssh_ctr_increment_blocks"
  obtain enc0 plain0 enc1 plain1 c1 c2 where
    r0: "rcv 16 35004 c = (Ok enc0, c1)" and a0: "aesM C d enc0 c1 = (Ok plain0, c1)"
    and range: "\<not> n < 1 + 4" "\<not> n > 35000"
    and r1: "rcv (4 + n - 16) (35004 - 16) (dir_set_counter d (\<lambda>ctr. ?inc ctr 1) c1) = (Ok enc1, c2)"
    and a1: "aesM C d enc1 c2 = (Ok plain1, c2)"
    and pl: "fetch (plain0 @ plain1) (unat (4 + n)) = Ok plain"
    using run unfolding open_packet_def open_first_block_def open_other_blocks_def Let_def advanceM_def
    by (auto simp: res_iff aesM_def split: option.splits)
  obtain w1 w2 where c1: "c1 = c\<lparr>io_user_data := w1\<rparr>" "length enc0 = 16" "rx_of c = enc0 @ concat (rx w1)"
    and c2: "c2 = (dir_set_counter d (\<lambda>ctr. ?inc ctr 1) c1)\<lparr>io_user_data := w2\<rparr>"
      "length enc1 = unat (4 + n - 16)" "length enc1 \<le> 35004 - 16" "concat (rx w1) = enc1 @ concat (rx w2)"
    using rcv_Ok [OF r0] rcv_Ok [OF r1] by (auto simp: others rx_of_def)
  have e0: "noxtls_aes_encrypt_ctr C (dir_key d c) enc0 (dir_counter d c) = Some plain0"
    using a0 c1 by (auto simp: aesM_def frames split: option.splits)
  have e1: "noxtls_aes_encrypt_ctr C (dir_key d c) enc1 (?inc (dir_counter d c) 1) = Some plain1"
    using a1 c1 c2 by (auto simp: aesM_def frames split: option.splits)
  have "length plain0 = 16" using aes_total [OF C lens, of enc0] e0 c1(2) by auto
  moreover have "length plain1 = length enc1"
    using aes_total [OF C lens(1), of "?inc (dir_counter d c) 1" enc1] e1 lens(2) by auto
  moreover have "12 \<le> unat n"
    using short_underflow [OF range] c2(2,3) by (cases "12 \<le> unat n") simp_all
  moreover have "unat (4 + n) = 4 + unat n"
    using range by (simp add: unat_word_ariths word_less_nat_alt)
  ultimately have "plain = plain0 @ plain1" "length plain = length (enc0 @ enc1)"
    using pl c1(2) c2(2) short_underflow [OF range] by (auto simp: res_iff)
  moreover have "noxtls_aes_encrypt_ctr C (dir_key d c) (enc0 @ enc1) (dir_counter d c) = Some (plain0 @ plain1)"
    using C lens c1(2) e0 e1 unfolding ctr_ok_def by blast
  ultimately show ?thesis using c1(3) c2(4) by simp
qed

lemma open_first_block_no_fault:
  assumes "ctr_ok C" and "length (dir_key d c) = 16" and "length (dir_counter d c) = 16"
  shows "open_first_block C d rcv c \<noteq> (Fault, c')"
proof
  assume "open_first_block C d rcv c = (Fault, c')"
  then consider "rcv 16 35004 c = (Fault, c')"
    | enc0 c1 where "rcv 16 35004 c = (Ok enc0, c1)" "aesM C d enc0 c1 = (Fault, c')"
    | enc0 c1 plain0 c2 where "rcv 16 35004 c = (Ok enc0, c1)" "aesM C d enc0 c1 = (Ok plain0, c2)"
      "netnox_ssh_read_u32_be plain0 = Fault"
    unfolding open_first_block_def advanceM_def by (auto simp: fault_iff res_iff)
  then show False
  proof cases
    case 1
    then show False using rcv_Fault by fastforce
  next
    case 2
    then show False by (auto simp: aesM_def split: option.splits)
  next
    case 3
    from rcv_Ok [OF 3(1)] obtain w where c1: "c1 = c\<lparr>io_user_data := w\<rparr>" "length enc0 = 16" by auto
    have "length plain0 = 16"
      using 3(2) aes_total [OF assms, of enc0] c1 by (auto simp: aesM_def frames split: option.splits)
    then show False using 3(3) read_u32_be_total [of plain0] by auto
  qed
qed

end

text \<open>Exactly when the encrypted branch runs over its buffer.\<close>

definition overrun :: "'z direction \<Rightarrow> noxtls \<Rightarrow> 'z ssh_context_scheme \<Rightarrow> bool" where
  "overrun d C c \<longleftrightarrow> (\<exists>enc0 rest plain0 n. rx_of c = enc0 @ rest \<and> length enc0 = 16 \<and>
     noxtls_aes_encrypt_ctr C (dir_key d c) enc0 (dir_counter d c) = Some plain0 \<and>
     netnox_ssh_read_u32_be plain0 = Ok n \<and> 5 \<le> unat n \<and> unat n < 12 \<and> 34988 < length rest)"

context bounded_receiver
begin

text \<open>The second part can only fault when the announced length is too short for one block.\<close>

lemma open_other_blocks_fault:
  assumes C: "sha_ok C" "ctr_ok C" and lens: "length (dir_key d c) = 16" "length (dir_counter d c) = 16"
    and plain0: "length plain0 = 16" and range: "\<not> n < 1 + 4" "\<not> n > 35000"
    and run: "open_other_blocks C d rcv eq n plain0 c = (Fault, c')"
  shows "unat n < 12 \<and> 34988 < length (rx_of c)"
proof (rule ccontr)
  assume not: "\<not> (unat n < 12 \<and> 34988 < length (rx_of c))"
  have r1: "rcv (4 + n - 16) (35004 - 16) c \<noteq> (Fault, c'')" for c''
    using rcv_Fault [of "4 + n - 16" "35004 - 16" c c''] not short_underflow [OF range] range
    by (auto simp: rx_of_def word_less_nat_alt)
  have r2: "rcv 32 32 c1 \<noteq> (Fault, c'')" for c1 c''
    using rcv_Fault [of 32 32 c1 c''] by auto
  have a: "aesM C d x c1 \<noteq> (Fault, c'')" for x c1 c''
    by (auto simp: aesM_def split: option.splits)
  have m: "macM C d q x c1 \<noteq> (Fault, c'')" for q x c1 c''
    by (simp add: macM_def hmac_sha256_eq [OF C(1)])
  from run r1 r2 a m obtain enc1 c1 plain1 c2 where
    rcv1: "rcv (4 + n - 16) (35004 - 16) c = (Ok enc1, c1)" and aes: "aesM C d enc1 c1 = (Ok plain1, c2)"
    and f: "fetch (plain0 @ plain1) (unat (4 + n)) = Fault"
    unfolding open_other_blocks_def Let_def advanceM_def by (auto simp: fault_iff res_iff)
  from rcv_Ok [OF rcv1] obtain w where c1: "c1 = c\<lparr>io_user_data := w\<rparr>"
    "length enc1 = unat (4 + n - 16)" by auto
  have "length plain1 = length enc1"
    using aes aes_total [OF C(2) lens, of enc1] c1 by (auto simp: aesM_def frames split: option.splits)
  moreover have "unat (4 + n) = 4 + unat n"
    using range by (simp add: unat_word_ariths word_less_nat_alt)
  ultimately show False
    using f c1(2) plain0 short_underflow [OF range] by (auto simp: fetch_def split: if_splits)
qed

lemma open_packet_fault:
  assumes C: "sha_ok C" "ctr_ok C" and lens: "length (dir_key d c) = 16" "length (dir_counter d c) = 16"
    and run: "open_packet C d rcv eq c = (Fault, c')"
  shows "overrun d C c"
proof -
  from run open_first_block_no_fault [OF C(2) lens] obtain n plain0 c1 where
    first: "open_first_block C d rcv c = (Ok (n, plain0), c1)" and
    other: "open_other_blocks C d rcv eq n plain0 c1 = (Fault, c')"
    unfolding open_packet_def by (auto simp: fault_iff)
  from first obtain enc0 c0 where r: "rcv 16 35004 c = (Ok enc0, c0)"
    and a: "aesM C d enc0 c0 = (Ok plain0, c0)"
    and rd: "netnox_ssh_read_u32_be plain0 = Ok n" and range: "\<not> n < 1 + 4" "\<not> n > 35000"
    and c1: "c1 = dir_set_counter d (\<lambda>ctr. netnox_ssh_ctr_increment_blocks ctr 1) c0"
    unfolding open_first_block_def advanceM_def by (auto simp: res_iff aesM_def split: option.splits)
  from rcv_Ok [OF r] obtain w where w: "c0 = c\<lparr>io_user_data := w\<rparr>" "length enc0 = 16"
    "rx_of c = enc0 @ concat (rx w)" by (auto simp: rx_of_def)
  have aes: "noxtls_aes_encrypt_ctr C (dir_key d c) enc0 (dir_counter d c) = Some plain0"
    using a w(1) by (auto simp: aesM_def frames split: option.splits)
  have "length plain0 = 16" using aes aes_total [OF C(2) lens, of enc0] w(2) by auto
  then have "unat n < 12 \<and> 34988 < length (rx_of c1)"
    using C lens other range by (intro open_other_blocks_fault) (simp_all add: c1 w(1) frames)
  moreover have "rx_of c1 = concat (rx w)" by (simp add: rx_of_def c1 w(1) frames)
  moreover have "5 \<le> unat n" using range(1) by (simp add: word_less_nat_alt)
  ultimately show ?thesis using w aes rd unfolding overrun_def by fastforce
qed

lemma open_packet_overrun:
  assumes "ready c" and "overrun d C c"
  shows "fst (open_packet C d rcv eq c) = Fault"
proof -
  obtain enc0 rest plain0 n where o: "concat (rx (io_user_data c)) = enc0 @ rest" "length enc0 = 16"
    "noxtls_aes_encrypt_ctr C (dir_key d c) enc0 (dir_counter d c) = Some plain0"
    "netnox_ssh_read_u32_be plain0 = Ok n" "5 \<le> unat n" "unat n < 12" "34988 < length rest"
    using assms(2) unfolding overrun_def rx_of_def by blast
  have range: "\<not> (n < 1 + 4 \<or> n > 35000)" using o(5,6) by (simp add: word_less_nat_alt)
  obtain w where w: "open_first_block C d rcv c = (Ok (n, plain0),
      dir_set_counter d (\<lambda>ctr. netnox_ssh_ctr_increment_blocks ctr 1) (c\<lparr>io_user_data := w\<rparr>))"
    "concat (rx w) = rest" "ready (c\<lparr>io_user_data := w\<rparr>)"
    using open_first_block_delivers [OF assms(1) o(1-4) range] by blast
  let ?c1 = "dir_set_counter d (\<lambda>ctr. netnox_ssh_ctr_increment_blocks ctr 1) (c\<lparr>io_user_data := w\<rparr>)"
  have "fst (rcv (4 + n - 16) (35004 - 16) ?c1) = Fault"
  proof (rule rcv_overrun)
    show "ready ?c1" using w(3) by (simp only: ready_counter)
    show "unat (35004 - 16 :: u32) < unat (4 + n - 16)"
      using short_underflow [of n] range o(6) by (auto simp del: unat_sub_if_size)
    show "unat (35004 - 16 :: u32) < length (concat (rx (io_user_data ?c1)))" using o(7) w(2) by (simp add: others)
  qed
  then obtain c2 where c2: "rcv (4 + n - 16) (35004 - 16) ?c1 = (Fault, c2)"
    by (metis prod.collapse)
  have "open_other_blocks C d rcv eq n plain0 ?c1 = (Fault, c2)"
    unfolding open_other_blocks_def Let_def bindM_Fault checkedM_Fault using c2 by blast
  with w(1) show ?thesis by (simp add: open_packet_def bindM_def)
qed

end

interpretation cli_bounded: bounded_receiver s2c netnox_ssh_recv_exact cli_ready
  by unfold_locales
    (auto simp: netnox_ssh_recv_exact_def ifM_def throwM_def ioM_def cli_ready_def
      split: if_splits prod.splits dest: recv_loop_fault_u32 recv_loop_overrun_u32 recv_loop_Ok_u32)

interpretation srv_bounded: bounded_receiver c2s srv_recv_exact srv_ready
  by unfold_locales
    (auto simp: srv_recv_exact_def ifM_def throwM_def ioM_def srv_ready_def
      split: if_splits prod.splits dest: recv_loop_fault_u32 recv_loop_overrun_u32 recv_loop_Ok_u32)

lemma packet_payload_fault:
  assumes "packet_payload n packet m = Fault" and "length packet = unat n" and "5 \<le> unat n"
  shows False
proof -
  obtain b where b: "fetch1 packet 0 = Ok b" "b = packet ! 0"
    using assms(2,3) by (cases packet) (auto simp: fetch1_def)
  show False
  proof (cases "b < 4 \<or> ucast b \<ge> n")
    case True
    then show False using assms(1) b(1) by (auto simp: packet_payload_def split: if_splits)
  next
    case False
    have "unat (n - 1 - ucast b) \<le> unat n - 1"
    proof -
      have "unat (n - 1) = unat n - 1" using assms(3) by (intro unat_minus_one) auto
      moreover have "unat (ucast b :: u32) \<le> unat (n - 1)" using False calculation
        by (auto simp: word_le_nat_alt not_le)
      ultimately show ?thesis by (subst unat_sub) (auto simp: word_le_nat_alt)
    qed
    then show False using assms b False by (auto simp: packet_payload_def Let_def fetch_def split: if_splits)
  qed
qed

context bounded_receiver
begin

lemma recv_plain_no_fault: "recv_plain_packet rcv m c \<noteq> (Fault, c')"
proof
  assume run: "recv_plain_packet rcv m c = (Fault, c')"
  have r: "\<not> unat room < unat n \<Longrightarrow> rcv n room c1 \<noteq> (Fault, c2)" for n room c1 c2
    using rcv_Fault [of n room c1 c2] by auto
  from run r [of 4 4] obtain len_buf c1 where l: "rcv 4 4 c = (Ok len_buf, c1)" and
    rest: "netnox_ssh_read_u32_be len_buf = Fault \<or>
      (\<exists>n. \<not> n > 35000 \<and> \<not> n < 1 + 4 \<and> (rcv n 35000 c1 = (Fault, c') \<or>
        (\<exists>packet c2. rcv n 35000 c1 = (Ok packet, c2) \<and> packet_payload n packet m = Fault)))"
    unfolding recv_plain_packet_def by (auto simp: fault_iff res_iff; blast)
  have "length len_buf = 4" using rcv_Ok [OF l] by auto
  then have "netnox_ssh_read_u32_be len_buf \<noteq> Fault" using read_u32_be_total [of len_buf] by auto
  with rest r [of 35000] obtain n packet c2 where n: "\<not> n < 1 + 4"
    and p: "rcv n 35000 c1 = (Ok packet, c2)" "packet_payload n packet m = Fault"
    by (auto simp: word_less_nat_alt)
  from rcv_Ok [OF p(1)] packet_payload_fault [OF p(2)] n show False
    by (auto simp: word_less_nat_alt)
qed

lemma opened_payload_no_fault:
  assumes "sha_ok C" and "open_packet C d rcv eq c = (Ok (n, plain), c')"
  shows "packet_payload n (drop 4 plain) m \<noteq> Fault"
proof -
  from open_packet_authentic [OF assms] have "framed plain n" by blast
  moreover have "5 \<le> unat n"
    using assms(2) unfolding open_packet_def open_first_block_def
    by (auto simp: res_iff word_less_nat_alt)
  ultimately show ?thesis using packet_payload_fault [of n "drop 4 plain" m] by (auto simp: framed_def)
qed

end

section \<open>Concrete endpoints\<close>

text \<open>Two initialised contexts that talk to each other, to evaluate the theorems on.\<close>

definition sample_world :: world where
  "sample_world = no_world\<lparr>rand_byte := (\<lambda>n. word_of_nat n),
     getrandom := replicate 20 (Got (replicate 40 7)), clock_ms := (\<lambda>_. 5)\<rparr>"

definition sample_client :: netnox_ssh_client_t where
  "sample_client =
     snd (set_io_callbacks True True sample_world (snd (netnox_ssh_client_init 0 0 zero_client)))"

definition sample_server :: netnox_ssh_server_t where
  "sample_server =
     snd (set_io_callbacks True True sample_world (snd (netnox_ssh_server_init zero_server)))"

definition keyed :: "'z ssh_context_scheme \<Rightarrow> 'z ssh_context_scheme" where
  "keyed c = c\<lparr>key_exchange_complete := True\<rparr>"

text \<open>The bytes arrive one at a time.\<close>

definition feed :: "bytes \<Rightarrow> 'z ssh_context_scheme \<Rightarrow> 'z ssh_context_scheme" where
  "feed d c = c\<lparr>io_user_data := (io_user_data c)\<lparr>rx := map (\<lambda>b. [b]) d\<rparr>\<rparr>"

lemma rx_feed: "rx_of (feed d c) = d" "[] \<notin> set (rx (io_user_data (feed d c)))"
  by (auto simp: rx_of_def feed_def)

lemma sample_ident_lengths: "netnox_ssh_copy_string 256 (ascii ''SSH-2.0-noxssh_0.1'') = Ok (ascii ''SSH-2.0-noxssh_0.1'')"
  "netnox_ssh_copy_string 256 (ascii ''SSH-2.0-noxsshd_0.1'') = Ok (ascii ''SSH-2.0-noxsshd_0.1'')"
  by code_simp+

lemma sample_client_eq: "sample_client = zero_client\<lparr>port := 22, client_ident := ascii ''SSH-2.0-noxssh_0.1'',
    send_cb := True, recv_cb := True, io_user_data := sample_world\<rparr>"
  by (simp add: sample_client_def set_io_callbacks_def netnox_ssh_client_init_def bindM_def setM_def liftM_def
      sample_ident_lengths zero_client_def ssh_context.defs netnox_ssh_client_t.defs)

lemma sample_server_eq: "sample_server = zero_server\<lparr>transport_fd := -1,
    rekey_threshold_bytes := 256 * 1024 * 1024, server_ident := ascii ''SSH-2.0-noxsshd_0.1'',
    send_cb := True, recv_cb := True, io_user_data := sample_world\<rparr>"
  by (simp add: sample_server_def set_io_callbacks_def netnox_ssh_server_init_def bindM_def setM_def liftM_def
      sample_ident_lengths)

lemmas sample_fields = zero_client_def zero_server_def zero_context_def ssh_context.defs
  netnox_ssh_client_t.defs netnox_ssh_server_t.defs sample_world_def no_world_def keyed_def

lemma sample_timely: "srv_timely (feed d (keyed sample_server))"
  by (auto simp: srv_timely_def feed_def sample_server_eq sample_fields intro: exI [of _ 0])

lemma sample_in_step: "in_step_c2s toy_noxtls (keyed sample_client) (feed d (keyed sample_server))"
  "in_step_s2c toy_noxtls (keyed sample_server) (feed d (keyed sample_client))"
  using sample_timely [of d] rx_feed(2) [of d "keyed sample_server"] rx_feed(2) [of d "keyed sample_client"]
  by (simp_all add: in_step_c2s_def in_step_s2c_def toy_sha_ok toy_ctr_ok)
    (simp_all add: feed_def sample_server_eq sample_client_eq sample_fields)

section \<open>Properties\<close>

text \<open>C33: The binary packet protocol of RFC 4253, section 6, at both endpoints. A payload that does not fit into a packet of
  35000 bytes is refused and nothing is sent. What a successful call adds to the stream is one packet: its length, the
  length of the padding, the payload and at least 4 bytes of padding that fill the last block; of 8 bytes and in the clear
  before the keys are in place, then of 16 bytes, encrypted and followed by the MAC over its sequence number and its plain
  text, and at the client after the NEWKEYS that it holds back. From every such packet the parser gets exactly the payload,
  or refuses it where the caller has less room; and in the clear either endpoint reads the payload back from the stream, in
  whatever parts it arrives.\<close>

theorem framing_correct:
  assumes "sha_ok C" and "payload \<noteq> []" and "length payload < 2 ^ 31" and "length (pending_newkeys c) < 2 ^ 32"
    and "netnox_ssh_send_packet C payload c = (rc, c')" and "srv_send_packet C payload s = (rs, s')"
  shows "(if 35000 < 1 + length payload + rfc_padding (unat (packet_block_size c)) (length payload)
      then rc = Err NETNOX_RETURN_BAD_PARAM \<and> c' = c
      else rc = Ok () \<longrightarrow> (\<exists>out. sent_as C c2s c payload out \<and>
        tx_of c' = tx_of c @ (if key_exchange_complete c then pending_newkeys c else []) @ out)) \<and>
    (if 35000 < 1 + length payload + rfc_padding (unat (packet_block_size s)) (length payload)
      then rs = Err NETNOX_RETURN_BAD_PARAM \<and> tx_of s' = tx_of s
      else rs = Ok () \<longrightarrow> (\<exists>out. sent_as C s2c s payload out \<and> tx_of s' = tx_of s @ out)) \<and>
    (rfc_framed b payload plain \<and> b \<in> {8, 16} \<longrightarrow>
      packet_payload (word_of_nat (length plain - 4)) (drop 4 plain) m =
        (if length payload \<le> unat m then Ok payload else Err NETNOX_RETURN_FAILED)) \<and>
    (rfc_framed 8 payload plain \<and> length payload \<le> unat m \<longrightarrow>
      (\<not> key_exchange_complete c1 \<and> cli_ready c1 \<and> rx_of c1 = plain @ rest \<longrightarrow>
        (\<exists>c2. netnox_ssh_recv_packet C m c1 = (Ok payload, c2) \<and> rx_of c2 = rest)) \<and>
      (\<not> key_exchange_complete s1 \<and> recv_cb s1 \<and> srv_timely s1 \<and> [] \<notin> set (rx (io_user_data s1)) \<and>
          rx_of s1 = plain @ rest \<longrightarrow>
        (\<exists>s2. srv_recv_packet C m s1 = (Ok payload, s2) \<and> rx_of s2 = rest)))"
proof (intro conjI impI, goal_cases)
  case 1
  then show ?case
    using send_packet_refused [OF assms(2,3)] cli_sends [OF assms(1,3,4)] assms(5) by auto
next
  case 2
  then show ?case
    using srv_send_packet_refused [OF assms(2,3,6)] srv_sends [OF assms(1,3)] assms(6) by (auto simp: tx_of_def)
next
  case 3
  then show ?case using framed_carries assms(2) by (auto simp: carries_def)
next
  case 4
  then show ?case using cli_reads assms(2) by blast
next
  case 5
  then show ?case using srv_reads assms(2) by blast
qed

lemma sample_sends:
  "fst (netnox_ssh_send_packet toy_noxtls [5, 1] sample_client) = Ok ()"
  "fst (srv_send_packet toy_noxtls [5, 1] sample_server) = Ok ()"
  by code_simp+

lemma sample_framed: "rfc_framed 8 [5, 1] (rfc_packet [5, 1] (replicate 9 0))"
  by (auto simp: rfc_framed_def rfc_padding_def intro: exI [of _ "replicate 9 0"])

theorem framing_correct_witness:
  "(\<exists>out. sent_as toy_noxtls c2s sample_client [5, 1] out \<and>
      tx_of (snd (netnox_ssh_send_packet toy_noxtls [5, 1] sample_client)) = tx_of sample_client @ out) \<and>
   (\<exists>c. netnox_ssh_recv_packet toy_noxtls 100 (feed (rfc_packet [5, 1] (replicate 9 0)) sample_client) = (Ok [5, 1], c))"
proof -
  have pre: "[5, 1] \<noteq> ([] :: bytes)" "length [5, 1 :: byte] < 2 ^ 31" "length (pending_newkeys sample_client) < 2 ^ 32"
    by (simp_all add: sample_client_eq sample_fields)
  have fed: "\<not> key_exchange_complete (feed d sample_client)" "cli_ready (feed d sample_client)" for d
    by (auto simp: feed_def cli_ready_def sample_client_eq sample_fields)
  have fits: "\<not> 35000 < 1 + length [5, 1 :: byte] + rfc_padding (unat (packet_block_size sample_client)) (length [5, 1 :: byte])"
    "\<not> key_exchange_complete sample_client"
    by (simp_all add: rfc_padding_def packet_block_size_def sample_client_eq sample_fields)
  note t = framing_correct [OF toy_sha_ok pre prod.collapse [symmetric] prod.collapse [symmetric]]
  show ?thesis
    using t [where s = sample_server and plain = "rfc_packet [5, 1] (replicate 9 0)" and m = 100 and rest = "[]" and b = 8
        and ?s1.0 = sample_server
        and ?c1.0 = "feed (rfc_packet [5, 1] (replicate 9 0)) sample_client"]
      sample_sends sample_framed fed fits rx_feed by auto
qed

text \<open>C28: Client to server, before and after the keys are in place: whatever sequence of payloads the
  client's \<open>send_packet\<close> accepts, \<open>srv_recv_packet\<close> returns exactly these payloads in this order when
  the bytes written arrive, however the transport cuts them into segments, and the two endpoints stay
  in step (same counter, same sequence number) with the bytes that follow still unread.\<close>

theorem client_packets_delivered:
  assumes "in_step_c2s C c s" and "list_all (fits m) ps"
    and "send_msgs (netnox_ssh_send_packet C) ps c = (Ok (), c')"
    and "tx_of c' = tx_of c @ d" and "rx_of s = d @ rest"
  shows "\<exists>s'. recv_msgs (srv_recv_packet C m) (length ps) s = (Ok ps, s') \<and>
    rx_of s' = rest \<and> in_step_c2s C c' s'"
  using assms by (rule c2s_channel.delivers_in_order)

theorem client_packets_delivered_witness:
  "\<exists>d s'. recv_msgs (srv_recv_packet toy_noxtls 35000) 2 (feed d (keyed sample_server)) =
     (Ok [[5, 1], [2]], s') \<and> rx_of s' = []"
proof -
  let ?c = "keyed sample_client" and ?ps = "[[5, 1], [2]] :: bytes list"
  have "fst (send_msgs (netnox_ssh_send_packet toy_noxtls) ?ps ?c) = Ok ()" by code_simp
  then obtain c' where run: "send_msgs (netnox_ssh_send_packet toy_noxtls) ?ps ?c = (Ok (), c')"
    by (metis prod.collapse)
  obtain d where d: "tx_of c' = tx_of ?c @ d"
    using c2s_channel.send_msgs_extends [OF run] by (auto simp: prefix_def)
  have fit: "list_all (fits 35000) ?ps" by (simp add: fits_def)
  have rx: "rx_of (feed d (keyed sample_server)) = d @ []" by (simp add: rx_feed)
  from client_packets_delivered [OF sample_in_step(1) fit run d rx] show ?thesis by (auto simp: numeral_2_eq_2)
qed

text \<open>C29: Server to client, the same: every sequence of payloads that \<open>srv_send_packet\<close> accepts is what
  the client's \<open>recv_packet\<close> returns, in order, and the two stay in step.\<close>

theorem server_packets_delivered:
  assumes "in_step_s2c C s c" and "list_all (fits m) ps"
    and "send_msgs (srv_send_packet C) ps s = (Ok (), s')"
    and "tx_of s' = tx_of s @ d" and "rx_of c = d @ rest"
  shows "\<exists>c'. recv_msgs (netnox_ssh_recv_packet C m) (length ps) c = (Ok ps, c') \<and>
    rx_of c' = rest \<and> in_step_s2c C s' c'"
  using assms by (rule s2c_channel.delivers_in_order)

theorem server_packets_delivered_witness:
  "\<exists>d c'. recv_msgs (netnox_ssh_recv_packet toy_noxtls 35000) 2 (feed d (keyed sample_client)) =
     (Ok [[6, 1], [99]], c') \<and> rx_of c' = []"
proof -
  let ?s = "keyed sample_server" and ?ps = "[[6, 1], [99]] :: bytes list"
  have "fst (send_msgs (srv_send_packet toy_noxtls) ?ps ?s) = Ok ()" by code_simp
  then obtain s' where run: "send_msgs (srv_send_packet toy_noxtls) ?ps ?s = (Ok (), s')"
    by (metis prod.collapse)
  obtain d where d: "tx_of s' = tx_of ?s @ d"
    using s2c_channel.send_msgs_extends [OF run] by (auto simp: prefix_def)
  have fit: "list_all (fits 35000) ?ps" by (simp add: fits_def)
  have rx: "rx_of (feed d (keyed sample_client)) = d @ []" by (simp add: rx_feed)
  from server_packets_delivered [OF sample_in_step(2) fit run d rx] show ?thesis by (auto simp: numeral_2_eq_2)
qed

text \<open>C30: Once the keys are in place the client accepts a packet only if the 32 bytes behind it are the HMAC,
  under the server-to-client MAC key and for the next sequence number, of the decryption of the bytes
  before them; the payload returned is the one framed in that plain text, and the sequence number
  advances by one.\<close>

theorem client_accepts_only_authentic:
  assumes "sha_ok C" and "ctr_ok C" and "length (s2c_key c) = 16" and "length (s2c_counter c) = 16"
    and "key_exchange_complete c" and "netnox_ssh_recv_packet C m c = (Ok p, c')"
  shows "\<exists>enc plain n. rx_of c = enc @ packet_mac C (s2c_mac_key c) (recv_seq c) plain @ rx_of c' \<and>
    noxtls_aes_encrypt_ctr C (s2c_key c) enc (s2c_counter c) = Some plain \<and>
    framed plain n \<and> packet_payload n (drop 4 plain) m = Ok p \<and> recv_seq c' = recv_seq c + 1"
proof -
  obtain n plain where run: "open_packet C s2c netnox_ssh_recv_exact (\<lambda>a b. take 32 a = take 32 b) c =
      (Ok (n, plain), c')" and pl: "packet_payload n (drop 4 plain) m = Ok p"
    using assms(5,6) by (auto simp: netnox_ssh_recv_packet_def res_iff)
  have key: "length (dir_key s2c c) = 16" "length (dir_counter s2c c) = 16" using assms by simp_all
  from cli_bounded.open_packet_authentic [OF assms(1) run] obtain enc mac where
    a: "rx_of c = enc @ mac @ rx_of c'" "length enc = length plain" "length mac = 32" "framed plain n"
    "take 32 (packet_mac C (s2c_mac_key c) (recv_seq c) plain) = take 32 mac" "recv_seq c' = recv_seq c + 1"
    by auto
  have "mac = packet_mac C (s2c_mac_key c) (recv_seq c) plain"
    using a(3,5) assms(1) by (simp add: packet_mac_def length_hmac)
  moreover have "noxtls_aes_encrypt_ctr C (s2c_key c) enc (s2c_counter c) = Some plain"
    using cli_bounded.open_packet_decrypts [OF assms(2) key run] a(1,2) by simp
  ultimately show ?thesis using a pl by blast
qed

text \<open>A packet of the peer: what \<open>srv_send_packet\<close> wrote for the payload \<open>[99]\<close>.\<close>

definition sample_packet :: bytes where
  "sample_packet = tx_of (snd (srv_send_packet toy_noxtls [99] (keyed sample_server)))"

theorem client_accepts_only_authentic_witness:
  "\<exists>enc plain n. sample_packet = enc @ packet_mac toy_noxtls (replicate 32 0) 0 plain \<and>
    framed plain n \<and> packet_payload n (drop 4 plain) 35000 = Ok [99]"
proof -
  let ?c = "feed sample_packet (keyed sample_client)"
  have "fst (srv_send_packet toy_noxtls [99] (keyed sample_server)) = Ok ()" by code_simp
  then have run: "srv_send_packet toy_noxtls [99] (keyed sample_server) =
      (Ok (), snd (srv_send_packet toy_noxtls [99] (keyed sample_server)))" by (metis prod.collapse)
  have d: "tx_of (snd (srv_send_packet toy_noxtls [99] (keyed sample_server))) =
      tx_of (keyed sample_server) @ sample_packet"
    by (simp add: tx_of_def sample_server_eq sample_fields sample_packet_def)
  have fit: "fits 35000 [99]" and rx: "rx_of ?c = sample_packet @ []" by (simp_all add: fits_def rx_feed)
  obtain c' where r: "netnox_ssh_recv_packet toy_noxtls 35000 ?c = (Ok [99], c')" "rx_of c' = []"
    using cli_recv_delivers [OF sample_in_step(2) fit run d rx] by blast
  have f: "length (s2c_key ?c) = 16" "length (s2c_counter ?c) = 16" "key_exchange_complete ?c"
    "s2c_mac_key ?c = replicate 32 0" "recv_seq ?c = 0"
    by (simp_all add: feed_def sample_client_eq sample_fields)
  from client_accepts_only_authentic [OF toy_sha_ok toy_ctr_ok f(1-3) r(1)] r(2) f(4,5)
  show ?thesis by (auto simp: rx_feed)
qed

text \<open>C31: The same for the server, with the client-to-server keys and the constant-time comparison.\<close>

theorem server_accepts_only_authentic:
  assumes "sha_ok C" and "ctr_ok C" and "length (c2s_key s) = 16" and "length (c2s_counter s) = 16"
    and "key_exchange_complete s" and "srv_recv_packet C m s = (Ok p, s')"
  shows "\<exists>enc plain n. rx_of s = enc @ packet_mac C (c2s_mac_key s) (recv_seq s) plain @ rx_of s' \<and>
    noxtls_aes_encrypt_ctr C (c2s_key s) enc (c2s_counter s) = Some plain \<and>
    framed plain n \<and> packet_payload n (drop 4 plain) m = Ok p \<and> recv_seq s' = recv_seq s + 1"
proof -
  obtain now w where t: "srv_now_ms (io_user_data s) = (now, w)" by (cases "srv_now_ms (io_user_data s)")
  define s0 where "s0 = s\<lparr>io_user_data := w, packet_deadline_ms := now + 10000\<rparr>"
  have body: "srv_recv_body C m s0 = (Ok p, s')"
    using assms(6) t by (simp add: srv_recv_packet_def bindM_def srv_nowM_def ioM_def s0_def setM_def)
  have f: "rx_of s0 = rx_of s" "c2s_key s0 = c2s_key s" "c2s_counter s0 = c2s_counter s"
    "c2s_mac_key s0 = c2s_mac_key s" "recv_seq s0 = recv_seq s" "key_exchange_complete s0"
    using t assms(5) by (auto simp: s0_def rx_of_def srv_now_ms_def)
  obtain n plain s1 where
    run: "open_packet C c2s srv_recv_exact (\<lambda>a b. srv_equal_mac a b 32) s0 = (Ok (n, plain), s1)"
    and pl: "packet_payload n (drop 4 plain) m = Ok p" and s': "rx_of s' = rx_of s1" "recv_seq s' = recv_seq s1"
    using body f(6) by (auto simp: srv_recv_body_def res_iff rx_of_def)
  have key: "length (dir_key c2s s0) = 16" "length (dir_counter c2s s0) = 16" using assms f by simp_all
  from srv_bounded.open_packet_authentic [OF assms(1) run] obtain enc mac where
    a: "rx_of s = enc @ mac @ rx_of s'" "length enc = length plain" "length mac = 32" "framed plain n"
    "srv_equal_mac (packet_mac C (c2s_mac_key s) (recv_seq s) plain) mac 32" "recv_seq s' = recv_seq s + 1"
    by (auto simp: f s')
  have "mac = packet_mac C (c2s_mac_key s) (recv_seq s) plain"
    using a(3,5) assms(1) by (simp add: packet_mac_def length_hmac srv_equal_mac_iff)
  moreover have "noxtls_aes_encrypt_ctr C (c2s_key s) enc (c2s_counter s) = Some plain"
    using srv_bounded.open_packet_decrypts [OF assms(2) key run] a(1,2) f by simp
  ultimately show ?thesis using a pl by blast
qed

definition sample_packet_c2s :: bytes where
  "sample_packet_c2s = tx_of (snd (netnox_ssh_send_packet toy_noxtls [2] (keyed sample_client)))"

theorem server_accepts_only_authentic_witness:
  "\<exists>enc plain n. sample_packet_c2s = enc @ packet_mac toy_noxtls (replicate 32 0) 0 plain \<and>
    framed plain n \<and> packet_payload n (drop 4 plain) 35000 = Ok [2]"
proof -
  let ?s = "feed sample_packet_c2s (keyed sample_server)"
  have "fst (netnox_ssh_send_packet toy_noxtls [2] (keyed sample_client)) = Ok ()" by code_simp
  then have run: "netnox_ssh_send_packet toy_noxtls [2] (keyed sample_client) =
      (Ok (), snd (netnox_ssh_send_packet toy_noxtls [2] (keyed sample_client)))" by (metis prod.collapse)
  have d: "tx_of (snd (netnox_ssh_send_packet toy_noxtls [2] (keyed sample_client))) =
      tx_of (keyed sample_client) @ sample_packet_c2s"
    by (simp add: tx_of_def sample_client_eq sample_fields sample_packet_c2s_def)
  have fit: "fits 35000 [2]" and rx: "rx_of ?s = sample_packet_c2s @ []" by (simp_all add: fits_def rx_feed)
  obtain s' where r: "srv_recv_packet toy_noxtls 35000 ?s = (Ok [2], s')" "rx_of s' = []"
    using srv_recv_delivers [OF sample_in_step(1) fit run d rx] by blast
  have f: "length (c2s_key ?s) = 16" "length (c2s_counter ?s) = 16" "key_exchange_complete ?s"
    "c2s_mac_key ?s = replicate 32 0" "recv_seq ?s = 0"
    by (simp_all add: feed_def sample_server_eq sample_fields)
  from server_accepts_only_authentic [OF toy_sha_ok toy_ctr_ok f(1-3) r(1)] r(2) f(4,5)
  show ?thesis by (auto simp: rx_feed)
qed

text \<open>C32: The client's receive function leaves its buffers in exactly one situation: in encrypted mode, when
  the first block decrypts to a packet length between 5 and 11 (so that \<open>plain_len - 16\<close> wraps around)
  and more than 34988 further bytes arrive. This happens before the MAC is looked at.\<close>

theorem client_recv_overrun_iff:
  assumes C: "sha_ok C" "ctr_ok C" and lens: "length (s2c_key c) = 16" "length (s2c_counter c) = 16"
    and rdy: "cli_ready c"
  shows "fst (netnox_ssh_recv_packet C m c) = Fault \<longleftrightarrow> key_exchange_complete c \<and> overrun s2c C c"
proof
  assume "fst (netnox_ssh_recv_packet C m c) = Fault"
  then obtain c' where run: "netnox_ssh_recv_packet C m c = (Fault, c')" by (metis prod.collapse)
  with cli_bounded.recv_plain_no_fault have kex: "key_exchange_complete c"
    by (auto simp: netnox_ssh_recv_packet_def ifM_def split: if_splits)
  with run cli_bounded.opened_payload_no_fault [OF C(1)] obtain c'' where
    "open_packet C s2c netnox_ssh_recv_exact (\<lambda>a b. take 32 a = take 32 b) c = (Fault, c'')"
    by (auto simp: netnox_ssh_recv_packet_def fault_iff)
  then show "key_exchange_complete c \<and> overrun s2c C c"
    using kex cli_bounded.open_packet_fault [OF C, of c] lens by auto
next
  assume "key_exchange_complete c \<and> overrun s2c C c"
  then show "fst (netnox_ssh_recv_packet C m c) = Fault"
    using cli_bounded.open_packet_overrun [OF rdy, of C "\<lambda>a b. take 32 a = take 32 b"]
    by (auto simp: netnox_ssh_recv_packet_def ifM_def bindM_def split: prod.splits)
qed

definition sample_overrun :: netnox_ssh_client_t where
  "sample_overrun = (keyed sample_client)\<lparr>io_user_data :=
     sample_world\<lparr>rx := [map (\<lambda>b. b XOR 0x55) ([0, 0, 0, 5] @ replicate 12 0), replicate 34989 0]\<rparr>\<rparr>"

lemma sample_overruns: "overrun s2c toy_noxtls sample_overrun"
proof -
  let ?e = "map (\<lambda>b :: byte. b XOR 0x55) ([0, 0, 0, 5] @ replicate 12 0)"
  have "rx_of sample_overrun = ?e @ replicate 34989 0" by (simp add: sample_overrun_def rx_of_def)
  moreover have "noxtls_aes_encrypt_ctr toy_noxtls (dir_key s2c sample_overrun) ?e (dir_counter s2c sample_overrun) =
      Some ([0, 0, 0, 5] @ replicate 12 0)"
    by (simp add: toy_noxtls_def comp_def xor.assoc)
  moreover have "netnox_ssh_read_u32_be ([0, 0, 0, 5] @ replicate 12 0) = Ok 5" by code_simp
  ultimately show ?thesis
    unfolding overrun_def
    by (intro exI [of _ ?e] exI [of _ "replicate 34989 0"] exI [of _ "[0, 0, 0, 5] @ replicate 12 0"]
        exI [of _ 5] conjI) (simp_all only: length_map length_append length_replicate, simp_all)
qed

theorem client_recv_overrun_iff_witness:
  "fst (netnox_ssh_recv_packet toy_noxtls 35000 sample_overrun) = Fault"
proof -
  have "length (s2c_key sample_overrun) = 16" "length (s2c_counter sample_overrun) = 16"
    "cli_ready sample_overrun" "key_exchange_complete sample_overrun"
    by (simp_all add: sample_overrun_def sample_client_eq sample_fields cli_ready_def)
  then show ?thesis
    using client_recv_overrun_iff [OF toy_sha_ok toy_ctr_ok] sample_overruns by blast
qed

text \<open>The server's receive function, whatever arrives and whenever, leaves its buffers only in that
  situation: no fault before the keys are in place, and none when the decrypted length is out of
  range or at least one block.\<close>

theorem server_recv_memory_safe:
  assumes C: "sha_ok C" "ctr_ok C" and lens: "length (c2s_key s) = 16" "length (c2s_counter s) = 16"
    and run: "srv_recv_packet C m s = (Fault, s')"
  shows "key_exchange_complete s \<and> overrun c2s C s"
proof -
  obtain now w where t: "srv_now_ms (io_user_data s) = (now, w)" by (cases "srv_now_ms (io_user_data s)")
  define s0 where "s0 = s\<lparr>io_user_data := w, packet_deadline_ms := now + 10000\<rparr>"
  have body: "srv_recv_body C m s0 = (Fault, s')"
    using run t by (simp add: srv_recv_packet_def bindM_def srv_nowM_def ioM_def s0_def setM_def)
  with srv_bounded.recv_plain_no_fault have kex: "key_exchange_complete s0"
    by (auto simp: srv_recv_body_def ifM_def split: if_splits)
  with body srv_bounded.opened_payload_no_fault [OF C(1)] obtain s'' where
    "open_packet C c2s srv_recv_exact (\<lambda>a b. srv_equal_mac a b 32) s0 = (Fault, s'')"
    by (auto simp: srv_recv_body_def fault_iff)
  then have "overrun c2s C s0"
    using srv_bounded.open_packet_fault [OF C, of s0] lens by (auto simp: s0_def)
  moreover have "rx_of s0 = rx_of s" using t by (auto simp: s0_def rx_of_def srv_now_ms_def)
  ultimately show ?thesis using kex by (simp add: s0_def overrun_def)
qed

theorem server_recv_memory_safe_witness:
  "fst (srv_recv_packet toy_noxtls 35000 sample_server) \<noteq> Fault"
proof
  assume "fst (srv_recv_packet toy_noxtls 35000 sample_server) = Fault"
  then obtain s' where run: "srv_recv_packet toy_noxtls 35000 sample_server = (Fault, s')"
    by (metis prod.collapse)
  have "length (c2s_key sample_server) = 16" "length (c2s_counter sample_server) = 16"
    "\<not> key_exchange_complete sample_server"
    by (simp_all add: sample_server_eq sample_fields)
  with server_recv_memory_safe [OF toy_sha_ok toy_ctr_ok _ _ run] show False by blast
qed

end
