(* ===== verification/Nox_Frames.thy ===== *)
theory Nox_Frames
  imports Nox_Channel
begin

text \<open>
  What each packet operation of the two endpoints may change, as relations between the contexts before
  and after, and the two directions of a connection as links: sender and receiver are in step, and what
  the sender has written plus what the receiver has not read yet is one byte stream. Every operation on
  one end of a link keeps it, so proofs about a conversation follow the messages one by one.
\<close>

section \<open>Frames of the packet operations\<close>

definition cli_sends :: "netnox_ssh_client_t \<Rightarrow> netnox_ssh_client_t \<Rightarrow> bool" where
  "cli_sends c c' \<longleftrightarrow> only_sends (io_user_data c) (io_user_data c') \<and>
     c' = c\<lparr>io_user_data := io_user_data c', send_seq := send_seq c', c2s_counter := c2s_counter c',
       pending_newkeys := pending_newkeys c'\<rparr>"

definition cli_recvs :: "netnox_ssh_client_t \<Rightarrow> netnox_ssh_client_t \<Rightarrow> bool" where
  "cli_recvs c c' \<longleftrightarrow> only_recvs (io_user_data c) (io_user_data c') \<and>
     c' = c\<lparr>io_user_data := io_user_data c', recv_seq := recv_seq c', s2c_counter := s2c_counter c'\<rparr>"

definition srv_sends :: "netnox_ssh_server_t \<Rightarrow> netnox_ssh_server_t \<Rightarrow> bool" where
  "srv_sends s s' \<longleftrightarrow> only_sends (io_user_data s) (io_user_data s') \<and>
     s' = s\<lparr>io_user_data := io_user_data s', send_seq := send_seq s', s2c_counter := s2c_counter s',
       send_deadline_ms := send_deadline_ms s', encrypted_bytes_sent := encrypted_bytes_sent s'\<rparr>"

definition srv_recvs :: "netnox_ssh_server_t \<Rightarrow> netnox_ssh_server_t \<Rightarrow> bool" where
  "srv_recvs s s' \<longleftrightarrow> only_recvs (io_user_data s) (io_user_data s') \<and>
     s' = s\<lparr>io_user_data := io_user_data s', recv_seq := recv_seq s', c2s_counter := c2s_counter s',
       packet_deadline_ms := packet_deadline_ms s', encrypted_bytes_recv := encrypted_bytes_recv s'\<rparr>"

interpretation cs: step_rel cli_sends
proof unfold_locales
  fix s t u
  show "cli_sends s s" by (simp add: cli_sends_def)
  assume "cli_sends s t" "cli_sends t u"
  then show "cli_sends s u"
    unfolding cli_sends_def only_sends_def os_same_def by (cases s, cases t, cases u) simp
qed

interpretation cr: step_rel cli_recvs
proof unfold_locales
  fix s t u
  show "cli_recvs s s" by (simp add: cli_recvs_def)
  assume "cli_recvs s t" "cli_recvs t u"
  then show "cli_recvs s u"
    unfolding cli_recvs_def only_recvs_def os_same_def by (cases s, cases t, cases u) simp
qed

interpretation ss: step_rel srv_sends
proof unfold_locales
  fix s t u
  show "srv_sends s s" by (simp add: srv_sends_def)
  assume "srv_sends s t" "srv_sends t u"
  then show "srv_sends s u"
    unfolding srv_sends_def only_sends_def os_same_def by (cases s, cases t, cases u) simp
qed

interpretation sr: step_rel srv_recvs
proof unfold_locales
  fix s t u
  show "srv_recvs s s" by (simp add: srv_recvs_def)
  assume "srv_recvs s t" "srv_recvs t u"
  then show "srv_recvs s u"
    unfolding srv_recvs_def only_recvs_def os_same_def by (cases s, cases t, cases u) simp
qed


lemma cli_sends_io: "only_sends (io_user_data c) w \<Longrightarrow> cli_sends c (c\<lparr>io_user_data := w\<rparr>)"
  by (simp add: cli_sends_def)

lemma cli_sends_set: "cli_sends c (c\<lparr>send_seq := n\<rparr>)" "cli_sends c (c\<lparr>pending_newkeys := p\<rparr>)"
  "cli_sends c (dir_set_counter c2s f c)"
  by (simp_all add: cli_sends_def)

lemma cs_send_all: "always cli_sends (netnox_ssh_send_all d)"
  unfolding netnox_ssh_send_all_def
  by (intro cs.always_rules always_ioM_rel [OF os.send_loop_rel] cli_sends_io)

lemma read_only_crypto: "snd (aesM C d data c) = c" "snd (macM C d n data c) = c"
  by (auto simp: aesM_def macM_def split: option.splits)

lemma cs_send_packet: "always cli_sends (netnox_ssh_send_packet C p)"
  unfolding netnox_ssh_send_packet_def seal_packet_def send_sealed_def case_prod_beta Let_def count_sent_def advanceM_def
  by (intro cs.always_rules always_ioM_rel [OF sends_random(1)] cs_send_all always_set cli_sends_set cli_sends_io
      always_read_only read_only_crypto cs.refl)

lemma cr_recv_exact: "always cli_recvs (netnox_ssh_recv_exact n room)"
  unfolding netnox_ssh_recv_exact_def
  by (intro cr.always_rules always_ioM_rel [OF orv.recv_loop_rel]) (simp add: cli_recvs_def)

lemma cli_recvs_set: "cli_recvs c (c\<lparr>recv_seq := n\<rparr>)" "cli_recvs c (dir_set_counter s2c f c)"
  by (simp_all add: cli_recvs_def)

lemmas recv_unfold = open_packet_def open_first_block_def open_other_blocks_def recv_plain_packet_def
  case_prod_beta Let_def advanceM_def

lemma cr_recv_packet: "always cli_recvs (netnox_ssh_recv_packet C m)"
  unfolding netnox_ssh_recv_packet_def recv_unfold
  by (intro cr.always_rules cr_recv_exact always_set cli_recvs_set always_read_only read_only_crypto cr.refl)

lemma srv_sends_io: "always only_sends f \<Longrightarrow> always srv_sends (ioM f)"
  by (erule always_ioM_rel) (simp add: srv_sends_def)

lemma srv_sends_set: "srv_sends s (s\<lparr>send_seq := n\<rparr>)" "srv_sends s (s\<lparr>send_deadline_ms := t\<rparr>)"
  "srv_sends s (s\<lparr>encrypted_bytes_sent := e\<rparr>)" "srv_sends s (dir_set_counter s2c f s)"
  by (simp_all add: srv_sends_def)

lemma ss_send_all: "always srv_sends (srv_send_all d)"
  using srv_sends_io [OF os.send_loop_rel]
  by (simp add: always_def srv_send_all_def ifM_def throwM_def ss.refl)

lemma srv_sends_now: "always srv_sends srv_nowM"
  unfolding srv_nowM_def
  by (rule srv_sends_io) (simp add: always_def srv_now_ms_def only_sends_def os_same_def)

lemma ss_send_packet: "always srv_sends (srv_send_packet C p)"
  unfolding srv_send_packet_def seal_packet_def case_prod_beta Let_def count_sent_def advanceM_def
  by (intro ss.always_rules sends_random(2) ss_send_all always_set srv_sends_set srv_sends_io
      srv_sends_now always_read_only read_only_crypto ss.refl)

lemma srv_recvs_io: "always only_recvs f \<Longrightarrow> always srv_recvs (ioM f)"
  by (erule always_ioM_rel) (simp add: srv_recvs_def)

lemma srv_recvs_set: "srv_recvs s (s\<lparr>recv_seq := n\<rparr>)" "srv_recvs s (s\<lparr>packet_deadline_ms := t\<rparr>)"
  "srv_recvs s (s\<lparr>encrypted_bytes_recv := e\<rparr>)" "srv_recvs s (dir_set_counter c2s f s)"
  by (simp_all add: srv_recvs_def)

lemma sr_recv_exact: "always srv_recvs (srv_recv_exact n room)"
  using srv_recvs_io [OF orv.recv_loop_rel]
  by (simp add: always_def srv_recv_exact_def ifM_def throwM_def sr.refl)

lemma srv_recvs_now: "always srv_recvs srv_nowM"
  unfolding srv_nowM_def
  by (rule srv_recvs_io) (simp add: always_def srv_now_ms_def only_recvs_def os_same_def)

lemma sr_recv_packet: "always srv_recvs (srv_recv_packet C m)"
  unfolding srv_recv_packet_def srv_recv_body_def recv_unfold
  by (intro sr.always_rules sr_recv_exact srv_recvs_now always_set srv_recvs_set always_read_only read_only_crypto sr.refl)

lemma cli_sendsE:
  assumes "cli_sends c c'"
  obtains w n ctr p where "only_sends (io_user_data c) w"
    "c' = c\<lparr>io_user_data := w, send_seq := n, c2s_counter := ctr, pending_newkeys := p\<rparr>"
  using assms unfolding cli_sends_def by blast

lemma cli_recvsE:
  assumes "cli_recvs c c'"
  obtains w n ctr where "only_recvs (io_user_data c) w"
    "c' = c\<lparr>io_user_data := w, recv_seq := n, s2c_counter := ctr\<rparr>"
  using assms unfolding cli_recvs_def by blast

lemma srv_sendsE:
  assumes "srv_sends s s'"
  obtains w n ctr t e where "only_sends (io_user_data s) w"
    "s' = s\<lparr>io_user_data := w, send_seq := n, s2c_counter := ctr, send_deadline_ms := t, encrypted_bytes_sent := e\<rparr>"
  using assms unfolding srv_sends_def by blast

lemma srv_recvsE:
  assumes "srv_recvs s s'"
  obtains w n ctr t e where "only_recvs (io_user_data s) w"
    "s' = s\<lparr>io_user_data := w, recv_seq := n, c2s_counter := ctr, packet_deadline_ms := t, encrypted_bytes_recv := e\<rparr>"
  using assms unfolding srv_recvs_def by blast

lemma in_step_frames:
  "in_step_c2s C c s \<Longrightarrow> cli_recvs c c' \<Longrightarrow> in_step_c2s C c' s"
  "in_step_c2s C c s \<Longrightarrow> srv_sends s s' \<Longrightarrow> in_step_c2s C c s'"
  "in_step_s2c C s c \<Longrightarrow> srv_recvs s s' \<Longrightarrow> in_step_s2c C s' c"
  "in_step_s2c C s c \<Longrightarrow> cli_sends c c' \<Longrightarrow> in_step_s2c C s c'"
  by (erule cli_recvsE srv_sendsE srv_recvsE cli_sendsE,
      auto simp: in_step_c2s_def in_step_s2c_def only_sends_def srv_timely_def)+

section \<open>Links\<close>

context packet_channel
begin

lemma deliver_from_stream:
  assumes "in_step a b" and "stream = out a @ inp b" and "fits p" and "send p a = (Ok u, a')"
    and "recv b = (Ok q, b')" and "prefix (out a') stream"
  shows "q = p \<and> in_step a' b' \<and> stream = out a' @ inp b'"
proof -
  obtain d where d: "out a' = out a @ d" using send_extends [OF assms(4)] by (auto simp: prefix_def)
  obtain rest where r: "stream = out a' @ rest" using assms(6) by (auto simp: prefix_def)
  have "inp b = d @ rest" using assms(2) d r by simp
  from deliver [OF assms(1,3,4) d this] assms(5) r show ?thesis by auto
qed

end

definition c2s_link :: "noxtls \<Rightarrow> bytes \<Rightarrow> netnox_ssh_client_t \<Rightarrow> netnox_ssh_server_t \<Rightarrow> bool" where
  "c2s_link C stream c s \<longleftrightarrow> in_step_c2s C c s \<and> stream = tx_of c @ rx_of s"

definition s2c_link :: "noxtls \<Rightarrow> bytes \<Rightarrow> netnox_ssh_server_t \<Rightarrow> netnox_ssh_client_t \<Rightarrow> bool" where
  "s2c_link C stream s c \<longleftrightarrow> in_step_s2c C s c \<and> stream = tx_of s @ rx_of c"

lemma c2s_link_step:
  "c2s_link C stream c s \<Longrightarrow> netnox_ssh_send_packet C p c = (Ok u, c') \<Longrightarrow> srv_recv_packet C m s = (Ok q, s') \<Longrightarrow>
    fits m p \<Longrightarrow> prefix (tx_of c') stream \<Longrightarrow> q = p \<and> c2s_link C stream c' s'"
  using c2s_channel.deliver_from_stream [of C c s stream m p u c' q s'] by (simp add: c2s_link_def)

lemma s2c_link_step:
  "s2c_link C stream s c \<Longrightarrow> srv_send_packet C p s = (Ok u, s') \<Longrightarrow> netnox_ssh_recv_packet C m c = (Ok q, c') \<Longrightarrow>
    fits m p \<Longrightarrow> prefix (tx_of s') stream \<Longrightarrow> q = p \<and> s2c_link C stream s' c'"
  using s2c_channel.deliver_from_stream [of C s c stream m p u s' q c'] by (simp add: s2c_link_def)

lemma stream_frames:
  "cli_recvs c c' \<Longrightarrow> tx_of c' = tx_of c" "cli_sends c c' \<Longrightarrow> rx_of c' = rx_of c"
  "srv_recvs s s' \<Longrightarrow> tx_of s' = tx_of s" "srv_sends s s' \<Longrightarrow> rx_of s' = rx_of s"
  by (simp_all add: cli_recvs_def cli_sends_def srv_recvs_def srv_sends_def only_sends_def only_recvs_def tx_of_def rx_of_def)

lemma link_frames:
  "c2s_link C stream c s \<Longrightarrow> cli_recvs c c' \<Longrightarrow> c2s_link C stream c' s"
  "c2s_link C stream c s \<Longrightarrow> srv_sends s s' \<Longrightarrow> c2s_link C stream c s'"
  "s2c_link C stream s c \<Longrightarrow> srv_recvs s s' \<Longrightarrow> s2c_link C stream s' c"
  "s2c_link C stream s c \<Longrightarrow> cli_sends c c' \<Longrightarrow> s2c_link C stream s c'"
  unfolding c2s_link_def s2c_link_def
  subgoal using in_step_frames(1) [of C c s c'] stream_frames(1) [of c c'] by simp
  subgoal using in_step_frames(2) [of C c s s'] stream_frames(4) [of s s'] by simp
  subgoal using in_step_frames(3) [of C s c s'] stream_frames(3) [of s s'] by simp
  subgoal using in_step_frames(4) [of C s c c'] stream_frames(2) [of c c'] by simp
  done

lemmas packet_frames = alwaysD [OF cs_send_packet] alwaysD [OF cr_recv_packet]
  alwaysD [OF ss_send_packet] alwaysD [OF sr_recv_packet]

text \<open>Steps of an endpoint that only touch what neither direction depends on.\<close>

definition cli_quiet :: "netnox_ssh_client_t \<Rightarrow> netnox_ssh_client_t \<Rightarrow> bool" where
  "cli_quiet c c' \<longleftrightarrow> key_exchange_complete c' = key_exchange_complete c \<and> send_seq c' = send_seq c \<and>
     recv_seq c' = recv_seq c \<and> c2s_key c' = c2s_key c \<and> s2c_key c' = s2c_key c \<and>
     c2s_mac_key c' = c2s_mac_key c \<and> s2c_mac_key c' = s2c_mac_key c \<and> c2s_counter c' = c2s_counter c \<and>
     s2c_counter c' = s2c_counter c \<and> pending_newkeys c' = pending_newkeys c \<and> recv_cb c' = recv_cb c \<and>
     rx (io_user_data c') = rx (io_user_data c) \<and> tx (io_user_data c') = tx (io_user_data c)"

definition srv_quiet :: "netnox_ssh_server_t \<Rightarrow> netnox_ssh_server_t \<Rightarrow> bool" where
  "srv_quiet s s' \<longleftrightarrow> key_exchange_complete s' = key_exchange_complete s \<and> send_seq s' = send_seq s \<and>
     recv_seq s' = recv_seq s \<and> c2s_key s' = c2s_key s \<and> s2c_key s' = s2c_key s \<and>
     c2s_mac_key s' = c2s_mac_key s \<and> s2c_mac_key s' = s2c_mac_key s \<and> c2s_counter s' = c2s_counter s \<and>
     s2c_counter s' = s2c_counter s \<and> recv_cb s' = recv_cb s \<and> session_started s' = session_started s \<and>
     handshake_deadline_ms s' = handshake_deadline_ms s \<and> clock_ms (io_user_data s') = clock_ms (io_user_data s) \<and>
     rx (io_user_data s') = rx (io_user_data s) \<and> tx (io_user_data s') = tx (io_user_data s)"

lemma link_quiet:
  "c2s_link C stream c s \<Longrightarrow> cli_quiet c c' \<Longrightarrow> srv_quiet s s' \<Longrightarrow> c2s_link C stream c' s'"
  "s2c_link C stream s c \<Longrightarrow> cli_quiet c c' \<Longrightarrow> srv_quiet s s' \<Longrightarrow> s2c_link C stream s' c'"
  by (auto simp: c2s_link_def s2c_link_def in_step_c2s_def in_step_s2c_def tx_of_def rx_of_def srv_timely_def
      cli_quiet_def srv_quiet_def)

lemma quiet_refl [simp]: "cli_quiet c c" "srv_quiet s s"
  by (simp_all add: cli_quiet_def srv_quiet_def)

end
