(* ===== verification/Nox_Kex.thy ===== *)
theory Nox_Kex
  imports Nox_Frames
begin

text \<open>
  Key exchange: building and validating KEXINIT, the exchange hash, the derivation of the transport
  keys, the verification of the host key signature, and the curve25519 exchange of client
  (\<open>common/noxssh_common.c\<close>) and server (\<open>common/noxssh_server.c\<close>). On the client side the exchange waits
  for messages, and while it waits a KEXINIT of the server starts another exchange; this mutual
  recursion carries a depth bound (\<open>fuel\<close>) here, and the theorem \<open>wait_for_message_terminates\<close> shows that
  a bound larger than the number of unread bytes is never reached.
\<close>

section \<open>Definitions\<close>

subsection \<open>KEXINIT\<close>

definition kex_algs :: bytes where
  "kex_algs = ascii ''curve25519-sha256,diffie-hellman-group14-sha256''"

definition host_key_algs :: bytes where
  "host_key_algs = ascii ''ssh-ed25519,rsa-sha2-256,ssh-rsa''"

definition cipher_algs :: bytes where
  "cipher_algs = ascii ''aes128-ctr,aes256-ctr,chacha20-poly1305@openssh.com''"

definition mac_algs :: bytes where
  "mac_algs = ascii ''hmac-sha2-256,hmac-sha1''"

definition compression_algs :: bytes where
  "compression_algs = ascii ''none''"

definition required_algs :: "bytes list" where
  "required_algs = [ascii ''curve25519-sha256'', ascii ''ssh-ed25519'', ascii ''aes128-ctr'',
     ascii ''aes128-ctr'', ascii ''hmac-sha2-256'', ascii ''hmac-sha2-256'', ascii ''none'', ascii ''none'']"

text \<open>\<open>first_kex_packet_follows\<close> and the reserved word.\<close>

definition append_kexinit_trailer :: field where
  "append_kexinit_trailer payload payload_max =
     (if u32len payload + 1 + 4 > payload_max then Err NETNOX_RETURN_FAILED
      else store payload payload_max (0 # netnox_ssh_write_u32_be 0))"

definition kexinit_fields :: "bytes list \<Rightarrow> field list" where
  "kexinit_fields ls = map netnox_ssh_payload_append_namelist ls @ [append_kexinit_trailer]"

definition netnox_ssh_build_kexinit_payload :: "u32 \<Rightarrow> ('z ssh_context_scheme, bytes) prog" where
  "netnox_ssh_build_kexinit_payload payload_max =
     bindM (failM (payload_max < 1 + 16) NETNOX_RETURN_BAD_PARAM) (\<lambda>_.
     bindM (ioM (netnox_ssh_fill_random 16)) (\<lambda>cookie.
     liftM (append_all payload_max
       (kexinit_fields [kex_algs, host_key_algs, cipher_algs, cipher_algs, mac_algs, mac_algs,
          compression_algs, compression_algs, [], []]) (20 # cookie))))"

definition srv_build_kexinit_payload :: "u32 \<Rightarrow> (netnox_ssh_server_t, bytes) prog" where
  "srv_build_kexinit_payload payload_max =
     bindM (failM (payload_max < 1 + 16) NETNOX_RETURN_BAD_PARAM) (\<lambda>_.
     bindM (checkedM NETNOX_RETURN_FAILED (ioM (srv_fill_random 16))) (\<lambda>cookie.
     liftM (append_all payload_max
       (kexinit_fields [ascii ''curve25519-sha256'', ascii ''ssh-ed25519'', ascii ''aes128-ctr'',
          ascii ''aes128-ctr'', ascii ''hmac-sha2-256'', ascii ''hmac-sha2-256'',
          compression_algs, compression_algs, [], []]) (20 # cookie))))"

text \<open>
  A run of \<open>read_string_view\<close> calls; \<open>Some tok\<close> is followed by the check that the name-list contains
  \<open>tok\<close>. Every failure is \<open>NETNOX_RETURN_FAILED\<close>.
\<close>

fun check_namelists :: "bytes \<Rightarrow> u32 \<Rightarrow> u32 \<Rightarrow> bytes option list \<Rightarrow> unit res" where
  "check_namelists payload payload_len offset [] = Ok ()"
| "check_namelists payload payload_len offset (req # reqs) =
     bindR (recode NETNOX_RETURN_FAILED
              (netnox_ssh_payload_read_string_view payload payload_len offset)) (\<lambda>(v, off).
     bindR (case req of None \<Rightarrow> Ok True | Some tok \<Rightarrow> netnox_ssh_namelist_contains v tok) (\<lambda>found.
     if \<not> found then Err NETNOX_RETURN_FAILED
     else check_namelists payload payload_len off reqs))"

definition validate_kexinit :: "bytes option list \<Rightarrow> bytes \<Rightarrow> unit res" where
  "validate_kexinit reqs payload =
     (if u32len payload < 1 + 16 then Err NETNOX_RETURN_BAD_PARAM
      else bindR (fetch1 payload 0) (\<lambda>b.
        if b \<noteq> 20 then Err NETNOX_RETURN_FAILED
        else check_namelists payload (u32len payload) (1 + 16) reqs))"

definition netnox_ssh_validate_server_kexinit :: "bytes \<Rightarrow> unit res" where
  "netnox_ssh_validate_server_kexinit = validate_kexinit (map Some required_algs)"

definition netnox_ssh_validate_client_kexinit :: "bytes \<Rightarrow> unit res" where
  "netnox_ssh_validate_client_kexinit = validate_kexinit (map Some required_algs @ [None, None])"

subsection \<open>Exchange hash and keys\<close>

definition netnox_ssh_compute_exchange_hash ::
  "noxtls \<Rightarrow> 'z ssh_context_scheme \<Rightarrow> view \<Rightarrow> view \<Rightarrow> view \<Rightarrow> bytes \<Rightarrow> bytes res" where
  "netnox_ssh_compute_exchange_hash C c host_key_blob client_pub server_pub shared_raw =
     bindR (build 4096
       [append_bytes (client_ident c), append_bytes (server_ident c),
        append_bytes (kexinit_client_payload c), append_bytes (kexinit_server_payload c),
        netnox_ssh_payload_append_string (fst host_key_blob) (snd host_key_blob),
        netnox_ssh_payload_append_string (fst client_pub) (snd client_pub),
        netnox_ssh_payload_append_string (fst server_pub) (snd server_pub),
        netnox_ssh_buf_append_mpint_be shared_raw 32]) (\<lambda>h_input.
     netnox_ssh_sha256 C h_input)"

text \<open>\<open>K\<close> at the front of an empty buffer, as mpint or raw.\<close>

definition append_secret :: "bool \<Rightarrow> bytes \<Rightarrow> u32 \<Rightarrow> bytes res" where
  "append_secret use_mpint secret cap =
     (if use_mpint
      then bindR (recode NETNOX_RETURN_FAILED (netnox_ssh_buf_append_mpint_be secret 32 [] 37)) (\<lambda>k_enc.
           recode NETNOX_RETURN_FAILED (netnox_ssh_buf_append k_enc (u32len k_enc) [] cap))
      else recode NETNOX_RETURN_FAILED (netnox_ssh_buf_append secret 32 [] cap))"

text \<open>\<open>while(produced < out_len)\<close>: another digest over \<open>K\<close>, \<open>H\<close> and all output so far.\<close>

function derive_more ::
  "noxtls \<Rightarrow> bool \<Rightarrow> bytes \<Rightarrow> bytes \<Rightarrow> u32 \<Rightarrow> nat \<Rightarrow> bytes \<Rightarrow> bytes res" where
  "derive_more C use_mpint secret sid sid_len out_len out =
     (if length out < out_len then
        bindR (append_secret use_mpint secret 2048) (\<lambda>k.
        bindR (append_all 2048 [netnox_ssh_buf_append sid sid_len,
                                netnox_ssh_buf_append out (u32len out)] k) (\<lambda>cont_in.
        bindR (netnox_ssh_sha256 C cont_in) (\<lambda>digest.
        bindR (fetch digest (min (out_len - length out) 32)) (\<lambda>d.
        derive_more C use_mpint secret sid sid_len out_len (out @ d)))))
      else Ok out)"
  by pat_completeness auto
termination
  by (relation "measure (\<lambda>(C, u, k, s, n, len, out). len - length out)") (auto simp: res_iff min_def)

declare derive_more.simps [simp del]

definition netnox_ssh_derive_key_block ::
  "noxtls \<Rightarrow> 'z ssh_context_scheme \<Rightarrow> byte \<Rightarrow> u32 \<Rightarrow> bytes res" where
  "netnox_ssh_derive_key_block C c selector out_len =
     (let use_mpint = env_key_deriv_mpint (io_user_data c);
          secret = shared_secret_raw c; sid = session_id c; sid_len = ucast (session_id_len c)
      in if out_len = 0 \<or> session_id_len c = 0 then Err NETNOX_RETURN_BAD_PARAM
         else bindR (append_secret use_mpint secret 1024) (\<lambda>k.
         bindR (append_all 1024 [netnox_ssh_buf_append sid sid_len,
                                 netnox_ssh_buf_append [selector] 1,
                                 netnox_ssh_buf_append sid sid_len] k) (\<lambda>seed.
         bindR (netnox_ssh_sha256 C seed) (\<lambda>digest.
         bindR (fetch digest (min (unat out_len) 32)) (\<lambda>d.
         derive_more C use_mpint secret sid sid_len (unat out_len) d)))))"

text \<open>One call \<open>if(derive_key_block(ctx, sel, field, sizeof(field)) != SUCCESS) return FAILED;\<close>\<close>

definition derive_into ::
  "noxtls \<Rightarrow> byte \<Rightarrow> u32 \<Rightarrow> (bytes \<Rightarrow> 'z ssh_context_scheme \<Rightarrow> 'z ssh_context_scheme) \<Rightarrow>
   ('z ssh_context_scheme, unit) prog" where
  "derive_into C selector n put =
     bindM (\<lambda>c. liftM (recode NETNOX_RETURN_FAILED (netnox_ssh_derive_key_block C c selector n)) c) (\<lambda>d.
     setM (put d))"

definition netnox_ssh_derive_transport_keys :: "noxtls \<Rightarrow> ('z ssh_context_scheme, unit) prog" where
  "netnox_ssh_derive_transport_keys C =
     bindM (ifM (\<lambda>c. session_id_len c = 0) (throwM NETNOX_RETURN_BAD_PARAM) (retM ())) (\<lambda>_.
     bindM (derive_into C 65 16 (\<lambda>d c. c\<lparr>c2s_iv := d\<rparr>)) (\<lambda>_.
     bindM (derive_into C 66 16 (\<lambda>d c. c\<lparr>s2c_iv := d\<rparr>)) (\<lambda>_.
     bindM (derive_into C 67 16 (\<lambda>d c. c\<lparr>c2s_key := d\<rparr>)) (\<lambda>_.
     bindM (derive_into C 68 16 (\<lambda>d c. c\<lparr>s2c_key := d\<rparr>)) (\<lambda>_.
     bindM (derive_into C 69 32 (\<lambda>d c. c\<lparr>c2s_mac_key := d\<rparr>)) (\<lambda>_.
     bindM (derive_into C 70 32 (\<lambda>d c. c\<lparr>s2c_mac_key := d\<rparr>)) (\<lambda>_.
     setM (\<lambda>c. c\<lparr>c2s_counter := c2s_iv c, s2c_counter := s2c_iv c\<rparr>))))))))"

text \<open>The server's copies of these three functions have the same text.\<close>

definition srv_compute_exchange_hash ::
  "noxtls \<Rightarrow> netnox_ssh_server_t \<Rightarrow> view \<Rightarrow> view \<Rightarrow> view \<Rightarrow> bytes \<Rightarrow> bytes res" where
  "srv_compute_exchange_hash = netnox_ssh_compute_exchange_hash"

definition srv_derive_key_block :: "noxtls \<Rightarrow> netnox_ssh_server_t \<Rightarrow> byte \<Rightarrow> u32 \<Rightarrow> bytes res" where
  "srv_derive_key_block = netnox_ssh_derive_key_block"

definition srv_derive_transport_keys :: "noxtls \<Rightarrow> (netnox_ssh_server_t, unit) prog" where
  "srv_derive_transport_keys = netnox_ssh_derive_transport_keys"

subsection \<open>The host key signature\<close>

text \<open>\<open>FAILED\<close> wherever a view cannot be read.\<close>

definition view_at :: "view \<Rightarrow> u32 \<Rightarrow> (view \<times> u32) res" where
  "view_at v off = recode NETNOX_RETURN_FAILED (netnox_ssh_payload_read_string_view (fst v) (snd v) off)"

definition verify_ed25519_host_key :: "noxtls \<Rightarrow> view \<Rightarrow> u32 \<Rightarrow> view \<Rightarrow> bytes \<Rightarrow> unit res" where
  "verify_ed25519_host_key C host_key_blob hk_off sig_data exchange_hash =
     bindR (view_at host_key_blob hk_off) (\<lambda>(hk_e, _).
     if snd hk_e \<noteq> 32 \<or> snd sig_data \<noteq> 64 then Err NETNOX_RETURN_FAILED
     else bindR (fetch (fst hk_e) 32) (\<lambda>pk.
     bindR (fetch (fst sig_data) 64) (\<lambda>sig.
     if noxtls_ed25519_verify C pk exchange_hash sig then Ok () else Err NETNOX_RETURN_FAILED)))"

definition rsa_bits :: "nat \<Rightarrow> nat option" where
  "rsa_bits n = (if n \<le> 128 then Some 1024 else if n \<le> 256 then Some 2048
     else if n \<le> 384 then Some 3072 else if n \<le> 512 then Some 4096 else None)"

text \<open>A number right-aligned in an array of \<open>n\<close> zero bytes.\<close>

definition right_align :: "nat \<Rightarrow> bytes \<Rightarrow> bytes" where
  "right_align n d = replicate (n - length d) 0 @ d"

definition verify_rsa_host_key ::
  "noxtls \<Rightarrow> view \<Rightarrow> u32 \<Rightarrow> view \<Rightarrow> noxtls_hash_algos_t \<Rightarrow> bytes \<Rightarrow> unit res" where
  "verify_rsa_host_key C host_key_blob hk_off sig_data rsa_hash exchange_hash =
     bindR (view_at host_key_blob hk_off) (\<lambda>(hk_e, off1).
     bindR (view_at host_key_blob off1) (\<lambda>(hk_n, _).
     bindR (skip_zeros (fst hk_n) (unat (snd hk_n))) (\<lambda>(n_ptr, n_len).
     bindR (skip_zeros (fst hk_e) (unat (snd hk_e))) (\<lambda>(e_ptr, e_len).
     if n_len = 0 \<or> e_len = 0 then Err NETNOX_RETURN_FAILED
     else case rsa_bits n_len of None \<Rightarrow> Err NETNOX_RETURN_FAILED
     | Some bits \<Rightarrow>
        (case noxtls_rsa_key_init C bits of None \<Rightarrow> Err NETNOX_RETURN_FAILED
         | Some key_bytes \<Rightarrow>
            if n_len > key_bytes \<or> e_len > key_bytes then Err NETNOX_RETURN_FAILED
            else bindR (fetch n_ptr n_len) (\<lambda>n.
            bindR (fetch e_ptr e_len) (\<lambda>e.
            if unat (snd sig_data) > key_bytes then Err NETNOX_RETURN_FAILED
            else if key_bytes > 512 then Err NETNOX_RETURN_FAILED
            else bindR (fetch (fst sig_data) (unat (snd sig_data))) (\<lambda>sig.
            if noxtls_rsa_verify C key_bytes (right_align key_bytes n) (right_align key_bytes e)
                 exchange_hash (right_align key_bytes sig) rsa_hash
            then Ok () else Err NETNOX_RETURN_FAILED))))))))"

definition netnox_ssh_verify_server_host_key_signature ::
  "noxtls \<Rightarrow> view \<Rightarrow> view \<Rightarrow> bytes \<Rightarrow> unit res" where
  "netnox_ssh_verify_server_host_key_signature C host_key_blob sig_blob exchange_hash =
     (if snd host_key_blob = 0 \<or> snd sig_blob = 0 \<or> exchange_hash = [] then Err NETNOX_RETURN_BAD_PARAM
      else bindR (view_at host_key_blob 0) (\<lambda>(hk_alg, hk_off).
      bindR (view_at sig_blob 0) (\<lambda>(sig_alg, sig_off).
      bindR (view_at sig_blob sig_off) (\<lambda>(sig_data, _).
      bindR (view_eq hk_alg (ascii ''ssh-ed25519'')) (\<lambda>hk_ed.
      bindR (if hk_ed then view_eq sig_alg (ascii ''ssh-ed25519'') else Ok False) (\<lambda>ed.
      if ed then verify_ed25519_host_key C host_key_blob hk_off sig_data exchange_hash
      else bindR (view_eq hk_alg (ascii ''ssh-rsa'')) (\<lambda>hk_rsa.
      bindR (if hk_rsa then view_eq sig_alg (ascii ''rsa-sha2-256'') else Ok False) (\<lambda>sha2.
      bindR (if hk_rsa \<and> \<not> sha2 then view_eq sig_alg (ascii ''ssh-rsa'') else Ok False) (\<lambda>sha1.
      if sha2 \<or> sha1
      then verify_rsa_host_key C host_key_blob hk_off sig_data
             (if snd sig_alg = 12 then NOXTLS_HASH_SHA_256 else NOXTLS_HASH_SHA1) exchange_hash
      else Err NETNOX_RETURN_FAILED)))))))))"

subsection \<open>The client's exchange\<close>

definition keygenM :: "noxtls \<Rightarrow> ('z ssh_context_scheme, bytes \<times> bytes) prog" where
  "keygenM C = ioM (\<lambda>w. (case noxtls_x25519_generate_key C (keygen_pos w) of
       None \<Rightarrow> Err NETNOX_RETURN_FAILED | Some kp \<Rightarrow> Ok kp,
     w\<lparr>keygen_pos := Suc (keygen_pos w)\<rparr>))"

text \<open>The type of the waiting function: two message numbers and the size of the output buffer.\<close>

type_synonym waiter = "byte \<Rightarrow> byte \<Rightarrow> u32 \<Rightarrow> (netnox_ssh_client_t, bytes) prog"

text \<open>The three views of the reply, and the checks on them.\<close>

definition parse_ecdh_reply :: "bytes \<Rightarrow> (view \<times> view \<times> view) res" where
  "parse_ecdh_reply reply =
     bindR (if reply = [] \<or> hd reply \<noteq> 31 then Err NETNOX_RETURN_FAILED else Ok ()) (\<lambda>_.
     bindR (view_at (reply, u32len reply) 1) (\<lambda>(host_key_blob, off1).
     bindR (view_at (reply, u32len reply) off1) (\<lambda>(pub_s, off2).
     bindR (view_at (reply, u32len reply) off2) (\<lambda>(sig_h, _).
     if snd sig_h = 0 \<or> snd pub_s \<noteq> 32 then Err NETNOX_RETURN_FAILED
     else if snd host_key_blob = 0 \<or> snd host_key_blob > 2048 then Err NETNOX_RETURN_FAILED
     else Ok (host_key_blob, pub_s, sig_h)))))"

text \<open>From the reply to the verified exchange hash; the host key is stored before it is verified.\<close>

definition accept_ecdh_reply ::
  "noxtls \<Rightarrow> bytes \<Rightarrow> bytes \<Rightarrow> bytes \<Rightarrow> (netnox_ssh_client_t, unit) prog" where
  "accept_ecdh_reply C priv pub_c reply =
     bindM (liftM (parse_ecdh_reply reply)) (\<lambda>(host_key_blob, pub_s, sig_h).
     bindM (liftM (fetch (fst host_key_blob) (unat (snd host_key_blob)))) (\<lambda>blob.
     bindM (setM (\<lambda>c. c\<lparr>server_host_key_blob := blob\<rparr>)) (\<lambda>_.
     bindM (checkedM NETNOX_RETURN_FAILED (liftM (netnox_ssh_sha256 C blob))) (\<lambda>fp.
     bindM (setM (\<lambda>c. c\<lparr>server_host_key_fingerprint := fp, server_host_key_ready := True\<rparr>)) (\<lambda>_.
     bindM (liftM (fetch (fst pub_s) 32)) (\<lambda>pub.
     bindM (liftM (case noxtls_x25519_shared_secret C priv pub of
              None \<Rightarrow> Err NETNOX_RETURN_FAILED | Some k \<Rightarrow> Ok k)) (\<lambda>shared_raw.
     bindM (\<lambda>c. checkedM NETNOX_RETURN_FAILED
              (liftM (netnox_ssh_compute_exchange_hash C c host_key_blob (pub_c, 32) pub_s shared_raw)) c) (\<lambda>h.
     bindM (setM (\<lambda>c. c\<lparr>session_id := h\<rparr>)) (\<lambda>_.
     bindM (checkedM NETNOX_RETURN_FAILED
              (liftM (netnox_ssh_verify_server_host_key_signature C host_key_blob sig_h h))) (\<lambda>_.
     setM (\<lambda>c. c\<lparr>session_id_len := 32, shared_secret_raw := shared_raw\<rparr>)))))))))))"

definition netnox_ssh_perform_curve25519_kex ::
  "noxtls \<Rightarrow> waiter \<Rightarrow> (netnox_ssh_client_t, unit) prog" where
  "netnox_ssh_perform_curve25519_kex C wait =
     bindM (ifM (\<lambda>c. \<not> kexinit_exchanged c) (throwM NETNOX_RETURN_BAD_PARAM) (retM ())) (\<lambda>_.
     bindM (keygenM C) (\<lambda>(priv, pub_c).
     bindM (liftM (build 128 [netnox_ssh_payload_append_u8 30,
              netnox_ssh_payload_append_string pub_c 32])) (\<lambda>kex_init_payload.
     bindM (checkedM NETNOX_RETURN_FAILED (netnox_ssh_send_packet C kex_init_payload)) (\<lambda>_.
     bindM (checkedM NETNOX_RETURN_FAILED (wait 31 0xFF 2048)) (\<lambda>reply.
     bindM (accept_ecdh_reply C priv pub_c reply) (\<lambda>_.
     bindM (checkedM NETNOX_RETURN_FAILED (netnox_ssh_send_packet C [21])) (\<lambda>_.
     bindM (checkedM NETNOX_RETURN_FAILED (wait 21 0xFF 2048)) (\<lambda>newkeys.
     bindM (failM (newkeys = [] \<or> hd newkeys \<noteq> 21) NETNOX_RETURN_FAILED) (\<lambda>_.
     bindM (checkedM NETNOX_RETURN_FAILED (netnox_ssh_derive_transport_keys C)) (\<lambda>_.
     setM (\<lambda>c. c\<lparr>key_exchange_complete := True\<rparr>)))))))))))"

definition netnox_ssh_handle_server_kexinit ::
  "noxtls \<Rightarrow> waiter \<Rightarrow> bytes \<Rightarrow> (netnox_ssh_client_t, unit) prog" where
  "netnox_ssh_handle_server_kexinit C wait server_kexinit =
     bindM (failM (server_kexinit = []) NETNOX_RETURN_BAD_PARAM) (\<lambda>_.
     bindM (failM (hd server_kexinit \<noteq> 20) NETNOX_RETURN_BAD_PARAM) (\<lambda>_.
     bindM (failM (u32len server_kexinit > 32768) NETNOX_RETURN_FAILED) (\<lambda>_.
     bindM (checkedM NETNOX_RETURN_FAILED (liftM (netnox_ssh_validate_server_kexinit server_kexinit))) (\<lambda>_.
     bindM (setM (\<lambda>c. c\<lparr>kexinit_server_payload := server_kexinit\<rparr>)) (\<lambda>_.
     bindM (checkedM NETNOX_RETURN_FAILED (netnox_ssh_build_kexinit_payload 1024)) (\<lambda>tx_payload.
     bindM (failM (u32len tx_payload > 32768) NETNOX_RETURN_FAILED) (\<lambda>_.
     bindM (setM (\<lambda>c. c\<lparr>kexinit_client_payload := tx_payload\<rparr>)) (\<lambda>_.
     bindM (checkedM NETNOX_RETURN_FAILED (netnox_ssh_send_packet C tx_payload)) (\<lambda>_.
     bindM (setM (\<lambda>c. c\<lparr>kexinit_exchanged := True\<rparr>)) (\<lambda>_.
     netnox_ssh_perform_curve25519_kex C wait))))))))))"

text \<open>The loop of at most 32 received packets.\<close>

primrec wait_loop ::
  "noxtls \<Rightarrow> (bytes \<Rightarrow> (netnox_ssh_client_t, unit) prog) \<Rightarrow> byte \<Rightarrow> byte \<Rightarrow> u32 \<Rightarrow> nat \<Rightarrow>
   (netnox_ssh_client_t, bytes) prog" where
  "wait_loop C rekey expect_a expect_b out_max 0 = throwM NETNOX_RETURN_FAILED"
| "wait_loop C rekey expect_a expect_b out_max (Suc i) =
     bindM (checkedM NETNOX_RETURN_FAILED (netnox_ssh_recv_packet C 35000)) (\<lambda>rx_payload.
     if rx_payload = [] then wait_loop C rekey expect_a expect_b out_max i
     else if hd rx_payload = 20
     then bindM (checkedM NETNOX_RETURN_FAILED (rekey rx_payload)) (\<lambda>_.
          wait_loop C rekey expect_a expect_b out_max i)
     else if hd rx_payload = expect_a \<or> hd rx_payload = expect_b
     then (if u32len rx_payload > out_max then throwM NETNOX_RETURN_FAILED else retM rx_payload)
     else wait_loop C rekey expect_a expect_b out_max i)"

primrec netnox_ssh_wait_for_message :: "noxtls \<Rightarrow> nat \<Rightarrow> waiter" where
  "netnox_ssh_wait_for_message C 0 = (\<lambda>expect_a expect_b out_max c. (Hang, c))"
| "netnox_ssh_wait_for_message C (Suc fuel) = (\<lambda>expect_a expect_b out_max.
     wait_loop C (netnox_ssh_handle_server_kexinit C (netnox_ssh_wait_for_message C fuel))
       expect_a expect_b out_max 32)"

definition netnox_ssh_exchange_kexinit :: "noxtls \<Rightarrow> waiter \<Rightarrow> (netnox_ssh_client_t, unit) prog" where
  "netnox_ssh_exchange_kexinit C wait =
     bindM (ifM (\<lambda>c. \<not> connected c) (throwM NETNOX_RETURN_BAD_PARAM) (retM ())) (\<lambda>_.
     bindM (checkedM NETNOX_RETURN_FAILED (netnox_ssh_build_kexinit_payload 1024)) (\<lambda>tx_payload.
     bindM (failM (u32len tx_payload > 32768) NETNOX_RETURN_FAILED) (\<lambda>_.
     bindM (setM (\<lambda>c. c\<lparr>kexinit_client_payload := tx_payload\<rparr>)) (\<lambda>_.
     bindM (checkedM NETNOX_RETURN_FAILED (netnox_ssh_send_packet C tx_payload)) (\<lambda>_.
     bindM (checkedM NETNOX_RETURN_FAILED (netnox_ssh_recv_packet C 35000)) (\<lambda>rx_payload.
     bindM (failM (rx_payload = [] \<or> hd rx_payload \<noteq> 20) NETNOX_RETURN_FAILED) (\<lambda>_.
     bindM (failM (u32len rx_payload > 32768) NETNOX_RETURN_FAILED) (\<lambda>_.
     bindM (setM (\<lambda>c. c\<lparr>kexinit_server_payload := rx_payload\<rparr>)) (\<lambda>_.
     bindM (checkedM NETNOX_RETURN_FAILED (liftM (netnox_ssh_validate_server_kexinit rx_payload))) (\<lambda>_.
     bindM (setM (\<lambda>c. c\<lparr>kexinit_exchanged := True\<rparr>)) (\<lambda>_.
     netnox_ssh_perform_curve25519_kex C wait)))))))))))"

subsection \<open>The server's exchange\<close>

definition srv_build_host_key_blob :: "netnox_ssh_server_t \<Rightarrow> u32 \<Rightarrow> bytes res" where
  "srv_build_host_key_blob s out_max =
     build out_max [append_bytes (ascii ''ssh-ed25519''),
       netnox_ssh_payload_append_string (host_ed25519_pk s) 32]"

definition srv_exchange_kexinit :: "noxtls \<Rightarrow> (netnox_ssh_server_t, unit) prog" where
  "srv_exchange_kexinit C =
     bindM (ifM (\<lambda>s. \<not> connected s) (throwM NETNOX_RETURN_BAD_PARAM) (retM ())) (\<lambda>_.
     bindM (checkedM NETNOX_RETURN_FAILED (srv_recv_packet C 35000)) (\<lambda>rx_payload.
     bindM (failM (rx_payload = [] \<or> hd rx_payload \<noteq> 20) NETNOX_RETURN_FAILED) (\<lambda>_.
     bindM (failM (u32len rx_payload > 32768) NETNOX_RETURN_FAILED) (\<lambda>_.
     bindM (setM (\<lambda>s. s\<lparr>kexinit_client_payload := rx_payload\<rparr>)) (\<lambda>_.
     bindM (checkedM NETNOX_RETURN_FAILED (liftM (netnox_ssh_validate_client_kexinit rx_payload))) (\<lambda>_.
     bindM (checkedM NETNOX_RETURN_FAILED (srv_build_kexinit_payload 1024)) (\<lambda>tx_payload.
     bindM (failM (u32len tx_payload > 32768) NETNOX_RETURN_FAILED) (\<lambda>_.
     bindM (setM (\<lambda>s. s\<lparr>kexinit_server_payload := tx_payload\<rparr>)) (\<lambda>_.
     bindM (checkedM NETNOX_RETURN_FAILED (srv_send_packet C tx_payload)) (\<lambda>_.
     setM (\<lambda>s. s\<lparr>kexinit_exchanged := True\<rparr>)))))))))))"

text \<open>The client's public value from the INIT message.\<close>

definition parse_ecdh_init :: "bytes \<Rightarrow> view res" where
  "parse_ecdh_init init_payload =
     (if init_payload = [] \<or> hd init_payload \<noteq> 30 then Err NETNOX_RETURN_FAILED
      else bindR (view_at (init_payload, u32len init_payload) 1) (\<lambda>(pub_c, _).
      if snd pub_c \<noteq> 32 then Err NETNOX_RETURN_FAILED else Ok pub_c))"

definition srv_perform_curve25519_kex :: "noxtls \<Rightarrow> (netnox_ssh_server_t, unit) prog" where
  "srv_perform_curve25519_kex C =
     bindM (ifM (\<lambda>s. \<not> kexinit_exchanged s \<or> \<not> host_key_ready s)
              (throwM NETNOX_RETURN_BAD_PARAM) (retM ())) (\<lambda>_.
     bindM (checkedM NETNOX_RETURN_FAILED (srv_recv_packet C 2048)) (\<lambda>init_payload.
     bindM (liftM (parse_ecdh_init init_payload)) (\<lambda>pub_c.
     bindM (checkedM NETNOX_RETURN_FAILED (ioM (srv_fill_random 32))) (\<lambda>seed.
     let priv_s = noxtls_x25519_clamp_scalar C seed in
     bindM (liftM (case noxtls_x25519_public_key C priv_s of
              None \<Rightarrow> Err NETNOX_RETURN_FAILED | Some p \<Rightarrow> Ok p)) (\<lambda>pub_s.
     bindM (liftM (fetch (fst pub_c) 32)) (\<lambda>pub.
     bindM (liftM (case noxtls_x25519_shared_secret C priv_s pub of
              None \<Rightarrow> Err NETNOX_RETURN_FAILED | Some k \<Rightarrow> Ok k)) (\<lambda>shared_raw.
     bindM (\<lambda>s. liftM (recode NETNOX_RETURN_FAILED (srv_build_host_key_blob s 256)) s) (\<lambda>host_blob.
     bindM (\<lambda>s. liftM (recode NETNOX_RETURN_FAILED (srv_compute_exchange_hash C s
              (host_blob, u32len host_blob) pub_c (pub_s, 32) shared_raw)) s) (\<lambda>h.
     bindM (setM (\<lambda>s. s\<lparr>session_id := h, session_id_len := 32, shared_secret_raw := shared_raw\<rparr>)) (\<lambda>_.
     bindM (\<lambda>s. liftM (case noxtls_ed25519_sign C (host_ed25519_sk s) h of
              None \<Rightarrow> Err NETNOX_RETURN_FAILED | Some sig \<Rightarrow> Ok sig) s) (\<lambda>sig64.
     bindM (liftM (build 128 [append_bytes (ascii ''ssh-ed25519''),
              netnox_ssh_payload_append_string sig64 64])) (\<lambda>sig_wire.
     bindM (liftM (build 2048 [netnox_ssh_payload_append_u8 31, append_bytes host_blob,
              netnox_ssh_payload_append_string pub_s 32, append_bytes sig_wire])) (\<lambda>reply.
     bindM (checkedM NETNOX_RETURN_FAILED (srv_send_packet C reply)) (\<lambda>_.
     bindM (checkedM NETNOX_RETURN_FAILED (srv_send_packet C [21])) (\<lambda>_.
     bindM (checkedM NETNOX_RETURN_FAILED (srv_recv_packet C 64)) (\<lambda>rx.
     bindM (failM (rx = [] \<or> hd rx \<noteq> 21) NETNOX_RETURN_FAILED) (\<lambda>_.
     bindM (checkedM NETNOX_RETURN_FAILED (srv_derive_transport_keys C)) (\<lambda>_.
     setM (\<lambda>s. s\<lparr>key_exchange_complete := True\<rparr>)))))))))))))))))))"

section \<open>Exchange hash and key derivation\<close>

definition kex_hash_input ::
  "'z ssh_context_scheme \<Rightarrow> bytes \<Rightarrow> bytes \<Rightarrow> bytes \<Rightarrow> bytes \<Rightarrow> bytes" where
  "kex_hash_input c hk pub_c pub_s k =
     ssh_string (client_ident c) @ ssh_string (server_ident c) @
     ssh_string (kexinit_client_payload c) @ ssh_string (kexinit_server_payload c) @
     ssh_string hk @ ssh_string pub_c @ ssh_string pub_s @ ssh_mpint k"

lemma append_string_with_more: "appender (netnox_ssh_payload_append_string (d @ post) (u32len d)) (ssh_string d)"
  by unfold_locales (simp add: append_string_spec)

lemma u32len_32: "length d = 32 \<Longrightarrow> u32len d = 32"
  by (simp add: u32len_def)

lemma compute_exchange_hash_eq:
  assumes "sha_ok C" and "length pub_c = 32" and "length pub_s = 32" and "length k = 32"
    and "length (kex_hash_input c hk pub_c pub_s k) < 2 ^ 31"
  shows "netnox_ssh_compute_exchange_hash C c (hk @ post, u32len hk) (pub_c @ post_c, 32) (pub_s @ post_s, 32) k =
    (if length (kex_hash_input c hk pub_c pub_s k) \<le> 4096
     then Ok (digest C (kex_hash_input c hk pub_c pub_s k)) else Err NETNOX_RETURN_FAILED)"
proof -
  let ?es = "[ssh_string (client_ident c), ssh_string (server_ident c),
     ssh_string (kexinit_client_payload c), ssh_string (kexinit_server_payload c),
     ssh_string hk, ssh_string pub_c, ssh_string pub_s, ssh_mpint k]"
  have "list_all2 appender
       [append_bytes (client_ident c), append_bytes (server_ident c),
        append_bytes (kexinit_client_payload c), append_bytes (kexinit_server_payload c),
        netnox_ssh_payload_append_string (hk @ post) (u32len hk),
        netnox_ssh_payload_append_string (pub_c @ post_c) 32,
        netnox_ssh_payload_append_string (pub_s @ post_s) 32,
        netnox_ssh_buf_append_mpint_be k 32] ?es"
    using append_string_with_more [of pub_c post_c] append_string_with_more [of pub_s post_s]
      appender_mpint [of k] assms(2-4)
    by (simp add: u32len_32 app_string.appender_axioms append_string_with_more)
  from append_all_spec [OF this, of "[]" 4096] assms(5)
  show ?thesis
    using assms(1)
    by (simp add: netnox_ssh_compute_exchange_hash_def kex_hash_input_def netnox_ssh_sha256_def sha_ok_digest)
qed

definition kdf_secret :: "bool \<Rightarrow> bytes \<Rightarrow> bytes" where
  "kdf_secret use_mpint k = (if use_mpint then ssh_mpint k else k)"

lemma length_ssh_mpint: "length (ssh_mpint d) \<le> 5 + length d"
proof -
  have "length (significant d) \<le> length d" by (simp add: significant_def length_dropWhile_le)
  then show ?thesis by (auto simp: ssh_mpint_def mpint_digits_def split: list.splits)
qed

lemma append_secret_eq:
  assumes "length k = 32" and "37 \<le> unat cap" and "unat cap < 2 ^ 31"
  shows "append_secret use_mpint k cap = Ok (kdf_secret use_mpint k)"
proof -
  have m: "netnox_ssh_buf_append_mpint_be k 32 [] 37 = Ok (ssh_mpint k)"
    using appender.op_spec [OF appender_mpint [of k], of "[]" 37] length_ssh_mpint [of k] assms(1)
    by (simp add: u32len_32)
  show ?thesis
    using m assms app_buf.op_spec [of "[]" cap "ssh_mpint k"] app_buf.op_spec [of "[]" cap k]
      length_ssh_mpint [of k]
    by (simp add: append_secret_def kdf_secret_def u32len_32)
qed

text \<open>RFC 4253, section 7.2: the key of a letter from the secret \<open>k\<close> as it is encoded, the exchange hash \<open>h\<close> and the session
  identifier \<open>sid\<close>, which is the exchange hash of the first exchange. K1 is HASH(k, h, X, sid), what follows it is
  HASH(k, h, all output so far).\<close>

fun kdf_stream :: "noxtls \<Rightarrow> bytes \<Rightarrow> bytes \<Rightarrow> bytes \<Rightarrow> nat \<Rightarrow> bytes" where
  "kdf_stream C k h seed 0 = digest C (k @ h @ seed)"
| "kdf_stream C k h seed (Suc n) =
     (let out = kdf_stream C k h seed n in out @ digest C (k @ h @ out))"

definition kdf :: "noxtls \<Rightarrow> bytes \<Rightarrow> bytes \<Rightarrow> bytes \<Rightarrow> byte \<Rightarrow> nat \<Rightarrow> bytes" where
  "kdf C k h sid selector n = take n (kdf_stream C k h (selector # sid) n)"

lemma length_kdf_stream: "sha_ok C \<Longrightarrow> length (kdf_stream C k h x n) = 32 * (n + 1)"
  by (induction n) (simp_all add: Let_def sha_ok_digest)

lemma kdf_stream_prefix: "i \<le> j \<Longrightarrow> prefix (kdf_stream C k h x i) (kdf_stream C k h x j)"
  by (induction j) (auto simp: le_Suc_eq Let_def intro: prefix_order.trans)

lemma take_kdf_stream:
  assumes "sha_ok C" "n \<le> 32 * (i + 1)" "i \<le> j"
  shows "take n (kdf_stream C k h x j) = take n (kdf_stream C k h x i)"
  using kdf_stream_prefix [OF assms(3), of C k h x] length_kdf_stream [OF assms(1), of k h x i] assms(2)
  by (auto simp: prefix_def)

lemma derive_more_eq:
  assumes C: "sha_ok C" and k: "length k = 32" and h: "u32len h = sl" "length h \<le> 255"
    and n: "n \<le> 1500"
  shows "n \<le> 32 * (m + 1) \<Longrightarrow> 32 * i \<le> 32 * m \<Longrightarrow>
    derive_more C u k h sl n (take n (kdf_stream C (kdf_secret u k) h x i)) =
    Ok (take n (kdf_stream C (kdf_secret u k) h x m))"
proof (induction "m - i" arbitrary: i)
  case 0
  then show ?case using length_kdf_stream [OF C] by (subst derive_more.simps) (auto simp: min_def)
next
  case (Suc d)
  let ?K = "kdf_secret u k"
  let ?o = "kdf_stream C ?K h x i"
  have lo: "length ?o = 32 * (i + 1)" using length_kdf_stream [OF C] .
  show ?case
  proof (cases "length ?o < n")
    case False
    then have "take n ?o = take n (kdf_stream C ?K h x m)"
      using lo take_kdf_stream [OF C, of n i m ?K h x] Suc by simp
    moreover have "derive_more C u k h sl n (take n ?o) = Ok (take n ?o)"
      using False by (subst derive_more.simps) simp
    ultimately show ?thesis by simp
  next
    case True
    have ih: "derive_more C u k h sl n (take n (kdf_stream C ?K h x (Suc i))) =
        Ok (take n (kdf_stream C ?K h x m))"
      using Suc by (intro Suc.hyps(1)) auto
    have lk: "length ?K \<le> 37" using length_ssh_mpint [of k] k by (simp add: kdf_secret_def)
    have a: "append_all 2048 [netnox_ssh_buf_append h sl, netnox_ssh_buf_append ?o (u32len ?o)] ?K = Ok (?K @ h @ ?o)"
      using append_all_spec [of "[netnox_ssh_buf_append h sl, netnox_ssh_buf_append ?o (u32len ?o)]" "[h, ?o]" ?K 2048]
        app_buf.appender_axioms [of h] app_buf.appender_axioms [of ?o] h lk True n by simp
    have s: "append_secret u k 2048 = Ok ?K" using k by (simp add: append_secret_eq)
    have "take n (kdf_stream C ?K h x (Suc i)) = ?o @ take (min (n - length ?o) 32) (digest C (?K @ h @ ?o))"
      using True C by (simp add: Let_def sha_ok_digest min_def)
    then show ?thesis
      using True ih C s a
      by (subst derive_more.simps) (simp add: netnox_ssh_sha256_def sha_ok_digest fetch_def)
  qed
qed

lemma derive_key_block_eq:
  assumes C: "sha_ok C" and k: "length (shared_secret_raw c) = 32"
    and h: "length (session_id c) = unat (session_id_len c)" "session_id_len c \<noteq> 0"
    and n: "0 < unat n" "unat n \<le> 1500"
  shows "netnox_ssh_derive_key_block C c x n =
    Ok (kdf C (kdf_secret (env_key_deriv_mpint (io_user_data c)) (shared_secret_raw c)) (session_id c) (session_id c) x (unat n))"
proof -
  let ?u = "env_key_deriv_mpint (io_user_data c)" and ?h = "session_id c"
  let ?K = "kdf_secret ?u (shared_secret_raw c)" and ?sl = "ucast (session_id_len c) :: u32"
  have sl: "u32len ?h = ?sl" using h by (simp add: u32len_def)
  have lh: "length ?h \<le> 255" using h unsigned_less [of "session_id_len c", where 'a = nat] by simp
  have lk: "length ?K \<le> 37" using length_ssh_mpint [of "shared_secret_raw c"] k by (simp add: kdf_secret_def)
  have one: "netnox_ssh_buf_append [x] 1 = netnox_ssh_buf_append [x] (u32len [x])" by (simp add: u32len_def)
  have a: "append_all 1024 [netnox_ssh_buf_append ?h ?sl, netnox_ssh_buf_append [x] 1, netnox_ssh_buf_append ?h ?sl] ?K =
      Ok (?K @ ?h @ x # ?h)"
    using append_all_spec [of "[netnox_ssh_buf_append ?h ?sl, netnox_ssh_buf_append [x] 1, netnox_ssh_buf_append ?h ?sl]"
        "[?h, [x], ?h]" ?K 1024] app_buf.appender_axioms [of ?h] app_buf.appender_axioms [of "[x]"] lk lh
    by (simp add: one sl)
  have s: "append_secret ?u (shared_secret_raw c) 1024 = Ok ?K" using k by (simp add: append_secret_eq)
  have t: "take (min (unat n) 32) (digest C (?K @ ?h @ x # ?h)) =
      take (unat n) (kdf_stream C ?K ?h (x # ?h) 0)"
    using C by (simp add: sha_ok_digest min_def)
  have "derive_more C ?u (shared_secret_raw c) ?h ?sl (unat n) (take (unat n) (kdf_stream C ?K ?h (x # ?h) 0)) =
      Ok (take (unat n) (kdf_stream C ?K ?h (x # ?h) (unat n)))"
    using C k sl lh n by (intro derive_more_eq) auto
  moreover have "n \<noteq> 0" using n by auto
  ultimately show ?thesis
    using C h s a t
    by (simp add: netnox_ssh_derive_key_block_def Let_def netnox_ssh_sha256_def sha_ok_digest fetch_def kdf_def)
qed

lemma length_kdf: "sha_ok C \<Longrightarrow> length (kdf C k h sid x n) = n"
  by (simp add: kdf_def length_kdf_stream)

text \<open>The code takes one hash, the last one, in both places.\<close>

definition transport_keys :: "noxtls \<Rightarrow> bytes \<Rightarrow> bytes \<Rightarrow> 'z ssh_context_scheme \<Rightarrow> 'z ssh_context_scheme" where
  "transport_keys C k h c = c\<lparr>c2s_iv := kdf C k h h 65 16, s2c_iv := kdf C k h h 66 16, c2s_key := kdf C k h h 67 16,
     s2c_key := kdf C k h h 68 16, c2s_mac_key := kdf C k h h 69 32, s2c_mac_key := kdf C k h h 70 32,
     c2s_counter := kdf C k h h 65 16, s2c_counter := kdf C k h h 66 16\<rparr>"

lemma derive_into_run:
  assumes "sha_ok C" and "length (shared_secret_raw c) = 32" and "length (session_id c) = unat (session_id_len c)"
    and "session_id_len c \<noteq> 0" and "0 < unat n" and "unat n \<le> 1500"
  shows "derive_into C x n put c = (Ok (), put (kdf C (kdf_secret (env_key_deriv_mpint (io_user_data c))
     (shared_secret_raw c)) (session_id c) (session_id c) x (unat n)) c)"
  using derive_key_block_eq [OF assms, of x] by (simp add: derive_into_def bindM_def liftM_def setM_def)

lemma derive_transport_keys_eq:
  assumes "sha_ok C" and "length (shared_secret_raw c) = 32" and "length (session_id c) = unat (session_id_len c)"
    and "session_id_len c \<noteq> 0"
  shows "netnox_ssh_derive_transport_keys C c = (Ok (), transport_keys C
    (kdf_secret (env_key_deriv_mpint (io_user_data c)) (shared_secret_raw c)) (session_id c) c)"
  using assms
  by (simp add: netnox_ssh_derive_transport_keys_def bindM_def [of "ifM _ _ _"] ifM_def retM_def
      bindM_step [OF derive_into_run] setM_def transport_keys_def)

section \<open>KEXINIT\<close>

definition kexinit_msg :: "bytes \<Rightarrow> bytes list \<Rightarrow> bytes" where
  "kexinit_msg cookie ls = 20 # cookie @ concat (map ssh_string ls) @ replicate 5 0"

fun offers :: "bytes option list \<Rightarrow> bytes list \<Rightarrow> bool" where
  "offers (Some tok # rs) (l # ls) = (tok \<in> set (split_on 44 l) \<and> offers rs ls)"
| "offers (None # rs) (l # ls) = offers rs ls"
| "offers rs ls = (rs = [])"

lemma check_namelists_eq:
  assumes "length (pre @ concat (map ssh_string ls) @ post) \<le> unat plen" and "length rs \<le> length ls"
    and "Some [] \<notin> set rs"
  shows "check_namelists (pre @ concat (map ssh_string ls) @ post) plen (u32len pre) rs =
    (if offers rs ls then Ok () else Err NETNOX_RETURN_FAILED)"
  using assms
proof (induction rs ls arbitrary: pre rule: offers.induct)
  case (1 tok rs l ls)
  let ?post = "concat (map ssh_string ls) @ post"
  have rd: "netnox_ssh_payload_read_string_view (pre @ ssh_string l @ ?post) plen (u32len pre) =
      Ok ((l @ ?post, u32len l), u32len (pre @ ssh_string l))"
    using "1.prems"(1) by (intro read_string_at) simp
  have "length l < 2 ^ 32"
    using "1.prems"(1) unsigned_less [of plen, where 'a = nat] by simp
  then have c: "netnox_ssh_namelist_contains (l @ ?post, u32len l) tok = Ok (tok \<in> set (split_on 44 l))"
    using "1.prems"(3) by (auto simp: netnox_ssh_namelist_contains_def names_contain_iff unat_u32len)
  have "check_namelists ((pre @ ssh_string l) @ ?post) plen (u32len (pre @ ssh_string l)) rs =
      (if offers rs ls then Ok () else Err NETNOX_RETURN_FAILED)"
    if "tok \<in> set (split_on 44 l)" using "1.prems" by (intro "1.IH") auto
  with rd c show ?case by simp
next
  case (2 rs l ls)
  let ?post = "concat (map ssh_string ls) @ post"
  have rd: "netnox_ssh_payload_read_string_view (pre @ ssh_string l @ ?post) plen (u32len pre) =
      Ok ((l @ ?post, u32len l), u32len (pre @ ssh_string l))"
    using "2.prems"(1) by (intro read_string_at) simp
  have "check_namelists ((pre @ ssh_string l) @ ?post) plen (u32len (pre @ ssh_string l)) rs =
      (if offers rs ls then Ok () else Err NETNOX_RETURN_FAILED)"
    using "2.prems" by (intro "2.IH") auto
  with rd show ?case by simp
qed simp_all

lemma validate_kexinit_eq:
  assumes "length cookie = 16" and "length (kexinit_msg cookie ls) < 2 ^ 32" and "length rs \<le> length ls"
    and "Some [] \<notin> set rs"
  shows "validate_kexinit rs (kexinit_msg cookie ls) =
    (if offers rs ls then Ok () else Err NETNOX_RETURN_FAILED)"
proof -
  let ?p = "kexinit_msg cookie ls"
  have len: "unat (u32len ?p) = length ?p" using assms(2) by (rule unat_u32len)
  then have "\<not> u32len ?p < 1 + 16" using assms(1) by (simp add: word_less_nat_alt kexinit_msg_def)
  moreover have "check_namelists ((20 # cookie) @ concat (map ssh_string ls) @ replicate 5 0) (u32len ?p)
      (u32len (20 # cookie)) rs = (if offers rs ls then Ok () else Err NETNOX_RETURN_FAILED)"
    using len assms by (intro check_namelists_eq) (simp_all add: kexinit_msg_def)
  moreover have "u32len (20 # cookie) = 1 + 16" using assms(1) by (simp add: u32len_def)
  ultimately show ?thesis by (simp add: validate_kexinit_def kexinit_msg_def fetch1_def)
qed

definition client_lists :: "bytes list" where
  "client_lists = [kex_algs, host_key_algs, cipher_algs, cipher_algs, mac_algs, mac_algs,
     compression_algs, compression_algs, [], []]"

definition server_lists :: "bytes list" where
  "server_lists = [ascii ''curve25519-sha256'', ascii ''ssh-ed25519'', ascii ''aes128-ctr'',
     ascii ''aes128-ctr'', ascii ''hmac-sha2-256'', ascii ''hmac-sha2-256'',
     compression_algs, compression_algs, [], []]"

lemma append_all_append: "append_all cap (fs @ gs) p = bindR (append_all cap fs p) (append_all cap gs)"
proof (induction fs arbitrary: p)
  case (Cons f fs)
  then show ?case by (cases "f p cap") simp_all
qed simp

lemma kexinit_trailer_fits:
  assumes "length buf + 5 \<le> unat cap" and "unat cap + 5 < 2 ^ 32"
  shows "append_kexinit_trailer buf cap = Ok (buf @ replicate 5 0)"
proof -
  have r: "replicate 5 (0 :: byte) = 0 # netnox_ssh_write_u32_be 0" by code_simp
  have "u32len buf + 1 + 4 = u32len buf + 5" by (simp add: add.commute)
  then have "unat (u32len buf + 1 + 4) = length buf + 5"
    using u32len_plus_numeral [of buf "num.Bit1 (num.Bit0 num.One)"] assms by (simp add: add.commute)
  with assms show ?thesis
    unfolding append_kexinit_trailer_def by (simp add: store_eq u32_less_iff r)
qed

lemma kexinit_fields_run:
  assumes "length (kexinit_msg cookie ls) \<le> unat cap" and "unat cap < 2 ^ 31"
  shows "append_all cap (kexinit_fields ls) (20 # cookie) = Ok (kexinit_msg cookie ls)"
proof -
  have "list_all2 appender (map netnox_ssh_payload_append_namelist ls) (map ssh_string ls)"
    by (simp add: list_all2_conv_all_nth app_namelist.appender_axioms)
  from append_all_spec [OF this, of "20 # cookie" cap] assms
  have "append_all cap (map netnox_ssh_payload_append_namelist ls) (20 # cookie) =
      Ok (20 # cookie @ concat (map ssh_string ls))" by (simp add: kexinit_msg_def)
  then show ?thesis
    using assms kexinit_trailer_fits [of "20 # cookie @ concat (map ssh_string ls)" cap]
    by (simp add: kexinit_fields_def append_all_append kexinit_msg_def)
qed

lemma length_kexinit_msg: "length cookie = 16 \<Longrightarrow> length (kexinit_msg cookie client_lists) \<le> 512"
  "length cookie = 16 \<Longrightarrow> length (kexinit_msg cookie server_lists) \<le> 512"
  by (simp_all add: kexinit_msg_def client_lists_def server_lists_def kex_algs_def host_key_algs_def
      cipher_algs_def mac_algs_def compression_algs_def)

lemma build_kexinit_run:
  "netnox_ssh_build_kexinit_payload 1024 c =
    (let (cookie, w) = netnox_ssh_fill_random 16 (io_user_data c) in
     case cookie of Ok k \<Rightarrow> (Ok (kexinit_msg k client_lists), c\<lparr>io_user_data := w\<rparr>))"
proof -
  have "append_all 1024 (kexinit_fields client_lists) (20 # k) = Ok (kexinit_msg k client_lists)"
    if "length k = 16" for k using length_kexinit_msg(1) [OF that] by (intro kexinit_fields_run) simp_all
  then show ?thesis
    unfolding netnox_ssh_build_kexinit_payload_def client_lists_def [symmetric]
    by (simp add: bindM_def failM_def retM_def ioM_def netnox_ssh_fill_random_def liftM_def)
qed

lemma srv_build_kexinit_Ok:
  "srv_build_kexinit_payload 1024 s = (Ok p, s') \<Longrightarrow>
    \<exists>k w. length k = 16 \<and> p = kexinit_msg k server_lists \<and> s' = s\<lparr>io_user_data := w\<rparr> \<and>
      srv_fill_random 16 (io_user_data s) = (Ok k, w)"
proof -
  assume run: "srv_build_kexinit_payload 1024 s = (Ok p, s')"
  have "append_all 1024 (kexinit_fields server_lists) (20 # k) = Ok (kexinit_msg k server_lists)"
    if "length k = 16" for k using length_kexinit_msg(2) [OF that] by (intro kexinit_fields_run) simp_all
  moreover obtain k w where k: "srv_fill_random 16 (io_user_data s) = (Ok k, w)"
    "append_all 1024 (kexinit_fields server_lists) (20 # k) = Ok p" "s' = s\<lparr>io_user_data := w\<rparr>"
    using run unfolding srv_build_kexinit_payload_def server_lists_def [symmetric] by (auto simp: res_iff)
  moreover have "length k = 16" using srv_fill_random_Ok [OF k(1)] by simp
  ultimately show ?thesis by auto
qed

lemma offers_each_other:
  "offers (map Some required_algs @ [None, None]) client_lists" "offers (map Some required_algs) server_lists"
  by code_simp+

lemma required_nonempty: "Some [] \<notin> set (map Some required_algs @ [None, None])" "Some [] \<notin> set (map Some required_algs)"
  by code_simp+

lemma client_kexinit_valid:
  "length k = 16 \<Longrightarrow> netnox_ssh_validate_client_kexinit (kexinit_msg k client_lists) = Ok ()"
  using validate_kexinit_eq [OF _ _ _ required_nonempty(1), of k client_lists] length_kexinit_msg(1) [of k] offers_each_other(1)
  by (simp add: netnox_ssh_validate_client_kexinit_def client_lists_def required_algs_def)

lemma server_kexinit_valid:
  "length k = 16 \<Longrightarrow> netnox_ssh_validate_server_kexinit (kexinit_msg k server_lists) = Ok ()"
  using validate_kexinit_eq [OF _ _ _ required_nonempty(2), of k server_lists] length_kexinit_msg(2) [of k] offers_each_other(2)
  by (simp add: netnox_ssh_validate_server_kexinit_def server_lists_def required_algs_def)

lemma offers_append_None: "length rs < length ls \<Longrightarrow> offers (rs @ [None]) ls = offers rs ls"
  by (induction rs ls rule: offers.induct) (auto simp: neq_Nil_conv)

section \<open>Keys and signatures on the wire\<close>

definition ed25519_blob :: "bytes \<Rightarrow> bytes" where
  "ed25519_blob pk = ssh_string (ascii ''ssh-ed25519'') @ ssh_string pk"

lemma view_at_pair:
  assumes "length (ssh_string a @ ssh_string b) + length post < 2 ^ 32"
  shows "view_at (ssh_string a @ ssh_string b @ post, u32len (ssh_string a @ ssh_string b)) 0 =
      Ok ((a @ ssh_string b @ post, u32len a), u32len (ssh_string a))"
    "view_at (ssh_string a @ ssh_string b @ post, u32len (ssh_string a @ ssh_string b)) (u32len (ssh_string a)) =
      Ok ((b @ post, u32len b), u32len (ssh_string a @ ssh_string b))"
proof -
  have l: "unat (u32len (ssh_string a @ ssh_string b)) = length (ssh_string a @ ssh_string b)"
    using assms by (intro unat_u32len) simp
  show "view_at (ssh_string a @ ssh_string b @ post, u32len (ssh_string a @ ssh_string b)) 0 =
      Ok ((a @ ssh_string b @ post, u32len a), u32len (ssh_string a))"
    using read_string_at [of "[]" a "u32len (ssh_string a @ ssh_string b)" "ssh_string b @ post"] l
    by (simp add: view_at_def)
  show "view_at (ssh_string a @ ssh_string b @ post, u32len (ssh_string a @ ssh_string b)) (u32len (ssh_string a)) =
      Ok ((b @ post, u32len b), u32len (ssh_string a @ ssh_string b))"
    using read_string_at [of "ssh_string a" b "u32len (ssh_string a @ ssh_string b)" post] l
    by (simp add: view_at_def)
qed

section \<open>Properties\<close>

text \<open>C25: The exchange hash of the client is the SHA-256 digest of the RFC 4253 input (both identification
  strings, both KEXINIT payloads, host key, both public values, the shared secret as an mpint), for
  every input of at most 4096 bytes; anything longer is refused with \<open>FAILED\<close>.\<close>

theorem exchange_hash_correct:
  assumes "sha_ok C" and "length pub_c = 32" and "length pub_s = 32" and "length k = 32"
    and "length (kex_hash_input c hk pub_c pub_s k) < 2 ^ 31"
  shows "netnox_ssh_compute_exchange_hash C c (hk @ post, u32len hk) (pub_c, 32) (pub_s @ post', 32) k =
    (if length (kex_hash_input c hk pub_c pub_s k) \<le> 4096
     then Ok (digest C (kex_hash_input c hk pub_c pub_s k)) else Err NETNOX_RETURN_FAILED)"
  using compute_exchange_hash_eq [OF assms, of post "[]" post'] by simp

theorem exchange_hash_correct_witness:
  "netnox_ssh_compute_exchange_hash toy_noxtls sample_client ([1, 2] @ [9], u32len [1 :: byte, 2])
     (replicate 32 3, 32) (replicate 32 4 @ [], 32) (replicate 32 5) =
   Ok (digest toy_noxtls (kex_hash_input sample_client [1, 2] (replicate 32 3) (replicate 32 4) (replicate 32 5)))"
proof -
  have "length (kex_hash_input sample_client [1, 2] (replicate 32 3) (replicate 32 4) (replicate 32 5)) \<le> 4096"
    using length_ssh_mpint [of "replicate 32 5"]
    by (simp add: kex_hash_input_def sample_client_eq sample_fields)
  then show ?thesis
    using exchange_hash_correct [OF toy_sha_ok, of "replicate 32 3" "replicate 32 4" "replicate 32 5" sample_client "[1, 2]" "[9]" "[]"]
    by simp
qed

text \<open>C26: \<open>derive_key_block\<close> computes, for every output length up to 1500 bytes, the function of RFC 4253, section 7.2: K1 is
  HASH(K, H, X, sid), each further block HASH(K, H, all output so far), cut to the length asked for; and the six keys of
  the transport get the letters A to F as there, the counters starting at the two IVs. The secret is an mpint as there,
  unless the variable NETNOX_SSH_KEY_DERIV_MPINT asks for the raw one. The stored hash, that of the last exchange, is H
  and stands in the place of the session identifier too. So the keys are those of RFC 4253 in the first exchange of a
  connection, where the identifier is H; in an exchange again, where the RFC has the hash of the first one, they are not.\<close>

theorem key_derivation_correct:
  assumes "sha_ok C" and "length (shared_secret_raw c) = 32"
    and "length (session_id c) = unat (session_id_len c)" and "session_id_len c \<noteq> 0"
    and "h = session_id c"
    and "k = (if env_key_deriv_mpint (io_user_data c) then ssh_mpint (shared_secret_raw c) else shared_secret_raw c)"
  shows "(0 < unat n \<and> unat n \<le> 1500 \<longrightarrow> netnox_ssh_derive_key_block C c x n = Ok (kdf C k h h x (unat n))) \<and>
    netnox_ssh_derive_transport_keys C c = (Ok (), c\<lparr>
      c2s_iv := kdf C k h h (of_char (CHR ''A'')) 16, s2c_iv := kdf C k h h (of_char (CHR ''B'')) 16,
      c2s_key := kdf C k h h (of_char (CHR ''C'')) 16, s2c_key := kdf C k h h (of_char (CHR ''D'')) 16,
      c2s_mac_key := kdf C k h h (of_char (CHR ''E'')) 32, s2c_mac_key := kdf C k h h (of_char (CHR ''F'')) 32,
      c2s_counter := kdf C k h h (of_char (CHR ''A'')) 16, s2c_counter := kdf C k h h (of_char (CHR ''B'')) 16\<rparr>)"
  using derive_key_block_eq [OF assms(1-4)] derive_transport_keys_eq [OF assms(1-4)] assms(5,6)
  by (simp add: kdf_secret_def transport_keys_def)

theorem key_derivation_correct_witness:
  "netnox_ssh_derive_key_block toy_noxtls (sample_client\<lparr>session_id_len := 32\<rparr>) 65 40 =
    Ok (kdf toy_noxtls (ssh_mpint (replicate 32 0)) (replicate 32 0) (replicate 32 0) 65 40)"
proof -
  let ?c = "sample_client\<lparr>session_id_len := 32\<rparr>"
  have f: "length (shared_secret_raw ?c) = 32" "length (session_id ?c) = unat (session_id_len ?c)" "session_id_len ?c \<noteq> 0"
    "session_id ?c = replicate 32 0" "shared_secret_raw ?c = replicate 32 0" "env_key_deriv_mpint (io_user_data ?c)"
    by (simp_all add: sample_client_eq sample_fields)
  show ?thesis
    using key_derivation_correct [OF toy_sha_ok f(1-3) refl refl, of 40 65, THEN conjunct1] unfolding f(4,5) using f(6) by simp
qed

text \<open>C27: On every well-formed KEXINIT the two validators decide the same: it is accepted exactly when each of
  the first eight name-lists offers the one algorithm the code requires there, and refused with
  \<open>FAILED\<close> otherwise.\<close>

theorem kexinit_validation_iff:
  assumes "length cookie = 16" and "length (kexinit_msg cookie ls) < 2 ^ 32" and "10 \<le> length ls"
  shows "netnox_ssh_validate_server_kexinit (kexinit_msg cookie ls) =
      (if offers (map Some required_algs) ls then Ok () else Err NETNOX_RETURN_FAILED) \<and>
    netnox_ssh_validate_client_kexinit (kexinit_msg cookie ls) =
      (if offers (map Some required_algs) ls then Ok () else Err NETNOX_RETURN_FAILED)"
proof -
  have "offers (map Some required_algs @ [None, None]) ls = offers (map Some required_algs) ls"
    using assms(3) offers_append_None [of "map Some required_algs @ [None]" ls]
      offers_append_None [of "map Some required_algs" ls] by (simp add: required_algs_def)
  then show ?thesis
    using validate_kexinit_eq [OF assms(1,2) _ required_nonempty(2)] validate_kexinit_eq [OF assms(1,2) _ required_nonempty(1)] assms(3)
    by (simp add: netnox_ssh_validate_server_kexinit_def netnox_ssh_validate_client_kexinit_def required_algs_def)
qed

theorem kexinit_validation_iff_witness:
  "netnox_ssh_validate_client_kexinit (kexinit_msg (replicate 16 7) (replicate 10 (ascii ''none''))) =
     Err NETNOX_RETURN_FAILED"
proof -
  have "\<not> offers (map Some required_algs) (replicate 10 (ascii ''none''))" by code_simp
  then show ?thesis
    using kexinit_validation_iff [of "replicate 16 7" "replicate 10 (ascii ''none'')"]
    by (simp add: kexinit_msg_def length_concat sum_list_replicate)
qed

end
