(* ===== verification/Nox_Handshake.thy ===== *)
theory Nox_Handshake
  imports Nox_Kex
begin

text \<open>
  The key exchange as a conversation: the client's and the server's run, fed with each other's bytes,
  followed message by message along the links of \<open>Nox_Frames\<close> (KEXINIT both ways, ECDH init and reply,
  NEWKEYS both ways).
\<close>

section \<open>What the steps do to the environment\<close>

lemma always_liftM_dep: "always ctx_step (\<lambda>c. liftM (f c) c)"
  by (simp add: always_def liftM_def ctx.refl)

lemma always_checked_dep: "always ctx_step (\<lambda>c. checkedM e (liftM (f c)) c)"
  by (simp add: always_def checkedM_def liftM_def ctx.refl)

lemma always_keygenM: "always ctx_step (keygenM C)"
  unfolding keygenM_def by (rule always_ioM) (auto simp: always_def io_step_def split: option.splits)

lemmas kex_always = ctx.always_rules always_liftM_dep always_checked_dep always_keygenM always_setM_ctx
  always_send_packet always_recv_packet always_srv_send_packet always_srv_recv_packet always_ioM
  always_fill_random always_srv_fill_random

lemma always_derive_keys: "always ctx_step (netnox_ssh_derive_transport_keys C)"
  unfolding netnox_ssh_derive_transport_keys_def derive_into_def
  by (intro kex_always) simp_all

lemma always_accept_reply: "always ctx_step (accept_ecdh_reply C priv pub reply)"
  unfolding accept_ecdh_reply_def case_prod_beta
  by (intro kex_always) simp_all

lemma always_perform_kex:
  "(\<And>a b m. always ctx_step (wait a b m)) \<Longrightarrow> always ctx_step (netnox_ssh_perform_curve25519_kex C wait)"
  unfolding netnox_ssh_perform_curve25519_kex_def case_prod_beta
  by (intro kex_always always_accept_reply always_derive_keys) simp_all

lemma always_build_kexinit: "always ctx_step (netnox_ssh_build_kexinit_payload n)"
  unfolding netnox_ssh_build_kexinit_payload_def by (intro kex_always)

lemma always_handle_kexinit:
  "(\<And>a b m. always ctx_step (wait a b m)) \<Longrightarrow> always ctx_step (netnox_ssh_handle_server_kexinit C wait p)"
  unfolding netnox_ssh_handle_server_kexinit_def
  by (intro kex_always always_perform_kex always_build_kexinit) simp_all

lemma always_wait_loop:
  "(\<And>p. always ctx_step (rekey p)) \<Longrightarrow> always ctx_step (wait_loop C rekey a b m n)"
  by (induction n) (auto intro!: kex_always)

lemma always_wait: "always ctx_step (netnox_ssh_wait_for_message C fuel a b m)"
  by (induction fuel arbitrary: a b m)
    (simp add: always_def ctx.refl, simp, intro always_wait_loop always_handle_kexinit)

lemma always_srv_perform: "always ctx_step (srv_perform_curve25519_kex C)"
  unfolding srv_perform_curve25519_kex_def Let_def srv_derive_transport_keys_def
  by (intro kex_always always_derive_keys) simp_all

section \<open>What a successful run went through\<close>

lemma exchange_hash_frame:
  "netnox_ssh_compute_exchange_hash C (c\<lparr>server_host_key_blob := b\<rparr>) = netnox_ssh_compute_exchange_hash C c"
  "netnox_ssh_compute_exchange_hash C (c\<lparr>server_host_key_fingerprint := f\<rparr>) = netnox_ssh_compute_exchange_hash C c"
  "netnox_ssh_compute_exchange_hash C (c\<lparr>server_host_key_ready := r\<rparr>) = netnox_ssh_compute_exchange_hash C c"
  by (simp_all add: netnox_ssh_compute_exchange_hash_def fun_eq_iff)

lemma accept_reply_Ok:
  assumes "accept_ecdh_reply C priv pub_c reply c = (Ok u, c')"
  obtains hk pub_s sig blob pub k h fp where "parse_ecdh_reply reply = Ok (hk, pub_s, sig)"
    "fetch (fst hk) (unat (snd hk)) = Ok blob" "fetch (fst pub_s) 32 = Ok pub"
    "netnox_ssh_sha256 C blob = Ok fp"
    "noxtls_x25519_shared_secret C priv pub = Some k"
    "netnox_ssh_compute_exchange_hash C c hk (pub_c, 32) pub_s k = Ok h"
    "netnox_ssh_verify_server_host_key_signature C hk sig h = Ok ()"
    "c' = c\<lparr>server_host_key_blob := blob, server_host_key_fingerprint := fp, server_host_key_ready := True,
      session_id := h, session_id_len := 32, shared_secret_raw := k\<rparr>"
  using assms unfolding accept_ecdh_reply_def
  by (auto simp: bindM_Ok liftM_Ok setM_Ok checkedM_Ok option_res_Ok exchange_hash_frame)

lemma keygenM_Ok:
  "keygenM C c = (Ok kp, c') \<longleftrightarrow> noxtls_x25519_generate_key C (keygen_pos (io_user_data c)) = Some kp \<and>
     c' = c\<lparr>io_user_data := (io_user_data c)\<lparr>keygen_pos := Suc (keygen_pos (io_user_data c))\<rparr>\<rparr>"
  by (auto simp: keygenM_def res_iff split: option.splits)

lemma perform_kex_Ok:
  assumes "netnox_ssh_perform_curve25519_kex C wait c = (Ok u, c')"
  obtains priv pub_c init c1 reply c2 c3 c4 nk c5 c6 where
    "noxtls_x25519_generate_key C (keygen_pos (io_user_data c)) = Some (priv, pub_c)"
    "build 128 [netnox_ssh_payload_append_u8 30, netnox_ssh_payload_append_string pub_c 32] = Ok init"
    "netnox_ssh_send_packet C init
       (c\<lparr>io_user_data := (io_user_data c)\<lparr>keygen_pos := Suc (keygen_pos (io_user_data c))\<rparr>\<rparr>) = (Ok (), c1)"
    "wait 31 0xFF 2048 c1 = (Ok reply, c2)" "accept_ecdh_reply C priv pub_c reply c2 = (Ok (), c3)"
    "netnox_ssh_send_packet C [21] c3 = (Ok (), c4)" "wait 21 0xFF 2048 c4 = (Ok nk, c5)"
    "netnox_ssh_derive_transport_keys C c5 = (Ok (), c6)" "c' = c6\<lparr>key_exchange_complete := True\<rparr>"
  using assms unfolding netnox_ssh_perform_curve25519_kex_def
  by (auto simp: res_iff keygenM_Ok simp del: append_all.simps split: if_splits)

lemma wait_first_packet:
  assumes "netnox_ssh_wait_for_message C fuel a b m c = (Ok r, c')"
  obtains p c1 where "netnox_ssh_recv_packet C 35000 c = (Ok p, c1)"
    "p \<noteq> [] \<and> hd p \<noteq> 20 \<and> (hd p = a \<or> hd p = b) \<longrightarrow> r = p \<and> c' = c1"
proof (cases fuel)
  case 0
  with assms show ?thesis by simp
next
  case (Suc f)
  have "(32 :: nat) = Suc 31" by simp
  with assms Suc obtain p c1 where "netnox_ssh_recv_packet C 35000 c = (Ok p, c1)"
    "(if p = [] then wait_loop C (netnox_ssh_handle_server_kexinit C (netnox_ssh_wait_for_message C f)) a b m 31
      else if hd p = 20 then bindM (checkedM NETNOX_RETURN_FAILED
          (netnox_ssh_handle_server_kexinit C (netnox_ssh_wait_for_message C f) p))
          (\<lambda>_. wait_loop C (netnox_ssh_handle_server_kexinit C (netnox_ssh_wait_for_message C f)) a b m 31)
      else if hd p = a \<or> hd p = b then if u32len p > m then throwM NETNOX_RETURN_FAILED else retM p
      else wait_loop C (netnox_ssh_handle_server_kexinit C (netnox_ssh_wait_for_message C f)) a b m 31) c1 = (Ok r, c')"
    by (simp only: netnox_ssh_wait_for_message.simps wait_loop.simps bindM_Ok checkedM_Ok) blast
  then show ?thesis by (intro that [of p c1]) (auto simp: throwM_def retM_def split: if_splits)
qed

lemma srv_perform_kex_Ok:
  assumes "srv_perform_curve25519_kex C s = (Ok u, s')"
  obtains init s1 pub_c seed w pub_s pub k blob h sig sig_wire reply s2 s3 rx s4 s5 where
    "kexinit_exchanged s" "host_key_ready s"
    "srv_recv_packet C 2048 s = (Ok init, s1)" "parse_ecdh_init init = Ok pub_c"
    "srv_fill_random 32 (io_user_data s1) = (Ok seed, w)"
    "noxtls_x25519_public_key C (noxtls_x25519_clamp_scalar C seed) = Some pub_s"
    "fetch (fst pub_c) 32 = Ok pub"
    "noxtls_x25519_shared_secret C (noxtls_x25519_clamp_scalar C seed) pub = Some k"
    "srv_build_host_key_blob (s1\<lparr>io_user_data := w\<rparr>) 256 = Ok blob"
    "srv_compute_exchange_hash C (s1\<lparr>io_user_data := w\<rparr>) (blob, u32len blob) pub_c (pub_s, 32) k = Ok h"
    "noxtls_ed25519_sign C (host_ed25519_sk s1) h = Some sig"
    "build 128 [append_bytes (ascii ''ssh-ed25519''), netnox_ssh_payload_append_string sig 64] = Ok sig_wire"
    "build 2048 [netnox_ssh_payload_append_u8 31, append_bytes blob,
        netnox_ssh_payload_append_string pub_s 32, append_bytes sig_wire] = Ok reply"
    "srv_send_packet C reply (s1\<lparr>io_user_data := w, session_id := h, session_id_len := 32, shared_secret_raw := k\<rparr>) = (Ok (), s2)"
    "srv_send_packet C [21] s2 = (Ok (), s3)" "srv_recv_packet C 64 s3 = (Ok rx, s4)"
    "srv_derive_transport_keys C s4 = (Ok (), s5)" "s' = s5\<lparr>key_exchange_complete := True\<rparr>"
  using assms unfolding srv_perform_curve25519_kex_def Let_def
  by (auto simp: res_iff simp del: append_all.simps split: if_splits option.splits)

lemma exchange_kexinit_Ok:
  assumes "netnox_ssh_exchange_kexinit C (netnox_ssh_wait_for_message C fuel) c = (Ok u, c')"
  obtains k w c3 p2 c4 where "connected c" "length k = 16" "only_sends (io_user_data c) w" "tx w = tx (io_user_data c)"
    "netnox_ssh_send_packet C (kexinit_msg k client_lists)
      (c\<lparr>io_user_data := w, kexinit_client_payload := kexinit_msg k client_lists\<rparr>) = (Ok (), c3)"
    "netnox_ssh_recv_packet C 35000 c3 = (Ok p2, c4)"
    "p2 \<noteq> []" "hd p2 = 20" "u32len p2 \<le> 32768" "netnox_ssh_validate_server_kexinit p2 = Ok ()"
    "netnox_ssh_perform_curve25519_kex C (netnox_ssh_wait_for_message C fuel)
      (c4\<lparr>kexinit_server_payload := p2, kexinit_exchanged := True\<rparr>) = (Ok (), c')"
proof -
  let ?k = "map (rand_byte (io_user_data c)) [rand_pos (io_user_data c)..<rand_pos (io_user_data c) + 16]"
  let ?w = "(io_user_data c)\<lparr>rand_pos := rand_pos (io_user_data c) + 16\<rparr>"
  have k: "length ?k = 16" "only_sends (io_user_data c) ?w" "tx ?w = tx (io_user_data c)"
    by (simp_all add: only_sends_def os_same_def)
  have b: "netnox_ssh_build_kexinit_payload 1024 c = (Ok (kexinit_msg ?k client_lists), c\<lparr>io_user_data := ?w\<rparr>)"
    by (simp add: build_kexinit_run netnox_ssh_fill_random_def)
  show ?thesis
    using assms b unfolding netnox_ssh_exchange_kexinit_def
    by (auto simp: res_iff not_less split: if_splits intro!: that [OF _ k])
qed

lemma srv_exchange_kexinit_Ok:
  assumes "srv_exchange_kexinit C s = (Ok u, s')"
  obtains p1 s1 k w s4 where "connected s" "srv_recv_packet C 35000 s = (Ok p1, s1)" "p1 \<noteq> []" "hd p1 = 20" "u32len p1 \<le> 32768"
    "netnox_ssh_validate_client_kexinit p1 = Ok ()" "length k = 16" "only_sends (io_user_data s1) w"
    "tx w = tx (io_user_data s1)"
    "srv_send_packet C (kexinit_msg k server_lists) (s1\<lparr>kexinit_client_payload := p1, io_user_data := w,
        kexinit_server_payload := kexinit_msg k server_lists\<rparr>) = (Ok (), s4)"
    "s' = s4\<lparr>kexinit_exchanged := True\<rparr>"
proof -
  from assms obtain p1 s1 p2 s2 s4 where r: "connected s" "srv_recv_packet C 35000 s = (Ok p1, s1)" "p1 \<noteq> []" "hd p1 = 20" "u32len p1 \<le> 32768"
    "netnox_ssh_validate_client_kexinit p1 = Ok ()"
    and b: "srv_build_kexinit_payload 1024 (s1\<lparr>kexinit_client_payload := p1\<rparr>) = (Ok p2, s2)"
    and t: "srv_send_packet C p2 (s2\<lparr>kexinit_server_payload := p2\<rparr>) = (Ok (), s4)"
    "s' = s4\<lparr>kexinit_exchanged := True\<rparr>"
    unfolding srv_exchange_kexinit_def by (auto simp: res_iff not_less split: if_splits)
  from srv_build_kexinit_Ok [OF b] obtain k w where k: "length k = 16" "p2 = kexinit_msg k server_lists"
    "s2 = s1\<lparr>kexinit_client_payload := p1, io_user_data := w\<rparr>" "srv_fill_random 16 (io_user_data s1) = (Ok k, w)" by auto
  have "only_sends (io_user_data s1) w" "tx w = tx (io_user_data s1)"
    using k(4) alwaysD [OF sends_random(2) k(4)] srv_fill_random_Ok [OF k(4)] by simp_all
  with r k t show ?thesis using that [of p1 s1 k w s4] by simp
qed

section \<open>Messages of the exchange\<close>

lemma view_at_string:
  assumes "length (pre @ ssh_string d @ post) < 2 ^ 32" and "off = u32len pre"
  shows "view_at (pre @ ssh_string d @ post, u32len (pre @ ssh_string d @ post)) off =
    Ok ((d @ post, u32len d), u32len (pre @ ssh_string d))"
  using read_string_at [of pre d "u32len (pre @ ssh_string d @ post)" post] assms
  by (simp add: view_at_def unat_u32len)

definition ecdh_init :: "bytes \<Rightarrow> bytes" where
  "ecdh_init pub = 30 # ssh_string pub"

definition ecdh_reply :: "bytes \<Rightarrow> bytes \<Rightarrow> bytes \<Rightarrow> bytes" where
  "ecdh_reply blob pub sig = 31 # ssh_string blob @ ssh_string pub @ ssh_string sig"

lemma parse_ecdh_init_eq:
  assumes "length pub = 32"
  shows "parse_ecdh_init (ecdh_init pub) = Ok (pub, 32)"
  using view_at_string [of "[30]" pub "[]" 1] assms
  by (simp add: parse_ecdh_init_def ecdh_init_def u32len_def)

lemma parse_ecdh_reply_eq:
  assumes "length (ecdh_reply blob pub sig) \<le> 2048" "length pub = 32" "blob \<noteq> []" "sig \<noteq> []"
  shows "parse_ecdh_reply (ecdh_reply blob pub sig) = Ok ((blob @ ssh_string pub @ ssh_string sig, u32len blob),
    (pub @ ssh_string sig, 32), (sig, u32len sig))"
proof -
  let ?r = "ecdh_reply blob pub sig"
  have len: "length ?r < 2 ^ 32" using assms(1) by simp
  define o1 where "o1 = u32len ([31] @ ssh_string blob)"
  define o2 where "o2 = u32len (([31] @ ssh_string blob) @ ssh_string pub)"
  have 1: "view_at (?r, u32len ?r) 1 = Ok ((blob @ ssh_string pub @ ssh_string sig, u32len blob), o1)"
    using view_at_string [of "[31]" blob "ssh_string pub @ ssh_string sig" 1] len
    unfolding o1_def by (simp add: ecdh_reply_def u32len_def)
  have 2: "view_at (?r, u32len ?r) o1 = Ok ((pub @ ssh_string sig, u32len pub), o2)"
    using view_at_string [of "[31] @ ssh_string blob" pub "ssh_string sig" o1] len
    unfolding o1_def o2_def by (simp add: ecdh_reply_def)
  have 3: "view_at (?r, u32len ?r) o2 = Ok ((sig, u32len sig),
      u32len ((([31] @ ssh_string blob) @ ssh_string pub) @ ssh_string sig))"
    using view_at_string [of "([31] @ ssh_string blob) @ ssh_string pub" sig "[]" o2] len
    unfolding o2_def by (simp add: ecdh_reply_def)
  have "unat (u32len blob) = length blob" "unat (u32len sig) = length sig" "u32len pub = 32"
    using assms by (auto simp: ecdh_reply_def unat_u32len u32len_32)
  moreover from this assms have "u32len blob \<noteq> 0" "u32len sig \<noteq> 0" "\<not> u32len blob > 2048"
    by (auto simp: word_less_nat_alt ecdh_reply_def)
  ultimately show ?thesis
    unfolding parse_ecdh_reply_def by (simp add: 1 2 3) (simp add: ecdh_reply_def)
qed

lemma appender_32: "length d = 32 \<Longrightarrow> appender (netnox_ssh_payload_append_string d 32) (ssh_string d)"
  using app_string.appender_axioms [of d] by (simp add: u32len_32)

lemma appender_64: "length d = 64 \<Longrightarrow> appender (netnox_ssh_payload_append_string d 64) (ssh_string d)"
  using app_string.appender_axioms [of d] by (simp add: u32len_def)

lemma build_init_Ok:
  assumes "length pub = 32"
    and "build 128 [netnox_ssh_payload_append_u8 30, netnox_ssh_payload_append_string pub 32] = Ok init"
  shows "init = ecdh_init pub"
  using append_all_spec [of "[netnox_ssh_payload_append_u8 30, netnox_ssh_payload_append_string pub 32]" "[[30], ssh_string pub]" "[]" 128] assms
  by (simp add: appender_axioms appender_32 ecdh_init_def del: append_all.simps)

lemma build_reply_Ok:
  assumes "length pub = 32" "length blob < 2 ^ 30" "length sig < 2 ^ 30"
    and "build 2048 [netnox_ssh_payload_append_u8 31, append_bytes blob,
        netnox_ssh_payload_append_string pub 32, append_bytes sig] = Ok reply"
  shows "reply = ecdh_reply blob pub sig \<and> length reply \<le> 2048"
  using append_all_spec [of "[netnox_ssh_payload_append_u8 31, append_bytes blob, netnox_ssh_payload_append_string pub 32, append_bytes sig]"
      "[[31], ssh_string blob, ssh_string pub, ssh_string sig]" "[]" 2048] assms
  by (simp add: appender_axioms appender_32 ecdh_reply_def del: append_all.simps split: if_splits)

lemma append_string_bound:
  "netnox_ssh_payload_append_string d n p cap = Ok q \<Longrightarrow> length p \<le> unat cap \<Longrightarrow> length q \<le> unat cap"
  by (auto simp: netnox_ssh_payload_append_string_def res_iff store_eq split: if_splits)

lemma two_strings_bound:
  "build cap [netnox_ssh_payload_append_string d n, netnox_ssh_payload_append_string e k] = Ok q \<Longrightarrow> length q \<le> unat cap"
  by (auto simp: res_iff dest!: append_string_bound)

section \<open>The exchange, message by message\<close>

lemma fits_kexinit: "length k = 16 \<Longrightarrow> fits 35000 (kexinit_msg k client_lists)"
  "length k = 16 \<Longrightarrow> fits 35000 (kexinit_msg k server_lists)"
  using length_kexinit_msg [of k] by (auto simp: fits_def)

definition same_idents :: "netnox_ssh_client_t \<Rightarrow> netnox_ssh_server_t \<Rightarrow> bool" where
  "same_idents c s \<longleftrightarrow> client_ident c = client_ident s \<and> server_ident c = server_ident s \<and>
     length (client_ident s) \<le> 255 \<and> length (server_ident s) \<le> 255 \<and>
     env_key_deriv_mpint (io_user_data c) = env_key_deriv_mpint (io_user_data s)"

definition same_transcript :: "netnox_ssh_client_t \<Rightarrow> netnox_ssh_server_t \<Rightarrow> bool" where
  "same_transcript c s \<longleftrightarrow> same_idents c s \<and> kexinit_client_payload c = kexinit_client_payload s \<and>
     kexinit_server_payload c = kexinit_server_payload s \<and>
     length (kexinit_client_payload s) \<le> 512 \<and> length (kexinit_server_payload s) \<le> 512"

lemma same_idents_frames:
  "same_idents c s \<Longrightarrow> cli_sends c c' \<Longrightarrow> same_idents c' s"
  "same_idents c s \<Longrightarrow> cli_recvs c c' \<Longrightarrow> same_idents c' s"
  "same_idents c s \<Longrightarrow> srv_sends s s' \<Longrightarrow> same_idents c s'"
  "same_idents c s \<Longrightarrow> srv_recvs s s' \<Longrightarrow> same_idents c s'"
  by (erule cli_sendsE cli_recvsE srv_sendsE srv_recvsE, simp add: same_idents_def only_sends_def os_same_def only_recvs_def)+

lemma same_transcript_frames:
  "same_transcript c s \<Longrightarrow> cli_sends c c' \<Longrightarrow> same_transcript c' s"
  "same_transcript c s \<Longrightarrow> cli_recvs c c' \<Longrightarrow> same_transcript c' s"
  "same_transcript c s \<Longrightarrow> srv_sends s s' \<Longrightarrow> same_transcript c s'"
  "same_transcript c s \<Longrightarrow> srv_recvs s s' \<Longrightarrow> same_transcript c s'"
  by (erule cli_sendsE cli_recvsE srv_sendsE srv_recvsE,
      simp add: same_transcript_def same_idents_def only_sends_def os_same_def only_recvs_def)+

lemma kexinit_phase:
  assumes up: "c2s_link C up c s" and down: "s2c_link C down s c" and ids: "same_idents c s"
    and cli: "netnox_ssh_exchange_kexinit C (netnox_ssh_wait_for_message C fuel) c = (Ok u, c')" and srv: "srv_exchange_kexinit C s = (Ok v, s')"
    and pre: "prefix (tx_of c') up" "prefix (tx_of s') down"
  obtains c5 where "netnox_ssh_perform_curve25519_kex C (netnox_ssh_wait_for_message C fuel) c5 = (Ok (), c')"
    "c2s_link C up c5 s'" "s2c_link C down s' c5" "same_transcript c5 s'"
proof -
  from cli obtain k w c3 p2 c4 where k: "length k = 16" "only_sends (io_user_data c) w" "tx w = tx (io_user_data c)"
    and c3: "netnox_ssh_send_packet C (kexinit_msg k client_lists)
      (c\<lparr>io_user_data := w, kexinit_client_payload := kexinit_msg k client_lists\<rparr>) = (Ok (), c3)"
    and c4: "netnox_ssh_recv_packet C 35000 c3 = (Ok p2, c4)"
    and c': "netnox_ssh_perform_curve25519_kex C (netnox_ssh_wait_for_message C fuel)
      (c4\<lparr>kexinit_server_payload := p2, kexinit_exchanged := True\<rparr>) = (Ok (), c')"
    by (rule exchange_kexinit_Ok)
  from srv obtain p1 s1 k' w' s4 where s1: "srv_recv_packet C 35000 s = (Ok p1, s1)"
    and k': "length k' = 16" "only_sends (io_user_data s1) w'" "tx w' = tx (io_user_data s1)"
    and s4: "srv_send_packet C (kexinit_msg k' server_lists) (s1\<lparr>kexinit_client_payload := p1, io_user_data := w',
        kexinit_server_payload := kexinit_msg k' server_lists\<rparr>) = (Ok (), s4)"
    and s': "s' = s4\<lparr>kexinit_exchanged := True\<rparr>"
    by (rule srv_exchange_kexinit_Ok)
  let ?c2 = "c\<lparr>io_user_data := w, kexinit_client_payload := kexinit_msg k client_lists\<rparr>"
  let ?s3 = "s1\<lparr>kexinit_client_payload := p1, io_user_data := w', kexinit_server_payload := kexinit_msg k' server_lists\<rparr>"
  let ?c5 = "c4\<lparr>kexinit_server_payload := p2, kexinit_exchanged := True\<rparr>"
  note fr = packet_frames(1) [OF c3] packet_frames(2) [OF c4] packet_frames(4) [OF s1] packet_frames(3) [OF s4]
  have q: "cli_quiet c ?c2" "srv_quiet s1 ?s3" "cli_quiet c4 ?c5" "srv_quiet s4 s'"
    using k k' by (auto simp: cli_quiet_def srv_quiet_def only_sends_def os_same_def s')
  have "prefix (tx_of c3) (tx_of c4)" "prefix (tx_of ?c5) (tx_of c')"
    by (rule prefix_tx [OF always_recv_packet c4], rule prefix_tx [OF always_perform_kex [OF always_wait] c'])
  then have pc: "prefix (tx_of c3) up" using pre(1) by (auto simp: tx_of_def prefix_def)
  have ps: "prefix (tx_of s4) down" using pre(2) s' by (simp add: tx_of_def)
  have l1: "p1 = kexinit_msg k client_lists" "c2s_link C up c3 s1"
    using c2s_link_step [OF link_quiet(1) [OF up q(1) quiet_refl(2)] c3 s1 fits_kexinit(1) [OF k(1)] pc] by auto
  have d1: "s2c_link C down ?s3 c3"
    using link_quiet(2) [OF link_frames(4) [OF link_frames(3) [OF link_quiet(2) [OF down q(1) quiet_refl(2)] fr(3)] fr(1)]
        quiet_refl(1) q(2)] .
  have d2: "p2 = kexinit_msg k' server_lists" "s2c_link C down s4 c4"
    using s2c_link_step [OF d1 s4 c4 fits_kexinit(2) [OF k'(1)] ps] by auto
  have u2: "c2s_link C up c4 s4"
    using link_frames(1) [OF link_frames(2) [OF link_quiet(1) [OF l1(2) quiet_refl(1) q(2)] fr(4)] fr(2)] .
  have "same_transcript ?c5 s'"
    using ids fr k k' l1(1) d2(1) length_kexinit_msg [of k] length_kexinit_msg [of k']
    by (elim cli_sendsE cli_recvsE srv_sendsE srv_recvsE)
      (simp add: same_transcript_def same_idents_def only_sends_def os_same_def only_recvs_def s')
  with that [OF c'] link_quiet(1) [OF u2 q(3,4)] link_quiet(2) [OF d2(2) q(3,4)] show ?thesis by blast
qed

lemma keys_in_step:
  assumes "c2s_link C up c s" and "s2c_link C down s c"
    and cli: "netnox_ssh_derive_transport_keys C c = (Ok u, c')" and srv: "srv_derive_transport_keys C s = (Ok v, s')"
    and id: "session_id c = session_id s" "length (session_id s) = 32" "session_id_len c = 32" "session_id_len s = 32"
    and k: "shared_secret_raw c = shared_secret_raw s" "length (shared_secret_raw s) = 32"
    and env: "env_key_deriv_mpint (io_user_data c) = env_key_deriv_mpint (io_user_data s)"
  shows "c2s_link C up (c'\<lparr>key_exchange_complete := True\<rparr>) (s'\<lparr>key_exchange_complete := True\<rparr>)"
    "s2c_link C down (s'\<lparr>key_exchange_complete := True\<rparr>) (c'\<lparr>key_exchange_complete := True\<rparr>)"
    "session_id c' = session_id s" "session_id s' = session_id s"
    "shared_secret_raw c' = shared_secret_raw s" "shared_secret_raw s' = shared_secret_raw s"
proof -
  let ?K = "kdf_secret (env_key_deriv_mpint (io_user_data s)) (shared_secret_raw s)" and ?h = "session_id s"
  have C: "sha_ok C" using assms(1) by (simp add: c2s_link_def in_step_c2s_def)
  have c': "c' = transport_keys C ?K ?h c"
    using derive_transport_keys_eq [OF C, of c] cli id k env by simp
  have s': "s' = transport_keys C ?K ?h s"
    using derive_transport_keys_eq [OF C, of s] srv id k by (simp add: srv_derive_transport_keys_def)
  show "c2s_link C up (c'\<lparr>key_exchange_complete := True\<rparr>) (s'\<lparr>key_exchange_complete := True\<rparr>)"
    "s2c_link C down (s'\<lparr>key_exchange_complete := True\<rparr>) (c'\<lparr>key_exchange_complete := True\<rparr>)"
    using assms(1,2) length_kdf [OF C]
    by (simp_all add: c' s' transport_keys_def c2s_link_def s2c_link_def in_step_c2s_def in_step_s2c_def
        tx_of_def rx_of_def srv_timely_def)
  show "session_id c' = session_id s" "session_id s' = session_id s"
    "shared_secret_raw c' = shared_secret_raw s" "shared_secret_raw s' = shared_secret_raw s"
    using id k by (simp_all add: c' s' transport_keys_def)
qed

lemma length_exchange_hash:
  assumes "sha_ok C" and "netnox_ssh_compute_exchange_hash C c a b d k = Ok h"
  shows "length h = 32"
  using assms by (auto simp: netnox_ssh_compute_exchange_hash_def netnox_ssh_sha256_def res_iff sha_ok_digest
      simp del: append_all.simps split: option.splits)

lemma same_exchange_hash:
  assumes "sha_ok C" and "same_transcript c s" and "length blob \<le> 256" and "length pub_c = 32" "length pub_s = 32" "length k = 32"
  shows "netnox_ssh_compute_exchange_hash C c (blob @ x, u32len blob) (pub_c, 32) (pub_s @ y, 32) k =
    srv_compute_exchange_hash C s (blob, u32len blob) (pub_c, 32) (pub_s, 32) k"
proof -
  have i: "kex_hash_input c blob pub_c pub_s k = kex_hash_input s blob pub_c pub_s k"
    using assms(2) by (simp add: kex_hash_input_def same_transcript_def same_idents_def)
  have l: "length (kex_hash_input s blob pub_c pub_s k) < 2 ^ 31"
    using assms length_ssh_mpint [of k] by (simp add: kex_hash_input_def same_transcript_def same_idents_def)
  show ?thesis
    using compute_exchange_hash_eq [OF assms(1,4,5,6), of c blob x "[]" y] l i
      compute_exchange_hash_eq [OF assms(1,4,5,6), of s blob "[]" "[]" "[]"]
    by (simp add: srv_compute_exchange_hash_def)
qed

lemma dh_values:
  assumes "dh_ok C" and "noxtls_x25519_generate_key C n = Some (a, A)"
    and "noxtls_x25519_public_key C (noxtls_x25519_clamp_scalar C seed) = Some B"
  shows "length A = 32" "length B = 32"
    "noxtls_x25519_shared_secret C (noxtls_x25519_clamp_scalar C seed) A = noxtls_x25519_shared_secret C a B"
    "noxtls_x25519_shared_secret C a B = Some k \<Longrightarrow> length k = 32"
  using assms unfolding dh_ok_def by metis+

text \<open>The exchange of the public values.\<close>

lemma dh_init_phase:
  assumes up: "c2s_link C up c s" and dh: "dh_ok C"
    and gen: "noxtls_x25519_generate_key C n = Some (priv, pub_c)"
    and pub: "noxtls_x25519_public_key C (noxtls_x25519_clamp_scalar C seed) = Some pub_s"
    and init: "build 128 [netnox_ssh_payload_append_u8 30, netnox_ssh_payload_append_string pub_c 32] = Ok init"
    and send: "netnox_ssh_send_packet C init c = (Ok (), c1)" and recv: "srv_recv_packet C 2048 s = (Ok init', s1)"
    and parse: "parse_ecdh_init init' = Ok v" and pre: "prefix (tx_of c1) up"
  shows "v = (pub_c, 32)" "c2s_link C up c1 s1"
proof -
  have l: "length pub_c = 32" using dh_values(1) [OF dh gen pub] .
  have i: "init = ecdh_init pub_c" by (rule build_init_Ok [OF l init])
  then have "fits 2048 init" using l by (simp add: fits_def ecdh_init_def)
  from c2s_link_step [OF up send recv this pre] have "init' = init" "c2s_link C up c1 s1" by auto
  then show "v = (pub_c, 32)" "c2s_link C up c1 s1"
    using parse parse_ecdh_init_eq [OF l] i by auto
qed

lemma dh_reply_phase:
  assumes down: "s2c_link C down s c" and len: "length blob \<le> 256" "blob \<noteq> []" "length sig \<le> 128" "sig \<noteq> []" "length pub_s = 32"
    and reply: "build 2048 [netnox_ssh_payload_append_u8 31, append_bytes blob,
        netnox_ssh_payload_append_string pub_s 32, append_bytes sig] = Ok reply"
    and send: "srv_send_packet C reply s = (Ok (), s2)" and wait: "netnox_ssh_wait_for_message C fuel 31 0xFF 2048 c = (Ok r, c2)"
    and pre: "prefix (tx_of s2) down"
  shows "cli_recvs c c2" "s2c_link C down s2 c2"
    "parse_ecdh_reply r = Ok ((blob @ ssh_string pub_s @ ssh_string sig, u32len blob), (pub_s @ ssh_string sig, 32), (sig, u32len sig))"
proof -
  from wait obtain p c1 where p: "netnox_ssh_recv_packet C 35000 c = (Ok p, c1)"
    and r: "p \<noteq> [] \<and> hd p \<noteq> 20 \<and> (hd p = 31 \<or> hd p = 0xFF) \<longrightarrow> r = p \<and> c2 = c1"
    by (rule wait_first_packet)
  have e: "reply = ecdh_reply blob pub_s sig" "length reply \<le> 2048"
    using build_reply_Ok [OF len(5) _ _ reply] len by auto
  then have "fits 35000 reply" by (simp add: fits_def)
  from s2c_link_step [OF down send p this pre] have "p = reply" "s2c_link C down s2 c1" by auto
  moreover from this r e have "r = reply" "c2 = c1" by (auto simp: ecdh_reply_def)
  ultimately show "cli_recvs c c2" "s2c_link C down s2 c2"
    "parse_ecdh_reply r = Ok ((blob @ ssh_string pub_s @ ssh_string sig, u32len blob), (pub_s @ ssh_string sig, 32), (sig, u32len sig))"
    using packet_frames(2) [OF p] parse_ecdh_reply_eq [of blob pub_s sig] e len by auto
qed

lemma dh_accept_phase:
  assumes C: "sha_ok C" and dh: "dh_ok C" and tr: "same_transcript c s"
    and gen: "noxtls_x25519_generate_key C n = Some (priv, pub_c)"
    and pub: "noxtls_x25519_public_key C (noxtls_x25519_clamp_scalar C seed) = Some pub_s"
    and k: "noxtls_x25519_shared_secret C (noxtls_x25519_clamp_scalar C seed) pub_c = Some k"
    and parse: "parse_ecdh_reply r = Ok ((blob @ x, u32len blob), (pub_s @ y, 32), v)" and blob: "length blob \<le> 256"
    and acc: "accept_ecdh_reply C priv pub_c r c = (Ok u, c')"
    and h: "srv_compute_exchange_hash C s (blob, u32len blob) (pub_c, 32) (pub_s, 32) k = Ok h"
  shows "\<exists>fp. c' = c\<lparr>server_host_key_blob := blob, server_host_key_fingerprint := fp, server_host_key_ready := True,
      session_id := h, session_id_len := 32, shared_secret_raw := k\<rparr>" "length k = 32" "length h = 32"
proof -
  note dv = dh_values [OF dh gen pub]
  show lk: "length k = 32" using dv(3,4) k by simp
  show "length h = 32" using length_exchange_hash [OF C] h by (simp add: srv_compute_exchange_hash_def)
  from acc obtain hk ps sig b q k' h' fp where a: "parse_ecdh_reply r = Ok (hk, ps, sig)"
    "fetch (fst hk) (unat (snd hk)) = Ok b" "fetch (fst ps) 32 = Ok q"
    "noxtls_x25519_shared_secret C priv q = Some k'"
    "netnox_ssh_compute_exchange_hash C c hk (pub_c, 32) ps k' = Ok h'"
    "c' = c\<lparr>server_host_key_blob := b, server_host_key_fingerprint := fp, server_host_key_ready := True,
      session_id := h', session_id_len := 32, shared_secret_raw := k'\<rparr>"
    by (rule accept_reply_Ok)
  have "unat (u32len blob) = length blob" using blob by (simp add: unat_u32len)
  then have "b = blob" "q = pub_s" using a(1-3) parse dv(2) by (auto simp: res_iff)
  moreover from this have "k' = k" using a(4) k dv(3) by simp
  moreover from this have "h' = h"
    using a(1,5) parse h same_exchange_hash [OF C tr blob dv(1,2) lk, of x y] by simp
  ultimately show "\<exists>fp. c' = c\<lparr>server_host_key_blob := blob, server_host_key_fingerprint := fp, server_host_key_ready := True,
      session_id := h, session_id_len := 32, shared_secret_raw := k\<rparr>" using a(6) by blast
qed

lemma two_strings_nonempty:
  "build cap [netnox_ssh_payload_append_string d n, netnox_ssh_payload_append_string e k] = Ok q \<Longrightarrow> q \<noteq> []"
  by (auto simp: res_iff netnox_ssh_payload_append_string_def store_eq netnox_ssh_write_u32_be_def split: if_splits)

lemma newkeys_phase:
  assumes up: "c2s_link C up c s" and down: "s2c_link C down s c"
    and c1: "netnox_ssh_send_packet C [21] c = (Ok (), c1)"
    and c2: "netnox_ssh_wait_for_message C fuel 21 0xFF 2048 c1 = (Ok nk, c2)"
    and s1: "srv_send_packet C [21] s = (Ok (), s1)" and s2: "srv_recv_packet C 64 s1 = (Ok q, s2)"
    and pre: "prefix (tx_of c1) up" "prefix (tx_of s1) down"
  shows "c2s_link C up c2 s2" "s2c_link C down s2 c2" "cli_recvs c1 c2"
proof -
  from c2 obtain p c where p: "netnox_ssh_recv_packet C 35000 c1 = (Ok p, c)"
    and r: "p \<noteq> [] \<and> hd p \<noteq> 20 \<and> (hd p = 21 \<or> hd p = 0xFF) \<longrightarrow> nk = p \<and> c2 = c"
    by (rule wait_first_packet)
  note fr = packet_frames(1) [OF c1] packet_frames(2) [OF p] packet_frames(3) [OF s1] packet_frames(4) [OF s2]
  have fit: "fits 35000 [21]" "fits 64 [21]" by (simp_all add: fits_def)
  from s2c_link_step [OF link_frames(4) [OF down fr(1)] s1 p fit(1) pre(2)]
  have "p = [21]" and l: "s2c_link C down s1 c" by auto
  with r have c: "c2 = c" by simp
  from c2s_link_step [OF link_frames(2) [OF up fr(3)] c1 s2 fit(2) pre(1)] have "c2s_link C up c1 s2" by simp
  from link_frames(1) [OF this fr(2)] link_frames(3) [OF l fr(4)] fr(2) c
  show "c2s_link C up c2 s2" "s2c_link C down s2 c2" "cli_recvs c1 c2" by simp_all
qed

text \<open>From the client's public value to its verified reply.\<close>

lemma dh_values_phase:
  assumes up: "c2s_link C up c s" and down: "s2c_link C down s c" and tr: "same_transcript c s" and dh: "dh_ok C"
    and gen: "noxtls_x25519_generate_key C (keygen_pos (io_user_data c)) = Some (priv, pub_c)"
    and init: "build 128 [netnox_ssh_payload_append_u8 30, netnox_ssh_payload_append_string pub_c 32] = Ok init"
    and c1: "netnox_ssh_send_packet C init
       (c\<lparr>io_user_data := (io_user_data c)\<lparr>keygen_pos := Suc (keygen_pos (io_user_data c))\<rparr>\<rparr>) = (Ok (), c1)"
    and c2: "netnox_ssh_wait_for_message C fuel 31 0xFF 2048 c1 = (Ok reply, c2)"
    and c3: "accept_ecdh_reply C priv pub_c reply c2 = (Ok (), c3)"
    and s1: "srv_recv_packet C 2048 s = (Ok init', s1)" "parse_ecdh_init init' = Ok pubv"
    and rnd: "srv_fill_random 32 (io_user_data s1) = (Ok seed, w)"
    and pubs: "noxtls_x25519_public_key C (noxtls_x25519_clamp_scalar C seed) = Some pub_s"
    and pub: "fetch (fst pubv) 32 = Ok pub"
    and k: "noxtls_x25519_shared_secret C (noxtls_x25519_clamp_scalar C seed) pub = Some k"
    and blob: "srv_build_host_key_blob (s1\<lparr>io_user_data := w\<rparr>) 256 = Ok blob"
    and h: "srv_compute_exchange_hash C (s1\<lparr>io_user_data := w\<rparr>) (blob, u32len blob) pubv (pub_s, 32) k = Ok h"
    and sigw: "build 128 [append_bytes (ascii ''ssh-ed25519''), netnox_ssh_payload_append_string sig 64] = Ok sig_wire"
    and reply: "build 2048 [netnox_ssh_payload_append_u8 31, append_bytes blob,
        netnox_ssh_payload_append_string pub_s 32, append_bytes sig_wire] = Ok reply'"
    and s2: "srv_send_packet C reply' (s1\<lparr>io_user_data := w, session_id := h, session_id_len := 32, shared_secret_raw := k\<rparr>) = (Ok (), s2)"
    and pre: "prefix (tx_of c1) up" "prefix (tx_of s2) down"
  shows "c2s_link C up c3 s2" "s2c_link C down s2 c3" "length k = 32" "length h = 32"
    "session_id c3 = h" "session_id_len c3 = 32" "shared_secret_raw c3 = k"
    "env_key_deriv_mpint (io_user_data c3) = env_key_deriv_mpint w"
proof -
  let ?c0 = "c\<lparr>io_user_data := (io_user_data c)\<lparr>keygen_pos := Suc (keygen_pos (io_user_data c))\<rparr>\<rparr>"
  let ?s1 = "s1\<lparr>io_user_data := w, session_id := h, session_id_len := 32, shared_secret_raw := k\<rparr>"
  have q: "cli_quiet c ?c0" "srv_quiet s1 ?s1"
    using alwaysD [OF sends_random(2) rnd] srv_fill_random_Ok [OF rnd]
    by (auto simp: cli_quiet_def srv_quiet_def only_sends_def os_same_def)
  note fr = packet_frames(1) [OF c1] packet_frames(4) [OF s1(1)] packet_frames(3) [OF s2]
  have C: "sha_ok C" using up by (simp add: c2s_link_def in_step_c2s_def)
  have i: "pubv = (pub_c, 32)" "c2s_link C up c1 s1"
    using dh_init_phase [OF link_quiet(1) [OF up q(1) quiet_refl(2)] dh gen pubs init c1 s1 pre(1)] by auto
  note dv = dh_values [OF dh gen pubs]
  have lens: "length blob \<le> 256" "blob \<noteq> []" "length sig_wire \<le> 128" "sig_wire \<noteq> []"
    using two_strings_bound [OF sigw] two_strings_nonempty [OF sigw]
      two_strings_bound [OF blob [unfolded srv_build_host_key_blob_def]]
      two_strings_nonempty [OF blob [unfolded srv_build_host_key_blob_def]] by simp_all
  have d1: "s2c_link C down ?s1 c1"
    using link_quiet(2) [OF link_frames(4) [OF link_frames(3) [OF link_quiet(2) [OF down q(1) quiet_refl(2)] fr(2)] fr(1)]
        quiet_refl(1) q(2)] .
  note r = dh_reply_phase [OF d1 lens dv(2) reply s2 c2 pre(2)]
  have tr2: "same_transcript c2 (s1\<lparr>io_user_data := w\<rparr>)"
    using tr fr(1,2) r(1) alwaysD [OF sends_random(2) rnd]
    by (elim cli_sendsE cli_recvsE srv_recvsE)
      (simp add: same_transcript_def same_idents_def only_sends_def os_same_def only_recvs_def)
  have pub': "pub = pub_c" using pub i(1) dv(1) by (simp add: fetch_def)
  note a = dh_accept_phase [OF C dh tr2 gen pubs k [unfolded pub'] r(3) lens(1) c3 h [unfolded i(1)]]
  from a(1) obtain fp where c3': "c3 = c2\<lparr>server_host_key_blob := blob, server_host_key_fingerprint := fp,
      server_host_key_ready := True, session_id := h, session_id_len := 32, shared_secret_raw := k\<rparr>" by blast
  have q3: "cli_quiet c2 c3" by (simp add: c3' cli_quiet_def)
  have u2: "c2s_link C up c3 s2"
    using link_quiet(1) [OF link_frames(1) [OF i(2) r(1)] q3 quiet_refl(2)] q(2) fr(3)
    by (metis link_frames(2) link_quiet(1) quiet_refl(1))
  show "c2s_link C up c3 s2" "s2c_link C down s2 c3" by (rule u2, rule link_quiet(2) [OF r(2) q3 quiet_refl(2)])
  show "length k = 32" "length h = 32" by (rule a(2), rule a(3))
  show "session_id c3 = h" "session_id_len c3 = 32" "shared_secret_raw c3 = k"
    "env_key_deriv_mpint (io_user_data c3) = env_key_deriv_mpint w"
    using tr2 by (simp_all add: c3' same_transcript_def same_idents_def)
qed

text \<open>What is written first is a prefix of what is written in the end.\<close>

lemma kex_written:
  assumes "netnox_ssh_wait_for_message C fuel 31 0xFF 2048 c1 = (Ok reply, c2)" "accept_ecdh_reply C priv pub_c reply c2 = (Ok (), c3)"
    "netnox_ssh_send_packet C [21] c3 = (Ok (), c4)" "netnox_ssh_wait_for_message C fuel 21 0xFF 2048 c4 = (Ok nk, c5)"
    "netnox_ssh_derive_transport_keys C c5 = (Ok (), c6)"
  shows "prefix (tx_of c1) (tx_of c6)" "prefix (tx_of c4) (tx_of c6)"
  using prefix_tx [OF always_wait assms(1)] prefix_tx [OF always_accept_reply assms(2)] prefix_tx [OF always_send_packet assms(3)]
    prefix_tx [OF always_wait assms(4)] prefix_tx [OF always_derive_keys assms(5)] by (auto intro: prefix_order.trans)

lemma srv_kex_written:
  assumes "srv_send_packet C [21] s2 = (Ok (), s3)" "srv_recv_packet C 64 s3 = (Ok q, s4)" "srv_derive_transport_keys C s4 = (Ok (), s5)"
  shows "prefix (tx_of s2) (tx_of s5)" "prefix (tx_of s3) (tx_of s5)"
  using prefix_tx [OF always_srv_send_packet assms(1)] prefix_tx [OF always_srv_recv_packet assms(2)]
    prefix_tx [OF always_derive_keys assms(3) [unfolded srv_derive_transport_keys_def]] by (auto intro: prefix_order.trans)

lemma dh_phase:
  assumes up: "c2s_link C up c s" and down: "s2c_link C down s c" and tr: "same_transcript c s" and dh: "dh_ok C"
    and cli: "netnox_ssh_perform_curve25519_kex C (netnox_ssh_wait_for_message C fuel) c = (Ok u, c')"
    and srv: "srv_perform_curve25519_kex C s = (Ok v, s')"
    and pre: "prefix (tx_of c') up" "prefix (tx_of s') down"
  shows "c2s_link C up c' s'" "s2c_link C down s' c'" "session_id c' = session_id s'"
    "shared_secret_raw c' = shared_secret_raw s'" "length (session_id s') = 32"
proof -
  from cli obtain priv pub_c init c1 reply c2 c3 c4 nk c5 c6 where
    gen: "noxtls_x25519_generate_key C (keygen_pos (io_user_data c)) = Some (priv, pub_c)"
    and init: "build 128 [netnox_ssh_payload_append_u8 30, netnox_ssh_payload_append_string pub_c 32] = Ok init"
    and c1: "netnox_ssh_send_packet C init
       (c\<lparr>io_user_data := (io_user_data c)\<lparr>keygen_pos := Suc (keygen_pos (io_user_data c))\<rparr>\<rparr>) = (Ok (), c1)"
    and c2: "netnox_ssh_wait_for_message C fuel 31 0xFF 2048 c1 = (Ok reply, c2)"
    and c3: "accept_ecdh_reply C priv pub_c reply c2 = (Ok (), c3)"
    and c4: "netnox_ssh_send_packet C [21] c3 = (Ok (), c4)"
    and c5: "netnox_ssh_wait_for_message C fuel 21 0xFF 2048 c4 = (Ok nk, c5)"
    and c6: "netnox_ssh_derive_transport_keys C c5 = (Ok (), c6)" "c' = c6\<lparr>key_exchange_complete := True\<rparr>"
    by (rule perform_kex_Ok)
  from srv obtain init' s1 pubv seed w pub_s pub k blob h sig sig_wire reply' s2 s3 rx s4 s5 where
    s1: "srv_recv_packet C 2048 s = (Ok init', s1)" "parse_ecdh_init init' = Ok pubv"
    and rnd: "srv_fill_random 32 (io_user_data s1) = (Ok seed, w)"
    and pubs: "noxtls_x25519_public_key C (noxtls_x25519_clamp_scalar C seed) = Some pub_s"
    and pub: "fetch (fst pubv) 32 = Ok pub"
    and k: "noxtls_x25519_shared_secret C (noxtls_x25519_clamp_scalar C seed) pub = Some k"
    and blob: "srv_build_host_key_blob (s1\<lparr>io_user_data := w\<rparr>) 256 = Ok blob"
    and h: "srv_compute_exchange_hash C (s1\<lparr>io_user_data := w\<rparr>) (blob, u32len blob) pubv (pub_s, 32) k = Ok h"
    and sigw: "build 128 [append_bytes (ascii ''ssh-ed25519''), netnox_ssh_payload_append_string sig 64] = Ok sig_wire"
    and reply: "build 2048 [netnox_ssh_payload_append_u8 31, append_bytes blob,
        netnox_ssh_payload_append_string pub_s 32, append_bytes sig_wire] = Ok reply'"
    and s2: "srv_send_packet C reply' (s1\<lparr>io_user_data := w, session_id := h, session_id_len := 32, shared_secret_raw := k\<rparr>) = (Ok (), s2)"
    and s3: "srv_send_packet C [21] s2 = (Ok (), s3)" and s4: "srv_recv_packet C 64 s3 = (Ok rx, s4)"
    and s5: "srv_derive_transport_keys C s4 = (Ok (), s5)" "s' = s5\<lparr>key_exchange_complete := True\<rparr>"
    by (rule srv_perform_kex_Ok)
  have pc: "prefix (tx_of c1) up" "prefix (tx_of c4) up"
    using kex_written [OF c2 c3 c4 c5 c6(1)] pre(1) c6(2) by (auto simp: tx_of_def intro: prefix_order.trans)
  have ps: "prefix (tx_of s2) down" "prefix (tx_of s3) down"
    using srv_kex_written [OF s3 s4 s5(1)] pre(2) s5(2) by (auto simp: tx_of_def intro: prefix_order.trans)
  note v = dh_values_phase [OF up down tr dh gen init c1 c2 c3 s1 rnd pubs pub k blob h sigw reply s2 pc(1) ps(1)]
  note n = newkeys_phase [OF v(1,2) c4 c5 s3 s4 pc(2) ps(2)]
  have fc: "session_id c5 = h" "session_id_len c5 = 32" "shared_secret_raw c5 = k"
    "env_key_deriv_mpint (io_user_data c5) = env_key_deriv_mpint w"
    using packet_frames(1) [OF c4] n(3) v(5-8) by (auto elim!: cli_sendsE cli_recvsE simp: only_sends_def os_same_def only_recvs_def)
  have fs: "session_id s4 = h" "session_id_len s4 = 32" "shared_secret_raw s4 = k"
    "env_key_deriv_mpint (io_user_data s4) = env_key_deriv_mpint w"
    using packet_frames(3) [OF s2] packet_frames(3) [OF s3] packet_frames(4) [OF s4]
    by (auto elim!: srv_sendsE srv_recvsE simp: only_sends_def os_same_def only_recvs_def)
  note ks = keys_in_step [OF n(1,2) c6(1) s5(1), unfolded fc fs, OF refl v(4) refl refl refl v(3) refl]
  show "c2s_link C up c' s'" "s2c_link C down s' c'" "session_id c' = session_id s'" "shared_secret_raw c' = shared_secret_raw s'" "length (session_id s') = 32"
    using ks v(4) by (simp_all add: c6(2) s5(2))
qed

end
