(* ===== verification/Nox_Halting.thy ===== *)
theory Nox_Halting
  imports Nox_Handshake
begin

text \<open>
  Termination of the client's waiting. The mutual recursion of \<open>wait_for_message\<close>, \<open>handle_server_kexinit\<close>
  and \<open>perform_curve25519_kex\<close> is driven by the messages of the server; each level consumes a packet, so
  a depth bound above the number of unread bytes is never reached, and a larger one changes nothing.
\<close>

section \<open>Outcomes that are never a lack of fuel\<close>

lemma read_u32_be_Hang [hang_iff]: "netnox_ssh_read_u32_be d \<noteq> Hang"
  by (cases d rule: netnox_ssh_read_u32_be.cases) simp_all

lemma store_Hang [hang_iff]: "store b c d \<noteq> Hang"
  by (simp add: store_def)

lemma append_Hang [hang_iff]:
  "netnox_ssh_payload_append_u8 v p m \<noteq> Hang" "netnox_ssh_payload_append_u32 n p m \<noteq> Hang"
  "netnox_ssh_payload_append_string d k p m \<noteq> Hang" "netnox_ssh_payload_append_namelist d p m \<noteq> Hang"
  "netnox_ssh_buf_append d k p m \<noteq> Hang" "append_kexinit_trailer p m \<noteq> Hang"
  by (simp_all add: netnox_ssh_payload_append_u8_def netnox_ssh_payload_append_u32_def Let_def
      netnox_ssh_payload_append_string_def netnox_ssh_payload_append_namelist_def netnox_ssh_buf_append_def
      append_kexinit_trailer_def hang_iff)

lemma skip_zeros_Hang [hang_iff]: "skip_zeros p n \<noteq> Hang"
  by (induction p n rule: skip_zeros.induct, subst skip_zeros.simps) (auto split: list.splits)

lemma mpint_Hang [hang_iff]: "netnox_ssh_buf_append_mpint_be d n p m \<noteq> Hang"
  by (auto simp: netnox_ssh_buf_append_mpint_be_def Let_def hang_iff split: prod.splits if_splits)

lemma append_all_Hang: "append_all cap fs p = Hang \<Longrightarrow> \<exists>f \<in> set fs. \<exists>q. f q cap = Hang"
  by (induction fs arbitrary: p) (auto simp: hang_iff)

lemma scan_name_Hang [hang_iff]: "scan_name p n \<noteq> Hang"
  by (induction p n rule: scan_name.induct, subst scan_name.simps) (auto simp: hang_iff split: list.splits)

lemma names_contain_Hang [hang_iff]: "names_contain p n t \<noteq> Hang"
  by (induction p n t rule: names_contain.induct, subst names_contain.simps)
    (auto simp: hang_iff split: prod.splits)

lemma read_view_Hang [hang_iff]: "netnox_ssh_payload_read_u32 p n off \<noteq> Hang"
  "netnox_ssh_payload_read_string_view p n off \<noteq> Hang" "view_at v off \<noteq> Hang" "view_eq v tok \<noteq> Hang"
  "netnox_ssh_namelist_contains v tok \<noteq> Hang"
  by (auto simp: netnox_ssh_payload_read_u32_def netnox_ssh_payload_read_string_view_def view_at_def view_eq_def
      netnox_ssh_namelist_contains_def hang_iff)

lemma check_namelists_Hang [hang_iff]: "check_namelists p n off rs \<noteq> Hang"
  by (induction p n off rs rule: check_namelists.induct) (auto simp: hang_iff split: option.splits)

lemma validate_Hang [hang_iff]: "netnox_ssh_validate_server_kexinit p \<noteq> Hang"
  by (simp add: netnox_ssh_validate_server_kexinit_def validate_kexinit_def hang_iff)

lemma sha_Hang [hang_iff]: "netnox_ssh_sha256 C d \<noteq> Hang" "netnox_ssh_hmac_sha256 C k d \<noteq> Hang"
  by (auto simp: netnox_ssh_sha256_def netnox_ssh_hmac_sha256_def sha_unchecked_def hang_iff split: option.splits if_splits)

lemma exchange_hash_Hang [hang_iff]: "netnox_ssh_compute_exchange_hash C c a b d k \<noteq> Hang"
  by (auto simp: netnox_ssh_compute_exchange_hash_def hang_iff simp del: append_all.simps dest!: append_all_Hang)

lemma append_secret_Hang [hang_iff]: "append_secret u k n \<noteq> Hang"
  by (auto simp: append_secret_def hang_iff)

lemma derive_more_Hang [hang_iff]: "derive_more C u k s sl n out \<noteq> Hang"
  by (induction C u k s sl n out rule: derive_more.induct, subst derive_more.simps)
    (auto simp: hang_iff simp del: append_all.simps dest!: append_all_Hang)

lemma derive_block_Hang [hang_iff]: "netnox_ssh_derive_key_block C c x n \<noteq> Hang"
  by (auto simp: netnox_ssh_derive_key_block_def Let_def hang_iff simp del: append_all.simps dest!: append_all_Hang)

lemma verify_Hang [hang_iff]: "netnox_ssh_verify_server_host_key_signature C a b h \<noteq> Hang"
  by (auto simp: netnox_ssh_verify_server_host_key_signature_def verify_ed25519_host_key_def verify_rsa_host_key_def
      hang_iff split: if_splits option.splits)

lemma parse_reply_Hang [hang_iff]: "parse_ecdh_reply r \<noteq> Hang"
  by (auto simp: parse_ecdh_reply_def hang_iff)

section \<open>Fuel and unread bytes\<close>

text \<open>\<open>halts n m\<close>: with fewer than \<open>n\<close> unread bytes, \<open>m\<close> does not run out of fuel.\<close>

definition halts :: "nat \<Rightarrow> (netnox_ssh_client_t, 'a) prog \<Rightarrow> bool" where
  "halts n m \<longleftrightarrow> always ctx_step m \<and> (\<forall>c. length (rx_of c) < n \<longrightarrow> fst (m c) \<noteq> Hang)"

lemma ctx_step_unread: "ctx_step c c' \<Longrightarrow> length (rx_of c') \<le> length (rx_of c)"
  by (auto simp: ctx_step_def io_step_def rx_of_def suffix_def)

lemma halts_bind: "halts n m \<Longrightarrow> (\<And>a. halts n (f a)) \<Longrightarrow> halts n (bindM m f)"
proof -
  assume m: "halts n m" and f: "\<And>a. halts n (f a)"
  have "fst (bindM m f c) \<noteq> Hang" if c: "length (rx_of c) < n" for c
  proof -
    obtain r c1 where run: "m c = (r, c1)" by (cases "m c")
    have "ctx_step c c1" using m run unfolding halts_def by (blast intro: alwaysD)
    then have "length (rx_of c1) < n" using ctx_step_unread [of c c1] c by simp
    then show ?thesis using m f run c by (cases r) (auto simp: bindM_def halts_def dest!: spec [of _ c])
  qed
  with m f show ?thesis by (auto simp: halts_def intro: ctx.always_bind)
qed

lemma halts_checked: "halts n m \<Longrightarrow> halts n (checkedM e m)"
  by (auto simp: halts_def checkedM_def always_checked hang_iff split: prod.splits)

lemma halts_ifM: "halts n m \<Longrightarrow> halts n m' \<Longrightarrow> halts n (ifM b m m')"
  by (auto simp: halts_def always_ifM ifM_def)

lemma halts_if: "halts n m \<Longrightarrow> halts n m' \<Longrightarrow> halts n (if b then m else m')"
  by simp

lemma halts_basic: "halts n (retM a)" "halts n (throwM e)" "halts n (failM b e)" "r \<noteq> Hang \<Longrightarrow> halts n (liftM r)"
  "halts n (getM g)"
  by (auto simp: halts_def ctx.always_rules) (auto simp: prog_defs split: if_splits)

lemma halts_set: "(\<And>c. io_user_data (f c) = io_user_data c) \<Longrightarrow> halts n (setM f)"
  by (auto simp: halts_def always_setM_ctx setM_def)

lemma halts_dep: "(\<And>c. f c \<noteq> Hang) \<Longrightarrow> halts n (\<lambda>c. liftM (f c) c)"
  "(\<And>c. f c \<noteq> Hang) \<Longrightarrow> halts n (\<lambda>c. checkedM e (liftM (f c)) c)"
  by (auto simp: halts_def always_liftM_dep always_checked_dep) (auto simp: liftM_def checkedM_def hang_iff)

lemma halts_keygen: "halts n (keygenM C)"
  by (auto simp: halts_def always_keygenM) (auto simp: keygenM_def ioM_def split: option.splits prod.splits)

lemma halts_io: "always io_step f \<Longrightarrow> (\<And>w. fst (f w) \<noteq> Hang) \<Longrightarrow> halts n (ioM f)"
  by (auto simp: halts_def always_ioM) (auto simp: ioM_def split: prod.splits, metis fst_conv)

lemma halts_send_all: "halts n (netnox_ssh_send_all d)"
  unfolding netnox_ssh_send_all_def
  by (intro halts_ifM halts_basic halts_io always_send_loop send_loop_Hang)

lemma halts_recv_exact: "halts n (netnox_ssh_recv_exact k room)"
  unfolding netnox_ssh_recv_exact_def
  by (intro halts_ifM halts_basic halts_io always_recv_loop recv_loop_no_hang)

lemma halts_random: "halts n (ioM (netnox_ssh_fill_random k))"
  by (intro halts_io always_fill_random) (simp add: netnox_ssh_fill_random_def)

lemma halts_aes: "halts n (aesM C d x)"
  by (auto simp: halts_def always_aesM) (auto simp: aesM_def split: option.splits)

lemma halts_mac: "halts n (macM C d k x)"
  by (auto simp: halts_def always_macM) (auto simp: macM_def hang_iff)

lemma frame_Hang [hang_iff]: "frame_packet p b \<noteq> Hang" "packet_payload k pk m \<noteq> Hang"
  by (auto simp: frame_packet_def packet_payload_def Let_def hang_iff)

lemmas halts_rules = halts_bind halts_checked halts_ifM halts_if halts_basic halts_set halts_dep halts_keygen
  halts_send_all halts_recv_exact halts_random halts_aes halts_mac

lemma halts_send_packet: "halts n (netnox_ssh_send_packet C p)"
  unfolding netnox_ssh_send_packet_def seal_packet_def send_sealed_def advanceM_def count_sent_def Let_def case_prod_beta
  by (intro halts_rules) (simp_all add: hang_iff)

lemma halts_recv_packet: "halts n (netnox_ssh_recv_packet C m)"
  unfolding netnox_ssh_recv_packet_def recv_unfold
  by (intro halts_rules) (simp_all add: hang_iff)


definition consumes :: "('z ssh_context_scheme, 'a) prog \<Rightarrow> bool" where
  "consumes m \<longleftrightarrow> (\<forall>c a c'. m c = (Ok a, c') \<longrightarrow> length (rx_of c') < length (rx_of c))"

lemma consumes_bind: "consumes m \<Longrightarrow> (\<And>a. always ctx_step (f a)) \<Longrightarrow> consumes (bindM m f)"
  unfolding consumes_def bindM_Ok
  by (meson alwaysD ctx_step_unread le_less_trans)

lemma consumes_recv_exact: "n \<noteq> 0 \<Longrightarrow> consumes (checkedM e (netnox_ssh_recv_exact n room) :: (netnox_ssh_client_t, bytes) prog)"
  unfolding consumes_def checkedM_Ok
  by (auto dest!: cli_bounded.rcv_Ok simp: rx_of_def) (simp add: unat_gt_0)

lemma consumes_ifM: "consumes m \<Longrightarrow> consumes m' \<Longrightarrow> consumes (ifM b m m')"
  by (auto simp: consumes_def ifM_def)

lemma consumes_recv_packet: "consumes (netnox_ssh_recv_packet C m)"
  unfolding netnox_ssh_recv_packet_def recv_unfold
  by (intro consumes_ifM consumes_bind consumes_recv_exact kex_always always_recv_exact always_aesM always_macM)
    simp_all

lemma halts_consume: "halts (Suc n) m \<Longrightarrow> consumes m \<Longrightarrow> (\<And>a. halts n (f a)) \<Longrightarrow> halts (Suc n) (bindM m f)"
proof -
  assume m: "halts (Suc n) m" "consumes m" and f: "\<And>a. halts n (f a)"
  have "fst (bindM m f c) \<noteq> Hang" if c: "length (rx_of c) < Suc n" for c
  proof -
    obtain r c1 where run: "m c = (r, c1)" by (cases "m c")
    then show ?thesis using m f c
      by (cases r) (fastforce simp: bindM_def halts_def consumes_def dest!: spec [of _ c])+
  qed
  with m f show ?thesis by (auto simp: halts_def intro: ctx.always_bind)
qed

lemma halts_mono: "halts n m \<Longrightarrow> k \<le> n \<Longrightarrow> halts k m"
  by (auto simp: halts_def)


lemma halts_perform:
  "(\<And>a b m. halts n (wait a b m)) \<Longrightarrow> halts n (netnox_ssh_perform_curve25519_kex C wait)"
  unfolding netnox_ssh_perform_curve25519_kex_def accept_ecdh_reply_def netnox_ssh_derive_transport_keys_def
    derive_into_def case_prod_beta
  by (intro halts_rules halts_send_packet)
    (auto simp: hang_iff simp del: append_all.simps dest!: append_all_Hang split: option.splits)

lemma halts_build_kexinit: "halts n (netnox_ssh_build_kexinit_payload k)"
  unfolding netnox_ssh_build_kexinit_payload_def kexinit_fields_def
  by (intro halts_rules) (auto simp: hang_iff simp del: append_all.simps dest!: append_all_Hang)

lemma halts_handle_kexinit:
  "(\<And>a b m. halts n (wait a b m)) \<Longrightarrow> halts n (netnox_ssh_handle_server_kexinit C wait p)"
  unfolding netnox_ssh_handle_server_kexinit_def
  by (intro halts_rules halts_perform halts_build_kexinit halts_send_packet) (simp_all add: hang_iff)

lemma halts_wait_loop:
  "(\<And>p. halts n (rekey p)) \<Longrightarrow> halts (Suc n) (wait_loop C rekey a b m i)"
proof (induction i)
  case (Suc i)
  then have "halts n (wait_loop C rekey a b m i)" by (auto intro: halts_mono)
  with Suc.prems show ?case
    unfolding wait_loop.simps
    by (intro halts_consume halts_checked halts_recv_packet)
      (auto intro!: halts_rules simp: consumes_recv_packet [unfolded consumes_def] consumes_def checkedM_Ok)
qed (simp add: halts_basic)

lemma halts_wait: "halts fuel (netnox_ssh_wait_for_message C fuel a b m)"
proof (induction fuel arbitrary: a b m)
  case 0
  then show ?case by (simp add: halts_def always_def ctx.refl)
next
  case (Suc fuel)
  then show ?case by (simp add: halts_wait_loop halts_handle_kexinit)
qed

lemma extends_perform: "(\<And>a b m. extends (wait a b m) (wait' a b m)) \<Longrightarrow>
    extends (netnox_ssh_perform_curve25519_kex C wait) (netnox_ssh_perform_curve25519_kex C wait')"
  unfolding netnox_ssh_perform_curve25519_kex_def case_prod_beta
  by (intro extends_rules) simp_all

lemma extends_handle: "(\<And>a b m. extends (wait a b m) (wait' a b m)) \<Longrightarrow>
    extends (netnox_ssh_handle_server_kexinit C wait p) (netnox_ssh_handle_server_kexinit C wait' p)"
  unfolding netnox_ssh_handle_server_kexinit_def
  by (intro extends_rules extends_perform) simp_all

lemma extends_wait_loop: "(\<And>p. extends (rekey p) (rekey' p)) \<Longrightarrow>
    extends (wait_loop C rekey a b m i) (wait_loop C rekey' a b m i)"
  by (induction i) (auto intro!: extends_rules)

lemma extends_wait: "fuel \<le> fuel' \<Longrightarrow>
    extends (netnox_ssh_wait_for_message C fuel a b m) (netnox_ssh_wait_for_message C fuel' a b m)"
proof (induction fuel arbitrary: fuel' a b m)
  case 0
  then show ?case by (simp add: extends_def)
next
  case (Suc f)
  then obtain f' where "fuel' = Suc f'" "f \<le> f'" by (cases fuel') auto
  with Suc.IH show ?case by (simp add: extends_wait_loop extends_handle)
qed

lemma extends_exchange: "(\<And>a b m. extends (wait a b m) (wait' a b m)) \<Longrightarrow>
    extends (netnox_ssh_exchange_kexinit C wait) (netnox_ssh_exchange_kexinit C wait')"
  unfolding netnox_ssh_exchange_kexinit_def
  by (intro extends_rules extends_perform) simp_all

text \<open>A waiter that only looks at the next packet; where that decides the outcome, the loop agrees.\<close>

definition direct_wait :: "noxtls \<Rightarrow> waiter" where
  "direct_wait C a b m = bindM (checkedM NETNOX_RETURN_FAILED (netnox_ssh_recv_packet C 35000)) (\<lambda>p.
     if p \<noteq> [] \<and> hd p \<noteq> 20 \<and> (hd p = a \<or> hd p = b) \<and> \<not> u32len p > m then retM p else liftM Hang)"

lemma extends_direct_wait: "extends (direct_wait C a b m) (netnox_ssh_wait_for_message C (Suc fuel) a b m)"
proof -
  have "(32 :: nat) = Suc 31" by simp
  then show ?thesis unfolding direct_wait_def netnox_ssh_wait_for_message.simps
    by (simp only: wait_loop.simps) (intro extends_bind extends_refl, auto simp: extends_def liftM_def)
qed

section \<open>Properties\<close>

text \<open>C4: The client's \<open>wait_for_message\<close> always returns. The recursion through
  \<open>handle_server_kexinit\<close> and \<open>perform_curve25519_kex\<close> has an outcome (success, an error or a fault) at every
  depth bound above the number of unread bytes, and that outcome does not depend on the bound.\<close>

theorem wait_for_message_terminates:
  assumes "length (rx_of c) < fuel"
  shows "\<exists>r c'. r \<noteq> Hang \<and> (\<forall>n \<ge> fuel. netnox_ssh_wait_for_message C n expect_a expect_b out_max c = (r, c'))"
proof -
  have "fst (netnox_ssh_wait_for_message C fuel expect_a expect_b out_max c) \<noteq> Hang"
    using halts_wait assms by (auto simp: halts_def)
  with extends_wait show ?thesis unfolding extends_def
    by (metis prod.collapse)
qed

theorem wait_for_message_terminates_witness: "\<exists>r c'. r \<noteq> Hang \<and> (\<forall>n \<ge> 1. netnox_ssh_wait_for_message toy_noxtls n 31 255 2048 sample_client = (r, c'))"
  by (rule wait_for_message_terminates) (simp add: rx_of_def sample_client_eq sample_fields)

end
