(* ===== verification/Nox_Agreement.thy ===== *)
theory Nox_Agreement
  imports Nox_Halting
begin

text \<open>
  What a completed key exchange guarantees: the client has verified the host key's signature over the
  exchange hash it uses, and client and server that ran on each other's bytes hold the same keys and are
  in step for the encrypted transport. A concrete exchange with the stand-in for the crypto library shows
  that such runs exist.
\<close>

section \<open>Only a verified host key completes an exchange\<close>

definition host_verified :: "noxtls \<Rightarrow> netnox_ssh_client_t \<Rightarrow> bool" where
  "host_verified C c \<longleftrightarrow> session_id_len c = 32 \<and> server_host_key_ready c \<and>
     netnox_ssh_sha256 C (server_host_key_blob c) = Ok (server_host_key_fingerprint c) \<and>
     (\<exists>hk sig pub_c pub_s. fetch (fst hk) (unat (snd hk)) = Ok (server_host_key_blob c) \<and>
        netnox_ssh_compute_exchange_hash C c hk (pub_c, 32) pub_s (shared_secret_raw c) = Ok (session_id c) \<and>
        netnox_ssh_verify_server_host_key_signature C hk sig (session_id c) = Ok ())"

lemma compute_hash_cong:
  "client_ident c = client_ident c' \<Longrightarrow> server_ident c = server_ident c' \<Longrightarrow>
   kexinit_client_payload c = kexinit_client_payload c' \<Longrightarrow> kexinit_server_payload c = kexinit_server_payload c' \<Longrightarrow>
   netnox_ssh_compute_exchange_hash C c a b d k = netnox_ssh_compute_exchange_hash C c' a b d k"
  by (simp add: netnox_ssh_compute_exchange_hash_def)

lemma host_verified_cong:
  assumes "host_verified C c" and "client_ident c' = client_ident c" "server_ident c' = server_ident c"
    "kexinit_client_payload c' = kexinit_client_payload c" "kexinit_server_payload c' = kexinit_server_payload c"
    "session_id c' = session_id c" "session_id_len c' = session_id_len c" "shared_secret_raw c' = shared_secret_raw c"
    "server_host_key_blob c' = server_host_key_blob c" "server_host_key_fingerprint c' = server_host_key_fingerprint c"
    "server_host_key_ready c' = server_host_key_ready c"
  shows "host_verified C c'"
  using assms compute_hash_cong [of c' c C] by (simp add: host_verified_def)

lemma host_verified_frames:
  "host_verified C c \<Longrightarrow> cli_sends c c' \<Longrightarrow> host_verified C c'"
  "host_verified C c \<Longrightarrow> cli_recvs c c' \<Longrightarrow> host_verified C c'"
  by (erule cli_sendsE cli_recvsE, erule host_verified_cong, simp_all)+

lemma ensures_accept: "ensures (host_verified C) (accept_ecdh_reply C priv pub_c reply)"
  unfolding ensures_def
proof (intro allI impI)
  fix c u c'
  assume "accept_ecdh_reply C priv pub_c reply c = (Ok u, c')"
  then obtain hk pub_s sig blob pub k h fp where a: "fetch (fst hk) (unat (snd hk)) = Ok blob"
    "netnox_ssh_sha256 C blob = Ok fp" "netnox_ssh_compute_exchange_hash C c hk (pub_c, 32) pub_s k = Ok h"
    "netnox_ssh_verify_server_host_key_signature C hk sig h = Ok ()"
    "c' = c\<lparr>server_host_key_blob := blob, server_host_key_fingerprint := fp, server_host_key_ready := True,
      session_id := h, session_id_len := 32, shared_secret_raw := k\<rparr>"
    by (rule accept_reply_Ok)
  then have "netnox_ssh_compute_exchange_hash C c' hk (pub_c, 32) pub_s k = Ok h"
    using compute_hash_cong [of c' c C hk "(pub_c, 32)" pub_s k] by simp
  with a show "host_verified C c'" unfolding host_verified_def by fastforce
qed

lemma keeps_packets:
  "keeps (host_verified C) (netnox_ssh_send_packet D p)" "keeps (host_verified C) (netnox_ssh_recv_packet D m)"
  by (rule keeps_always [OF cs_send_packet], erule (1) host_verified_frames(1) [rotated])
    (rule keeps_always [OF cr_recv_packet], erule (1) host_verified_frames(2) [rotated])

lemma keeps_derive_keys: "keeps (host_verified C) (netnox_ssh_derive_transport_keys D)"
  unfolding netnox_ssh_derive_transport_keys_def derive_into_def
  by (intro keeps_rules keeps_set keeps_dep) (erule host_verified_cong, simp_all)+

lemma ensures_perform:
  assumes "\<And>a b m. keeps (host_verified C) (wait a b m)"
  shows "ensures (host_verified C) (netnox_ssh_perform_curve25519_kex C wait)"
  unfolding netnox_ssh_perform_curve25519_kex_def case_prod_beta
  by (rule ensures_last, rule ensures_last, rule ensures_last, rule ensures_last, rule ensures_last,
      intro ensures_first ensures_accept keeps_rules keeps_packets keeps_derive_keys keeps_set assms)
    (erule host_verified_cong, simp_all)

lemma ensures_handle:
  "(\<And>a b m. keeps (host_verified C) (wait a b m)) \<Longrightarrow> ensures (host_verified C) (netnox_ssh_handle_server_kexinit C wait p)"
  unfolding netnox_ssh_handle_server_kexinit_def
  by (rule ensures_last)+ (rule ensures_perform)

lemmas keeps_handle = keeps_ensures [OF ensures_handle]

lemma keeps_wait: "keeps (host_verified C) (netnox_ssh_wait_for_message C fuel a b m)"
proof (induction fuel arbitrary: a b m)
  case (Suc fuel)
  have "keeps (host_verified C) (wait_loop C (netnox_ssh_handle_server_kexinit C (netnox_ssh_wait_for_message C fuel)) a b m i)" for i
    by (induction i) (auto intro!: keeps_rules keeps_packets keeps_handle Suc)
  then show ?case by simp
qed (simp add: keeps_def)

section \<open>A concrete exchange\<close>

text \<open>The server's part of the exchange, as \<open>srv_handshake_to_encrypted\<close> composes it.\<close>

definition srv_key_exchange :: "noxtls \<Rightarrow> (netnox_ssh_server_t, unit) prog" where
  "srv_key_exchange C = bindM (srv_exchange_kexinit C) (\<lambda>_. srv_perform_curve25519_kex C)"

text \<open>A packet as it is on the wire before the keys are in place.\<close>

definition wire :: "bytes \<Rightarrow> bytes \<Rightarrow> bytes" where
  "wire payload pad =
     netnox_ssh_write_u32_be (1 + u32len payload + u32len pad) @ ucast (u32len pad) # payload @ pad"

definition kex_client :: netnox_ssh_client_t where
  "kex_client = sample_client\<lparr>connected := True, server_ident := ascii ''SSH-2.0-noxsshd_0.1''\<rparr>"

definition kex_server :: netnox_ssh_server_t where
  "kex_server = sample_server\<lparr>connected := True, client_ident := ascii ''SSH-2.0-noxssh_0.1'', host_key_ready := True\<rparr>"

definition sample_up :: bytes where
  "sample_up = wire (kexinit_msg (map word_of_nat [0..<16]) client_lists) (map word_of_nat [16..<26]) @
     wire (ecdh_init (replicate 32 0)) (map word_of_nat [26..<32]) @ wire [21] (map word_of_nat [32..<42])"

definition sample_down :: bytes where
  "sample_down = wire (kexinit_msg (replicate 16 7) server_lists) (replicate 11 7) @
     wire (ecdh_reply (ed25519_blob (replicate 32 0)) (replicate 32 7) (ed25519_blob (replicate 32 0 @
         take 32 (ssh_string (ascii ''SSH-2.0-noxssh_0.1'') @ ssh_string (ascii ''SSH-2.0-noxsshd_0.1'')))))
       (replicate 8 7) @ wire [21] (replicate 10 7)"

definition feed1 :: "bytes \<Rightarrow> 'z ssh_context_scheme \<Rightarrow> 'z ssh_context_scheme" where
  "feed1 d c = c\<lparr>io_user_data := (io_user_data c)\<lparr>rx := [d]\<rparr>\<rparr>"

lemma sample_server_run:
  "let r = srv_key_exchange toy_noxtls (feed1 sample_up kex_server) in fst r = Ok () \<and> tx_of (snd r) = sample_down"
  by code_simp

lemma sample_client_run:
  "let r = netnox_ssh_exchange_kexinit toy_noxtls (direct_wait toy_noxtls) (feed1 sample_down kex_client) in
   fst r = Ok () \<and> tx_of (snd r) = sample_up"
  by code_simp

lemma ensures_exchange:
  "ensures (host_verified C) (netnox_ssh_exchange_kexinit C (netnox_ssh_wait_for_message C fuel))"
  unfolding netnox_ssh_exchange_kexinit_def by (rule ensures_last)+ (rule ensures_perform [OF keeps_wait])

text \<open>For a well-formed \<open>ssh-ed25519\<close> host key and signature the verification decides what Ed25519 decides.\<close>

lemma verify_ed25519_blobs:
  assumes "length pk = 32" and "length sig = 64" and "h \<noteq> []"
    and "length post < 2 ^ 31" and "length post' < 2 ^ 31"
  shows "netnox_ssh_verify_server_host_key_signature C
      (ed25519_blob pk @ post, u32len (ed25519_blob pk)) (ed25519_blob sig @ post', u32len (ed25519_blob sig)) h =
    (if noxtls_ed25519_verify C pk h sig then Ok () else Err NETNOX_RETURN_FAILED)"
proof -
  let ?a = "ascii ''ssh-ed25519''"
  have lens: "u32len pk = 32" "u32len sig = 64" using assms by (simp_all add: u32len_def)
  have nz: "u32len (ed25519_blob pk) \<noteq> 0" "u32len (ed25519_blob sig) \<noteq> 0"
    using assms by (simp_all add: ed25519_blob_def u32len_def)
  have hk: "view_at (ed25519_blob pk @ post, u32len (ed25519_blob pk)) 0 =
      Ok ((?a @ ssh_string pk @ post, u32len ?a), u32len (ssh_string ?a))"
    "view_at (ed25519_blob pk @ post, u32len (ed25519_blob pk)) (u32len (ssh_string ?a)) =
      Ok ((pk @ post, u32len pk), u32len (ssh_string ?a @ ssh_string pk))"
    using view_at_pair [of ?a pk post] assms by (simp_all add: ed25519_blob_def)
  have sg: "view_at (ed25519_blob sig @ post', u32len (ed25519_blob sig)) 0 =
      Ok ((?a @ ssh_string sig @ post', u32len ?a), u32len (ssh_string ?a))"
    "view_at (ed25519_blob sig @ post', u32len (ed25519_blob sig)) (u32len (ssh_string ?a)) =
      Ok ((sig @ post', u32len sig), u32len (ssh_string ?a @ ssh_string sig))"
    using view_at_pair [of ?a sig post'] assms by (simp_all add: ed25519_blob_def)
  show ?thesis
    using nz assms lens
    by (simp add: netnox_ssh_verify_server_host_key_signature_def hk sg view_eq_def fetch_def verify_ed25519_host_key_def)
qed

section \<open>Properties\<close>

text \<open>C1: Agreement. Let client and server start in step with the same identification strings, and let
  each one's input be the other's output. If both key exchanges report success, they hold the same
  exchange hash and shared secret, both directions of the encrypted transport are in step (keys, MAC
  keys, counters, sequence numbers), and exactly the bytes of the exchange have been consumed.\<close>

theorem handshake_agreement:
  assumes "in_step_c2s C c s" and "in_step_s2c C s c" and "same_idents c s" and "dh_ok C"
    and cli: "netnox_ssh_exchange_kexinit C (netnox_ssh_wait_for_message C fuel) c = (Ok (), c')"
    and srv: "srv_key_exchange C s = (Ok (), s')"
    and up: "tx_of c' = tx_of c @ up" "rx_of s = up @ more_up"
    and down: "tx_of s' = tx_of s @ down" "rx_of c = down @ more_down"
  shows "session_id c' = session_id s' \<and> shared_secret_raw c' = shared_secret_raw s' \<and>
    in_step_c2s C c' s' \<and> in_step_s2c C s' c' \<and> key_exchange_complete c' \<and>
    rx_of s' = more_up \<and> rx_of c' = more_down"
proof -
  let ?up = "tx_of c' @ more_up" and ?down = "tx_of s' @ more_down"
  from srv obtain s1 where s1: "srv_exchange_kexinit C s = (Ok (), s1)" "srv_perform_curve25519_kex C s1 = (Ok (), s')"
    by (auto simp: srv_key_exchange_def res_iff)
  have links: "c2s_link C ?up c s" "s2c_link C ?down s c"
    using assms(1,2) up down by (simp_all add: c2s_link_def s2c_link_def)
  have pre: "prefix (tx_of c') ?up" "prefix (tx_of s1) ?down" "prefix (tx_of s') ?down"
    using prefix_tx [OF always_srv_perform s1(2)] by (auto intro: prefix_prefix)
  obtain c5 where c5: "netnox_ssh_perform_curve25519_kex C (netnox_ssh_wait_for_message C fuel) c5 = (Ok (), c')"
    "c2s_link C ?up c5 s1" "s2c_link C ?down s1 c5" "same_transcript c5 s1"
    using kexinit_phase [OF links assms(3) cli s1(1) pre(1,2)] by blast
  note d = dh_phase [OF c5(2,3,4) assms(4) c5(1) s1(2) pre(1,3)]
  moreover have "key_exchange_complete c'" using c5(1) by (rule perform_kex_Ok) simp
  ultimately show ?thesis by (simp add: c2s_link_def s2c_link_def)
qed

lemma sample_kex_in_step:
  "in_step_c2s toy_noxtls (feed1 sample_down kex_client) (feed1 sample_up kex_server)"
  "in_step_s2c toy_noxtls (feed1 sample_up kex_server) (feed1 sample_down kex_client)"
  "same_idents (feed1 sample_down kex_client) (feed1 sample_up kex_server)"
proof -
  have "srv_timely (feed1 sample_up kex_server)"
    by (auto simp: srv_timely_def feed1_def kex_server_def sample_server_eq sample_fields intro: exI [of _ 0])
  then show "in_step_c2s toy_noxtls (feed1 sample_down kex_client) (feed1 sample_up kex_server)"
    "in_step_s2c toy_noxtls (feed1 sample_up kex_server) (feed1 sample_down kex_client)"
    "same_idents (feed1 sample_down kex_client) (feed1 sample_up kex_server)"
    by (simp_all add: in_step_c2s_def in_step_s2c_def same_idents_def toy_sha_ok toy_ctr_ok)
      (simp_all add: feed1_def kex_client_def kex_server_def sample_client_eq sample_server_eq sample_fields
        sample_up_def sample_down_def wire_def)
qed

lemma sample_runs:
  obtains c' s' where
    "netnox_ssh_exchange_kexinit toy_noxtls (netnox_ssh_wait_for_message toy_noxtls 1) (feed1 sample_down kex_client) = (Ok (), c')"
    "srv_key_exchange toy_noxtls (feed1 sample_up kex_server) = (Ok (), s')"
    "tx_of c' = tx_of (feed1 sample_down kex_client) @ sample_up" "tx_of s' = tx_of (feed1 sample_up kex_server) @ sample_down"
proof -
  obtain c' where c': "netnox_ssh_exchange_kexinit toy_noxtls (direct_wait toy_noxtls) (feed1 sample_down kex_client) = (Ok (), c')"
    "tx_of c' = sample_up"
    using sample_client_run unfolding Let_def by (metis prod.collapse)
  obtain s' where s': "srv_key_exchange toy_noxtls (feed1 sample_up kex_server) = (Ok (), s')" "tx_of s' = sample_down"
    using sample_server_run unfolding Let_def by (metis prod.collapse)
  have "netnox_ssh_exchange_kexinit toy_noxtls (netnox_ssh_wait_for_message toy_noxtls 1) (feed1 sample_down kex_client) = (Ok (), c')"
    using extends_exchange [OF extends_direct_wait [of toy_noxtls _ _ _ 0]] c'(1) by (simp add: extends_def)
  moreover have "tx_of (feed1 sample_down kex_client) = []" "tx_of (feed1 sample_up kex_server) = []"
    by (simp_all add: tx_of_def feed1_def kex_client_def kex_server_def sample_client_eq sample_server_eq sample_fields)
  ultimately show ?thesis using that s' c'(2) by simp
qed

theorem handshake_agreement_witness:
  "\<exists>c' s'. srv_key_exchange toy_noxtls (feed1 sample_up kex_server) = (Ok (), s') \<and>
    session_id c' = session_id s' \<and> in_step_c2s toy_noxtls c' s' \<and> in_step_s2c toy_noxtls s' c'"
proof -
  obtain c' s' where r:
    "netnox_ssh_exchange_kexinit toy_noxtls (netnox_ssh_wait_for_message toy_noxtls 1) (feed1 sample_down kex_client) = (Ok (), c')"
    "srv_key_exchange toy_noxtls (feed1 sample_up kex_server) = (Ok (), s')"
    "tx_of c' = tx_of (feed1 sample_down kex_client) @ sample_up" "tx_of s' = tx_of (feed1 sample_up kex_server) @ sample_down"
    by (rule sample_runs)
  have rx: "rx_of (feed1 sample_up kex_server) = sample_up @ []" "rx_of (feed1 sample_down kex_client) = sample_down @ []"
    by (simp_all add: rx_of_def feed1_def)
  from handshake_agreement [OF sample_kex_in_step toy_dh_ok r(1,2,3) rx(1) r(4) rx(2)] r(2) show ?thesis by blast
qed

text \<open>C2: The client completes a key exchange only with a verified host key: when \<open>exchange_kexinit\<close> reports
  success, a signature that \<open>verify_server_host_key_signature\<close> accepted covers the exchange hash in
  \<open>session_id\<close>, which was computed from the client's own view of the exchange and the shared secret, and
  the key and fingerprint stored for the known-hosts check are those of that signature. This also holds
  when the server started further exchanges in between.\<close>

theorem kex_authenticates_server:
  assumes "netnox_ssh_exchange_kexinit C (netnox_ssh_wait_for_message C fuel) c = (Ok (), c')"
  shows "\<exists>hk sig pub_c pub_s. fetch (fst hk) (unat (snd hk)) = Ok (server_host_key_blob c') \<and>
    netnox_ssh_compute_exchange_hash C c' hk (pub_c, 32) pub_s (shared_secret_raw c') = Ok (session_id c') \<and>
    netnox_ssh_verify_server_host_key_signature C hk sig (session_id c') = Ok () \<and>
    netnox_ssh_sha256 C (server_host_key_blob c') = Ok (server_host_key_fingerprint c')"
  using assms ensures_exchange by (auto simp: ensures_def host_verified_def)

theorem kex_authenticates_server_witness:
  "\<exists>(c' :: netnox_ssh_client_t) hk sig. fetch (fst hk) (unat (snd hk)) = Ok (server_host_key_blob c') \<and>
    netnox_ssh_verify_server_host_key_signature toy_noxtls hk sig (session_id c') = Ok ()"
proof -
  obtain c' where
    "netnox_ssh_exchange_kexinit toy_noxtls (netnox_ssh_wait_for_message toy_noxtls 1) (feed1 sample_down kex_client) = (Ok (), c')"
    by (rule sample_runs)
  from kex_authenticates_server [OF this] show ?thesis by blast
qed

end
