(* ===== verification/Nox_Progress.thy ===== *)
theory Nox_Progress
  imports Nox_Agreement
begin

text \<open>
  Progress of the key exchange: two endpoints whose environment cooperates do complete their first exchange. Sending
  in the clear is described by what it writes; then the conversation is run forward, message by message, along the
  links of \<open>Nox_Frames\<close>.
\<close>

section \<open>Sending in the clear\<close>

text \<open>The packet up to its padding, and the number of bytes of padding.\<close>

definition head_of :: "bytes \<Rightarrow> bytes" where
  "head_of p = (case frame_packet p 8 of Ok (f, n) \<Rightarrow> f | _ \<Rightarrow> [])"

definition pad_len :: "bytes \<Rightarrow> nat" where
  "pad_len p = (case frame_packet p 8 of Ok (f, n) \<Rightarrow> unat n | _ \<Rightarrow> 0)"

lemma frame_clear:
  assumes "length p \<le> 34000"
  shows "frame_packet p 8 = Ok (head_of p, word_of_nat (pad_len p))" "pad_len p < 12"
proof -
  obtain n where n: "4 \<le> n" "n < 4 + unat (8 :: u32)" "frame_packet p 8 =
      (if 1 + length p + n \<le> 35000 then Ok (netnox_ssh_write_u32_be (word_of_nat (1 + length p + n)) @
         word_of_nat n # p, word_of_nat n) else Err NETNOX_RETURN_BAD_PARAM)"
    using frame_packet_cases [of p 8] assms by auto
  then show "frame_packet p 8 = Ok (head_of p, word_of_nat (pad_len p))" "pad_len p < 12"
    using assms by (simp_all add: head_of_def pad_len_def unat_of_nat)
qed

text \<open>What the loop of \<open>send\<close> leaves of the environment.\<close>

definition sending_left :: "world \<Rightarrow> world \<Rightarrow> bool" where
  "sending_left w w' \<longleftrightarrow> set (tx_accept w') \<subseteq> set (tx_accept w) \<and> rand_byte w' = rand_byte w \<and>
     rand_pos w' = rand_pos w \<and> getrandom w' = getrandom w"

interpretation sl: sending sending_left
  by unfold_locales (auto simp: sending_left_def pass_def srv_now_ms_def transport_send_def
      split: option.splits list.splits if_splits)

lemma send_loop_runs:
  assumes "open_guard g w" "0 \<notin> set (tx_accept w)"
  obtains w' where "send_loop g d w = (Ok (), w')" "tx w' = tx w @ d" "sending_left w w'"
proof -
  obtain w' where w': "send_loop g d w = (Ok (), w')"
    using send_loop_complete [OF assms] by (metis prod.collapse)
  then show ?thesis using that send_loop_Ok [OF w'] alwaysD [OF sl.send_loop_rel w'] by blast
qed

subsection \<open>The client\<close>

text \<open>Ready to send in the clear, with the random bytes \<open>R\<close> from \<open>pos\<close> on still unused.\<close>

definition cli_src :: "(nat \<Rightarrow> byte) \<Rightarrow> nat \<Rightarrow> netnox_ssh_client_t \<Rightarrow> bool" where
  "cli_src R pos c \<longleftrightarrow> send_cb c \<and> \<not> key_exchange_complete c \<and> 0 \<notin> set (tx_accept (io_user_data c)) \<and>
     rand_byte (io_user_data c) = R \<and> rand_pos (io_user_data c) = pos"

definition cli_frame :: "(nat \<Rightarrow> byte) \<Rightarrow> nat \<Rightarrow> bytes \<Rightarrow> bytes" where
  "cli_frame R pos p = head_of p @ map R [pos..<pos + pad_len p]"

lemma cli_src_recvs: "cli_src R pos c \<Longrightarrow> cli_recvs c c' \<Longrightarrow> cli_src R pos c'"
  by (erule cli_recvsE) (simp add: cli_src_def only_recvs_def)

lemma u32len_nonzero: "p \<noteq> [] \<Longrightarrow> length p \<le> 34000 \<Longrightarrow> u32len p \<noteq> 0"
  using unat_u32len [of p] by fastforce

lemma cli_send_clear:
  assumes "cli_src R pos c" "p \<noteq> []" "length p \<le> 34000"
  obtains c' where "netnox_ssh_send_packet C p c = (Ok (), c')" "tx_of c' = tx_of c @ cli_frame R pos p"
    "cli_src R (pos + pad_len p) c'" "cli_sends c c'"
proof -
  let ?w = "(io_user_data c)\<lparr>rand_pos := pos + pad_len p\<rparr>"
  let ?d = "cli_frame R pos p"
  note fr = frame_clear [OF assms(3)]
  have n: "unat (word_of_nat (pad_len p) :: u32) = pad_len p" using fr(2) by (simp add: unat_of_nat)
  obtain w' where w': "send_loop no_guard ?d ?w = (Ok (), w')" "tx w' = tx ?w @ ?d" "sending_left ?w w'"
    using send_loop_runs [of no_guard ?w ?d] assms(1) by (auto simp: cli_src_def)
  let ?c' = "c\<lparr>io_user_data := w', send_seq := send_seq c + 1\<rparr>"
  have run: "netnox_ssh_send_packet C p c = (Ok (), ?c')"
    using assms w'(1) fr(1) u32len_nonzero [OF assms(2,3)] n
    unfolding netnox_ssh_send_packet_def count_sent_def netnox_ssh_send_all_def Let_def
    by (simp add: bindM_def failM_def retM_def getM_def liftM_def ioM_def ifM_def setM_def cli_src_def
        packet_block_size_def netnox_ssh_fill_random_def cli_frame_def)
  show ?thesis
    by (rule that [OF run _ _ packet_frames(1) [OF run]])
      (use w' assms(1) in \<open>auto simp: cli_src_def tx_of_def sending_left_def\<close>)
qed

subsection \<open>The server\<close>

text \<open>Enough calls of \<open>getrandom\<close> that return a full block, apart from interrupted ones.\<close>

definition plenty :: "nat \<Rightarrow> getrandom_t list \<Rightarrow> bool" where
  "plenty n rs \<longleftrightarrow> GetrandomFails \<notin> set rs \<and> (\<forall>b. Got b \<in> set rs \<longrightarrow> 32 \<le> length b) \<and>
     n \<le> length (filter (\<lambda>r. r \<noteq> Eintr) rs)"

definition random_bytes :: "nat \<Rightarrow> getrandom_t list \<Rightarrow> bytes \<times> getrandom_t list" where
  "random_bytes n rs = (case getrandom_loop n [] rs of (Ok d, rs') \<Rightarrow> (d, rs') | (_, rs') \<Rightarrow> ([], rs'))"

lemma getrandom_done: "getrandom_loop 0 acc rs = (Ok acc, rs)"
  by (cases rs) simp_all

lemma getrandom_plenty:
  "plenty (Suc n) rs \<Longrightarrow> len \<le> 32 \<Longrightarrow> \<exists>d rs'. getrandom_loop len [] rs = (Ok d, rs') \<and> plenty n rs'"
proof (induction rs)
  case (Cons r rs)
  show ?case
  proof (cases r)
    case (Got b)
    then have "32 \<le> length b" "plenty n rs" using Cons.prems(1) by (auto simp: plenty_def)
    then have "len - length b = 0" "b \<noteq> []" using Cons.prems(2) by auto
    then show ?thesis using Got \<open>plenty n rs\<close> Cons.prems(1) by (cases "len = 0") (auto simp: getrandom_done plenty_def)
  next
    case Eintr
    then have "plenty (Suc n) rs" using Cons.prems(1) by (auto simp: plenty_def)
    then show ?thesis using Cons Eintr by (cases "len = 0") (auto simp: getrandom_done plenty_def)
  next
    case GetrandomFails
    then show ?thesis using Cons.prems(1) by (simp add: plenty_def)
  qed
qed (simp add: plenty_def)

lemma srv_random_runs:
  assumes "plenty (Suc n) (getrandom w)" "unat len \<le> 32"
  shows "srv_fill_random len w = (Ok (fst (random_bytes (unat len) (getrandom w))),
      w\<lparr>getrandom := snd (random_bytes (unat len) (getrandom w))\<rparr>)"
    "plenty n (snd (random_bytes (unat len) (getrandom w)))"
    "length (fst (random_bytes (unat len) (getrandom w))) = unat len"
proof -
  obtain d rs' where r: "getrandom_loop (unat len) [] (getrandom w) = (Ok d, rs')" "plenty n rs'"
    using getrandom_plenty [OF assms] by blast
  then show "srv_fill_random len w = (Ok (fst (random_bytes (unat len) (getrandom w))),
      w\<lparr>getrandom := snd (random_bytes (unat len) (getrandom w))\<rparr>)"
    "plenty n (snd (random_bytes (unat len) (getrandom w)))"
    "length (fst (random_bytes (unat len) (getrandom w))) = unat len"
    using getrandom_loop_Ok [OF r(1)] by (simp_all add: random_bytes_def srv_fill_random_def)
qed

definition srv_src :: "nat \<Rightarrow> getrandom_t list \<Rightarrow> netnox_ssh_server_t \<Rightarrow> bool" where
  "srv_src n rs s \<longleftrightarrow> send_cb s \<and> \<not> key_exchange_complete s \<and> 0 \<notin> set (tx_accept (io_user_data s)) \<and>
     getrandom (io_user_data s) = rs \<and> plenty n rs \<and> srv_timely s"

definition srv_frame :: "getrandom_t list \<Rightarrow> bytes \<Rightarrow> bytes" where
  "srv_frame rs p = head_of p @ fst (random_bytes (pad_len p) rs)"

lemma srv_src_recvs: "srv_src n rs s \<Longrightarrow> srv_recvs s s' \<Longrightarrow> srv_src n rs s'"
  by (erule srv_recvsE) (simp add: srv_src_def only_recvs_def srv_timely_def)

lemma srv_send_clear:
  assumes "srv_src (Suc n) rs s" "p \<noteq> []" "length p \<le> 34000"
  obtains s' where "srv_send_packet C p s = (Ok (), s')" "tx_of s' = tx_of s @ srv_frame rs p"
    "srv_src n (snd (random_bytes (pad_len p) rs)) s'" "srv_sends s s'"
proof -
  note fr = frame_clear [OF assms(3)]
  let ?now = "clock_ms (io_user_data s) (clock_pos (io_user_data s))"
  let ?v = "(io_user_data s)\<lparr>clock_pos := Suc (clock_pos (io_user_data s))\<rparr>"
  let ?n = "word_of_nat (pad_len p) :: u32" and ?w = "?v\<lparr>getrandom := snd (random_bytes (pad_len p) rs)\<rparr>"
  have n: "unat ?n = pad_len p" "pad_len p \<le> 32" using fr(2) by (simp_all add: unat_of_nat)
  have r: "srv_fill_random ?n ?v = (Ok (fst (random_bytes (pad_len p) rs)), ?w)" "plenty n (snd (random_bytes (pad_len p) rs))"
    using srv_random_runs [of n ?v ?n] assms(1) n by (simp_all add: srv_src_def)
  have "srv_timely (s\<lparr>send_deadline_ms := ?now + 10000, io_user_data := ?w\<rparr>)"
    using assms(1) by (simp add: srv_src_def srv_timely_def)
  then have "open_guard (srv_in_time (?now + 10000) (session_started s) (handshake_deadline_ms s)) ?w"
    using srv_timely_open [of "s\<lparr>send_deadline_ms := ?now + 10000, io_user_data := ?w\<rparr>"] by simp
  then obtain w' where w': "send_loop (srv_in_time (?now + 10000) (session_started s) (handshake_deadline_ms s)) (srv_frame rs p) ?w = (Ok (), w')"
    "tx w' = tx ?w @ srv_frame rs p" "sending_left ?w w'"
    using send_loop_runs [of _ ?w "srv_frame rs p"] assms(1) by (auto simp: srv_src_def)
  let ?s' = "s\<lparr>send_deadline_ms := ?now + 10000, io_user_data := w', send_seq := send_seq s + 1\<rparr>"
  have run: "srv_send_packet C p s = (Ok (), ?s')"
    using assms(1) w'(1) fr(1) u32len_nonzero [OF assms(2,3)] n r(1)
    unfolding srv_send_packet_def count_sent_def srv_send_all_def Let_def srv_nowM_def
    by (simp add: bindM_def failM_def retM_def getM_def liftM_def ioM_def ifM_def setM_def srv_src_def srv_now_ms_def
        packet_block_size_def srv_frame_def checkedM_def)
  have fr': "srv_sends s ?s'" by (rule packet_frames(3) [OF run])
  show ?thesis
    by (rule that [OF run _ _ fr'])
      (use w' assms(1) r(2) fr' in \<open>auto simp: srv_src_def tx_of_def sending_left_def srv_timely_def srv_sends_def only_sends_def\<close>)
qed

section \<open>Along the links\<close>

context packet_channel
begin

lemma receives_from_stream:
  assumes "in_step a b" and "stream = out a @ inp b" and "fits p" and "send p a = (Ok u, a')" and "prefix (out a') stream"
  shows "\<exists>b'. recv b = (Ok p, b') \<and> in_step a' b' \<and> stream = out a' @ inp b'"
proof -
  obtain d where d: "out a' = out a @ d" using send_extends [OF assms(4)] by (auto simp: prefix_def)
  obtain rest where r: "stream = out a' @ rest" using assms(5) by (auto simp: prefix_def)
  have "inp b = d @ rest" using assms(2) d r by simp
  from deliver [OF assms(1,3,4) d this] r show ?thesis by auto
qed

end

lemma c2s_receives:
  "c2s_link C stream c s \<Longrightarrow> netnox_ssh_send_packet C p c = (Ok u, c') \<Longrightarrow> fits m p \<Longrightarrow> prefix (tx_of c') stream \<Longrightarrow>
    \<exists>s'. srv_recv_packet C m s = (Ok p, s') \<and> c2s_link C stream c' s'"
  using c2s_channel.receives_from_stream [of C c s stream m p u c'] by (auto simp: c2s_link_def)

lemma s2c_receives:
  "s2c_link C stream s c \<Longrightarrow> srv_send_packet C p s = (Ok u, s') \<Longrightarrow> fits m p \<Longrightarrow> prefix (tx_of s') stream \<Longrightarrow>
    \<exists>c'. netnox_ssh_recv_packet C m c = (Ok p, c') \<and> s2c_link C stream s' c'"
  using s2c_channel.receives_from_stream [of C s c stream m p u s'] by (auto simp: s2c_link_def)

text \<open>One message in each direction, and the two NEWKEYS, which cross.\<close>

lemma c2s_message:
  assumes link: "c2s_link C up c s" "s2c_link C down s c" and src: "cli_src R pos c" and p: "p \<noteq> []" "length p \<le> 34000" "fits m p"
    and pre: "prefix (tx_of c @ cli_frame R pos p) up"
  obtains c' s' where "netnox_ssh_send_packet C p c = (Ok (), c')" "srv_recv_packet C m s = (Ok p, s')"
    "c2s_link C up c' s'" "s2c_link C down s' c'" "cli_src R (pos + pad_len p) c'" "tx_of c' = tx_of c @ cli_frame R pos p"
    "cli_sends c c'" "srv_recvs s s'"
proof -
  obtain c' where c': "netnox_ssh_send_packet C p c = (Ok (), c')" "tx_of c' = tx_of c @ cli_frame R pos p"
    "cli_src R (pos + pad_len p) c'" "cli_sends c c'"
    using src by (rule cli_send_clear [OF _ p(1,2)])
  with c2s_receives [OF link(1) c'(1) p(3)] pre obtain s' where s': "srv_recv_packet C m s = (Ok p, s')" "c2s_link C up c' s'"
    by auto
  have fr: "srv_recvs s s'" by (rule packet_frames(4) [OF s'(1)])
  show ?thesis by (rule that [OF c'(1) s' link_frames(4) [OF link_frames(3) [OF link(2) fr] c'(4)] c'(3,2,4) fr])
qed

lemma s2c_message:
  assumes link: "c2s_link C up c s" "s2c_link C down s c" and src: "srv_src (Suc n) rs s" and p: "p \<noteq> []" "length p \<le> 34000" "fits m p"
    and pre: "prefix (tx_of s @ srv_frame rs p) down"
  obtains c' s' where "srv_send_packet C p s = (Ok (), s')" "netnox_ssh_recv_packet C m c = (Ok p, c')"
    "c2s_link C up c' s'" "s2c_link C down s' c'" "srv_src n (snd (random_bytes (pad_len p) rs)) s'" "tx_of s' = tx_of s @ srv_frame rs p"
    "srv_sends s s'" "cli_recvs c c'"
proof -
  obtain s' where s': "srv_send_packet C p s = (Ok (), s')" "tx_of s' = tx_of s @ srv_frame rs p"
    "srv_src n (snd (random_bytes (pad_len p) rs)) s'" "srv_sends s s'"
    using src by (rule srv_send_clear [OF _ p(1,2)])
  with s2c_receives [OF link(2) s'(1) p(3)] pre obtain c' where c': "netnox_ssh_recv_packet C m c = (Ok p, c')" "s2c_link C down s' c'"
    by auto
  have fr: "cli_recvs c c'" by (rule packet_frames(2) [OF c'(1)])
  show ?thesis by (rule that [OF s'(1) c'(1) link_frames(1) [OF link_frames(2) [OF link(1) s'(4)] fr] c'(2) s'(3,2,4) fr])
qed

lemma newkeys_msg: "[21 :: byte] \<noteq> []" "length [21 :: byte] \<le> 34000" "fits 35000 [21]" "fits 64 [21]"
  by (simp_all add: fits_def)

lemma newkeys_cross:
  assumes link: "c2s_link C up c s" "s2c_link C down s c" and src: "cli_src R pos c" "srv_src (Suc n) rs s"
    and pre: "prefix (tx_of c @ cli_frame R pos [21]) up" "prefix (tx_of s @ srv_frame rs [21]) down"
  obtains c1 c2 s1 s2 where "netnox_ssh_send_packet C [21] c = (Ok (), c1)" "netnox_ssh_recv_packet C 35000 c1 = (Ok [21], c2)"
    "srv_send_packet C [21] s = (Ok (), s1)" "srv_recv_packet C 64 s1 = (Ok [21], s2)"
    "tx_of c2 = tx_of c @ cli_frame R pos [21]" "tx_of s2 = tx_of s @ srv_frame rs [21]"
    "cli_sends c c1" "cli_recvs c1 c2" "srv_sends s s1" "srv_recvs s1 s2"
proof -
  obtain c1 where c1: "netnox_ssh_send_packet C [21] c = (Ok (), c1)" "tx_of c1 = tx_of c @ cli_frame R pos [21]"
    "cli_src R (pos + pad_len [21]) c1" "cli_sends c c1"
    using src(1) by (rule cli_send_clear [OF _ newkeys_msg(1,2)])
  obtain s1 where s1: "srv_send_packet C [21] s = (Ok (), s1)" "tx_of s1 = tx_of s @ srv_frame rs [21]"
    "srv_src n (snd (random_bytes (pad_len [21]) rs)) s1" "srv_sends s s1"
    using src(2) by (rule srv_send_clear [OF _ newkeys_msg(1,2)])
  obtain c2 where c2: "netnox_ssh_recv_packet C 35000 c1 = (Ok [21], c2)"
    using s2c_receives [OF link_frames(4) [OF link(2) c1(4)] s1(1) newkeys_msg(3)] pre(2) s1(2) by auto
  obtain s2 where s2: "srv_recv_packet C 64 s1 = (Ok [21], s2)"
    using c2s_receives [OF link_frames(2) [OF link(1) s1(4)] c1(1) newkeys_msg(4)] pre(1) c1(2) by auto
  have fr: "cli_recvs c1 c2" "srv_recvs s1 s2" by (rule packet_frames(2) [OF c2], rule packet_frames(4) [OF s2])
  show ?thesis by (rule that [OF c1(1) c2 s1(1) s2 _ _ c1(4) fr(1) s1(4) fr(2)]) (simp_all add: stream_frames(1) [OF fr(1)] stream_frames(3) [OF fr(2)] c1(2) s1(2))
qed

section \<open>The exchange runs\<close>

text \<open>The KEXINIT messages and what is left of the sources of random bytes.\<close>

definition cli_kexinit :: "(nat \<Rightarrow> byte) \<Rightarrow> nat \<Rightarrow> bytes" where
  "cli_kexinit R pos = kexinit_msg (map R [pos..<pos + 16]) client_lists"

definition srv_kexinit :: "getrandom_t list \<Rightarrow> bytes" where
  "srv_kexinit rs = kexinit_msg (fst (random_bytes 16 rs)) server_lists"

lemma cli_kexinit_props: "cli_kexinit R pos \<noteq> []" "hd (cli_kexinit R pos) = 20" "length (cli_kexinit R pos) \<le> 512"
  "fits 35000 (cli_kexinit R pos)" "netnox_ssh_validate_client_kexinit (cli_kexinit R pos) = Ok ()"
  "length (cli_kexinit R pos) \<le> 34000"
  using length_kexinit_msg(1) [of "map R [pos..<pos + 16]"] client_kexinit_valid [of "map R [pos..<pos + 16]"]
  by (simp_all add: cli_kexinit_def fits_def) (simp_all add: kexinit_msg_def)

lemma srv_kexinit_props:
  assumes "length (fst (random_bytes 16 rs)) = 16"
  shows "srv_kexinit rs \<noteq> []" "hd (srv_kexinit rs) = 20" "length (srv_kexinit rs) \<le> 512"
  "fits 35000 (srv_kexinit rs)" "netnox_ssh_validate_server_kexinit (srv_kexinit rs) = Ok ()"
  "length (srv_kexinit rs) \<le> 34000"
  using length_kexinit_msg(2) [OF assms] server_kexinit_valid [OF assms]
  by (simp_all add: srv_kexinit_def fits_def) (simp_all add: kexinit_msg_def)

lemma u32len_small: "length p \<le> 512 \<Longrightarrow> \<not> u32len p > 32768"
  by (simp add: word_less_nat_alt unat_u32len)

lemma srv_build_kexinit_runs:
  assumes "plenty (Suc n) (getrandom (io_user_data s))"
  shows "srv_build_kexinit_payload 1024 s = (Ok (srv_kexinit (getrandom (io_user_data s))),
    s\<lparr>io_user_data := (io_user_data s)\<lparr>getrandom := snd (random_bytes 16 (getrandom (io_user_data s)))\<rparr>\<rparr>)"
proof -
  note r = srv_random_runs [OF assms, of 16, simplified]
  have "append_all 1024 (kexinit_fields server_lists) (20 # k) = Ok (kexinit_msg k server_lists)"
    if "length k = 16" for k using length_kexinit_msg(2) [OF that] by (intro kexinit_fields_run) simp_all
  then show ?thesis
    using r unfolding srv_build_kexinit_payload_def server_lists_def [symmetric]
    by (simp add: bindM_def failM_def retM_def ioM_def liftM_def checkedM_def srv_kexinit_def)
qed

lemma kexinit_runs:
  assumes up: "c2s_link C up c s" and down: "s2c_link C down s c" and ids: "same_idents c s"
    and src: "cli_src R pos c" "srv_src (Suc (Suc n)) rs s" and con: "connected c" "connected s"
    and pre: "prefix (tx_of c @ cli_frame R (pos + 16) (cli_kexinit R pos)) up"
      "prefix (tx_of s @ srv_frame (snd (random_bytes 16 rs)) (srv_kexinit rs)) down"
  obtains c5 s5 where "\<And>wait. netnox_ssh_exchange_kexinit C wait c = netnox_ssh_perform_curve25519_kex C wait c5"
    "srv_exchange_kexinit C s = (Ok (), s5)" "c2s_link C up c5 s5" "s2c_link C down s5 c5" "same_transcript c5 s5"
    "cli_src R (pos + 16 + pad_len (cli_kexinit R pos)) c5"
    "srv_src n (snd (random_bytes (pad_len (srv_kexinit rs)) (snd (random_bytes 16 rs)))) s5"
    "tx_of c5 = tx_of c @ cli_frame R (pos + 16) (cli_kexinit R pos)"
    "tx_of s5 = tx_of s @ srv_frame (snd (random_bytes 16 rs)) (srv_kexinit rs)"
    "kexinit_exchanged c5" "kexinit_exchanged s5" "keygen_pos (io_user_data c5) = keygen_pos (io_user_data c)"
    "host_key_ready s5 = host_key_ready s" "host_ed25519_sk s5 = host_ed25519_sk s" "host_ed25519_pk s5 = host_ed25519_pk s"
    "kex_hash_input s5 = kex_hash_input (s\<lparr>kexinit_client_payload := cli_kexinit R pos, kexinit_server_payload := srv_kexinit rs\<rparr>)"
proof -
  let ?k = "cli_kexinit R pos" and ?q = "srv_kexinit rs"
  let ?c2 = "c\<lparr>io_user_data := (io_user_data c)\<lparr>rand_pos := pos + 16\<rparr>, kexinit_client_payload := ?k\<rparr>"
  note k = cli_kexinit_props [of R pos]
  have c2: "netnox_ssh_build_kexinit_payload 1024 c = (Ok ?k, c\<lparr>io_user_data := (io_user_data c)\<lparr>rand_pos := pos + 16\<rparr>\<rparr>)"
    "cli_quiet c ?c2" "cli_src R (pos + 16) ?c2" "tx_of ?c2 = tx_of c"
    using src(1) by (simp_all add: build_kexinit_run netnox_ssh_fill_random_def cli_kexinit_def cli_src_def cli_quiet_def tx_of_def)
  obtain c3 s1 where m1: "netnox_ssh_send_packet C ?k ?c2 = (Ok (), c3)" "srv_recv_packet C 35000 s = (Ok ?k, s1)"
    "c2s_link C up c3 s1" "s2c_link C down s1 c3" "cli_src R (pos + 16 + pad_len ?k) c3"
    "tx_of c3 = tx_of ?c2 @ cli_frame R (pos + 16) ?k" "cli_sends ?c2 c3" "srv_recvs s s1"
    by (rule c2s_message [OF link_quiet(1) [OF up c2(2) quiet_refl(2)] link_quiet(2) [OF down c2(2) quiet_refl(2)] c2(3) k(1,6,4)])
      (use pre(1) c2(4) in simp)
  have src1: "srv_src (Suc (Suc n)) rs s1" by (rule srv_src_recvs [OF src(2) m1(8)])
  then have rs1: "getrandom (io_user_data s1) = rs" "plenty (Suc (Suc n)) rs" by (simp_all add: srv_src_def)
  note r = srv_random_runs [of "Suc n" "io_user_data s1" 16, unfolded rs1(1), simplified, OF rs1(2)]
  note q = srv_kexinit_props [OF r(3)]
  let ?s2 = "s1\<lparr>kexinit_client_payload := ?k, io_user_data := (io_user_data s1)\<lparr>getrandom := snd (random_bytes 16 rs)\<rparr>\<rparr>"
  let ?s3 = "?s2\<lparr>kexinit_server_payload := ?q\<rparr>"
  have s3: "srv_build_kexinit_payload 1024 (s1\<lparr>kexinit_client_payload := ?k\<rparr>) = (Ok ?q, ?s2)"
    "srv_quiet s1 ?s3" "srv_src (Suc n) (snd (random_bytes 16 rs)) ?s3" "tx_of ?s3 = tx_of s"
    using srv_build_kexinit_runs [of "Suc n" "s1\<lparr>kexinit_client_payload := ?k\<rparr>"] rs1 src1 r(2) stream_frames(3) [OF m1(8)]
    by (simp_all add: srv_quiet_def srv_src_def srv_timely_def tx_of_def)
  obtain c4 s4 where m2: "srv_send_packet C ?q ?s3 = (Ok (), s4)" "netnox_ssh_recv_packet C 35000 c3 = (Ok ?q, c4)"
    "c2s_link C up c4 s4" "s2c_link C down s4 c4" "srv_src n (snd (random_bytes (pad_len ?q) (snd (random_bytes 16 rs)))) s4"
    "tx_of s4 = tx_of ?s3 @ srv_frame (snd (random_bytes 16 rs)) ?q" "srv_sends ?s3 s4" "cli_recvs c3 c4"
    by (rule s2c_message [OF link_quiet(1) [OF m1(3) quiet_refl(1) s3(2)] link_quiet(2) [OF m1(4) quiet_refl(1) s3(2)] s3(3) q(1,6,4)])
      (use pre(2) s3(4) in simp)
  let ?c5 = "c4\<lparr>kexinit_server_payload := ?q, kexinit_exchanged := True\<rparr>" and ?s5 = "s4\<lparr>kexinit_exchanged := True\<rparr>"
  have q5: "cli_quiet c4 ?c5" "srv_quiet s4 ?s5" by (simp_all add: cli_quiet_def srv_quiet_def)
  have cli: "netnox_ssh_exchange_kexinit C wait c = netnox_ssh_perform_curve25519_kex C wait ?c5" for wait
    unfolding netnox_ssh_exchange_kexinit_def using con(1) c2(1) m1(1) m2(2) q(1,2,5) u32len_small [OF k(3)] u32len_small [OF q(3)]
    by (simp add: bindM_def ifM_def retM_def checkedM_def failM_def liftM_def setM_def)
  have srv: "srv_exchange_kexinit C s = (Ok (), ?s5)"
    unfolding srv_exchange_kexinit_def using con(2) m1(2) s3(1) m2(1) k(1,2,5) u32len_small [OF k(3)] u32len_small [OF q(3)]
    by (simp add: bindM_def ifM_def retM_def checkedM_def failM_def liftM_def setM_def)
  note fr = m1(7,8) m2(7,8)
  have tr: "same_transcript ?c5 ?s5"
    using ids fr k(3) q(3) by (elim cli_sendsE cli_recvsE srv_sendsE srv_recvsE)
      (simp add: same_transcript_def same_idents_def only_sends_def os_same_def only_recvs_def)
  have src5: "cli_src R (pos + 16 + pad_len ?k) ?c5" "srv_src n (snd (random_bytes (pad_len ?q) (snd (random_bytes 16 rs)))) ?s5"
    using cli_src_recvs [OF m1(5) fr(4)] m2(5) by (simp_all add: cli_src_def srv_src_def srv_timely_def)
  have same: "tx_of ?c5 = tx_of c3" "tx_of ?s5 = tx_of s4" "keygen_pos (io_user_data ?c5) = keygen_pos (io_user_data c)"
    "host_key_ready ?s5 = host_key_ready s" "host_ed25519_sk ?s5 = host_ed25519_sk s" "host_ed25519_pk ?s5 = host_ed25519_pk s"
    "kex_hash_input ?s5 = kex_hash_input (s\<lparr>kexinit_client_payload := ?k, kexinit_server_payload := ?q\<rparr>)"
    using fr by (elim cli_sendsE cli_recvsE srv_sendsE srv_recvsE,
        simp add: only_sends_def only_recvs_def tx_of_def kex_hash_input_def fun_eq_iff)+
  show ?thesis
    by (rule that [OF cli srv link_quiet(1) [OF m2(3) q5] link_quiet(2) [OF m2(4) q5] tr src5])
      (simp_all only: same m1(6) m2(6) c2(4) s3(4), simp_all)
qed

text \<open>The messages of the Diffie-Hellman exchange fit their buffers.\<close>

lemma build_init_runs:
  "length pub = 32 \<Longrightarrow> build 128 [netnox_ssh_payload_append_u8 30, netnox_ssh_payload_append_string pub 32] = Ok (ecdh_init pub)"
  using append_all_spec [of "[netnox_ssh_payload_append_u8 30, netnox_ssh_payload_append_string pub 32]" "[[30], ssh_string pub]" "[]" 128]
  by (simp add: appender_axioms appender_32 ecdh_init_def del: append_all.simps)

lemma blob_runs:
  "length d = 32 \<Longrightarrow> build 256 [append_bytes (ascii ''ssh-ed25519''), netnox_ssh_payload_append_string d 32] = Ok (ed25519_blob d)"
  "length d = 64 \<Longrightarrow> build 128 [append_bytes (ascii ''ssh-ed25519''), netnox_ssh_payload_append_string d 64] = Ok (ed25519_blob d)"
  using append_all_spec [of "[append_bytes (ascii ''ssh-ed25519''), netnox_ssh_payload_append_string d 32]" "[ssh_string (ascii ''ssh-ed25519''), ssh_string d]" "[]" 256]
    append_all_spec [of "[append_bytes (ascii ''ssh-ed25519''), netnox_ssh_payload_append_string d 64]" "[ssh_string (ascii ''ssh-ed25519''), ssh_string d]" "[]" 128]
  by (simp_all add: appender_axioms appender_32 appender_64 ed25519_blob_def del: append_all.simps)

lemma length_ed25519_blob: "length (ed25519_blob d) = 19 + length d"
  by (simp add: ed25519_blob_def)

lemma ed25519_blob_nonempty [simp]: "ed25519_blob d \<noteq> []"
  using length_ed25519_blob [of d] by auto

lemma build_reply_runs:
  assumes "length pub = 32" "length pk = 32" "length sig = 64"
  shows "build 2048 [netnox_ssh_payload_append_u8 31, append_bytes (ed25519_blob pk),
    netnox_ssh_payload_append_string pub 32, append_bytes (ed25519_blob sig)] = Ok (ecdh_reply (ed25519_blob pk) pub (ed25519_blob sig))"
  using append_all_spec [of "[netnox_ssh_payload_append_u8 31, append_bytes (ed25519_blob pk), netnox_ssh_payload_append_string pub 32, append_bytes (ed25519_blob sig)]"
      "[[31], ssh_string (ed25519_blob pk), ssh_string pub, ssh_string (ed25519_blob sig)]" "[]" 2048] assms
  by (simp add: appender_axioms appender_32 ecdh_reply_def length_ed25519_blob del: append_all.simps)

lemma length_ecdh_reply: "length pub = 32 \<Longrightarrow> length pk = 32 \<Longrightarrow> length sig = 64 \<Longrightarrow>
    length (ecdh_reply (ed25519_blob pk) pub (ed25519_blob sig)) = 179"
  by (simp add: ecdh_reply_def length_ed25519_blob)

lemma wait_runs:
  assumes "netnox_ssh_recv_packet C 35000 c = (Ok p, c')" "p \<noteq> []" "hd p \<noteq> 20" "hd p = a" "\<not> u32len p > m"
  shows "netnox_ssh_wait_for_message C (Suc fuel) a b m c = (Ok p, c')"
proof -
  have "(32 :: nat) = Suc 31" by simp
  then show ?thesis
    using assms by (simp only: netnox_ssh_wait_for_message.simps wait_loop.simps) (simp add: bindM_def checkedM_def retM_def)
qed

text \<open>The exchange hash of the transcript.\<close>

lemma exchange_hash_runs:
  assumes "sha_ok C" "same_transcript c s" "length pk = 32" "length pub_c = 32" "length pub_s = 32" "length k = 32"
  shows "srv_compute_exchange_hash C s (ed25519_blob pk, u32len (ed25519_blob pk)) (pub_c, 32) (pub_s, 32) k =
      Ok (digest C (kex_hash_input s (ed25519_blob pk) pub_c pub_s k))"
    "netnox_ssh_compute_exchange_hash C c (ed25519_blob pk @ x, u32len (ed25519_blob pk)) (pub_c, 32) (pub_s @ y, 32) k =
      Ok (digest C (kex_hash_input s (ed25519_blob pk) pub_c pub_s k))"
proof -
  have "length (kex_hash_input s (ed25519_blob pk) pub_c pub_s k) \<le> 4096"
    using assms length_ssh_mpint [of k] by (simp add: kex_hash_input_def same_transcript_def same_idents_def length_ed25519_blob)
  then show run: "srv_compute_exchange_hash C s (ed25519_blob pk, u32len (ed25519_blob pk)) (pub_c, 32) (pub_s, 32) k =
      Ok (digest C (kex_hash_input s (ed25519_blob pk) pub_c pub_s k))"
    using compute_exchange_hash_eq [OF assms(1,4,5,6), of s "ed25519_blob pk" "[]" "[]" "[]"]
    by (simp add: srv_compute_exchange_hash_def)
  have "length (ed25519_blob pk) \<le> 256" using assms(3) by (simp add: length_ed25519_blob)
  from same_exchange_hash [OF assms(1,2) this assms(4-6)] run
  show "netnox_ssh_compute_exchange_hash C c (ed25519_blob pk @ x, u32len (ed25519_blob pk)) (pub_c, 32) (pub_s @ y, 32) k =
      Ok (digest C (kex_hash_input s (ed25519_blob pk) pub_c pub_s k))" by simp
qed

text \<open>The crypto library returns what the protocol needs of it.\<close>

definition crypto_works :: "noxtls \<Rightarrow> bool" where
  "crypto_works C \<longleftrightarrow> (\<forall>n. noxtls_x25519_generate_key C n \<noteq> None) \<and>
     (\<forall>seed. noxtls_x25519_public_key C (noxtls_x25519_clamp_scalar C seed) \<noteq> None) \<and>
     (\<forall>n a A seed B. noxtls_x25519_generate_key C n = Some (a, A) \<longrightarrow>
        noxtls_x25519_public_key C (noxtls_x25519_clamp_scalar C seed) = Some B \<longrightarrow> noxtls_x25519_shared_secret C a B \<noteq> None) \<and>
     (\<forall>sk pk m. noxtls_ed25519_public_key C sk = Some pk \<longrightarrow> (\<exists>sig. noxtls_ed25519_sign C sk m = Some sig \<and> length sig = 64))"

lemma crypto_worksD:
  assumes "crypto_works C"
  shows "\<exists>a A. noxtls_x25519_generate_key C n = Some (a, A)"
    "\<exists>B. noxtls_x25519_public_key C (noxtls_x25519_clamp_scalar C seed) = Some B"
    "noxtls_x25519_generate_key C n = Some (a, A) \<Longrightarrow> noxtls_x25519_public_key C (noxtls_x25519_clamp_scalar C seed) = Some B \<Longrightarrow>
      \<exists>k. noxtls_x25519_shared_secret C a B = Some k"
    "noxtls_ed25519_public_key C sk = Some pk \<Longrightarrow> \<exists>sig. noxtls_ed25519_sign C sk m = Some sig \<and> length sig = 64"
  using assms unfolding crypto_works_def
  by (metis not_None_eq prod.exhaust, metis not_None_eq, metis not_None_eq, blast)

lemma accept_runs:
  assumes C: "sha_ok C" "sign_ok C" and tr: "same_transcript c s" and lens: "length pk = 32" "length pub_c = 32" "length pub_s = 32" "length k = 32"
    and k: "noxtls_x25519_shared_secret C priv pub_s = Some k"
    and h: "h = digest C (kex_hash_input s (ed25519_blob pk) pub_c pub_s k)"
    and key: "noxtls_ed25519_public_key C sk = Some pk" "noxtls_ed25519_sign C sk h = Some sig" "length sig = 64"
  shows "accept_ecdh_reply C priv pub_c (ecdh_reply (ed25519_blob pk) pub_s (ed25519_blob sig)) c = (Ok (),
    c\<lparr>server_host_key_blob := ed25519_blob pk, server_host_key_fingerprint := digest C (ed25519_blob pk), server_host_key_ready := True,
      session_id := h, session_id_len := 32, shared_secret_raw := k\<rparr>)"
proof -
  let ?b = "ed25519_blob pk" and ?g = "ed25519_blob sig"
  have "parse_ecdh_reply (ecdh_reply ?b pub_s ?g) =
      Ok ((?b @ ssh_string pub_s @ ssh_string ?g, u32len ?b), (pub_s @ ssh_string ?g, 32), (?g, u32len ?g))"
    using lens key(3) by (intro parse_ecdh_reply_eq) (simp_all add: length_ecdh_reply)
  moreover have "fetch (?b @ ssh_string pub_s @ ssh_string ?g) (unat (u32len ?b)) = Ok ?b"
    "fetch (pub_s @ ssh_string ?g) 32 = Ok pub_s"
    using lens by (simp_all add: fetch_def unat_u32len length_ed25519_blob)
  moreover have "netnox_ssh_sha256 C ?b = Ok (digest C ?b)" "h \<noteq> []"
    using h sha_ok_digest [OF C(1)] by (simp_all add: netnox_ssh_sha256_def) (metis list.size(3) zero_neq_numeral)
  moreover have "netnox_ssh_verify_server_host_key_signature C (?b @ ssh_string pub_s @ ssh_string ?g, u32len ?b) (?g, u32len ?g) h = Ok ()"
    using verify_ed25519_blobs [of pk sig h "ssh_string pub_s @ ssh_string ?g" "[]" C] lens key C(2) \<open>h \<noteq> []\<close>
    by (auto simp: sign_ok_def length_ed25519_blob)
  ultimately show ?thesis
    using k exchange_hash_runs(2) [OF C(1) tr lens] h
    unfolding accept_ecdh_reply_def
    by (simp add: bindM_def liftM_def setM_def checkedM_def exchange_hash_frame)
qed

text \<open>The server's part up to its two messages, for a known public value of the client.\<close>

lemma srv_perform_runs:
  assumes C: "sha_ok C" and tr: "same_transcript c s1" and ready: "kexinit_exchanged s" "host_key_ready s"
    and recv: "srv_recv_packet C 2048 s = (Ok (ecdh_init pub_c), s1)"
    and rnd: "srv_fill_random 32 (io_user_data s1) = (Ok seed, w)" "env_key_deriv_mpint w = env_key_deriv_mpint (io_user_data s1)"
    and pub: "noxtls_x25519_public_key C (noxtls_x25519_clamp_scalar C seed) = Some pub_s"
    and k: "noxtls_x25519_shared_secret C (noxtls_x25519_clamp_scalar C seed) pub_c = Some k"
    and lens: "length (host_ed25519_pk s1) = 32" "length pub_c = 32" "length pub_s = 32" "length k = 32"
    and h: "h = digest C (kex_hash_input s1 (ed25519_blob (host_ed25519_pk s1)) pub_c pub_s k)"
    and sig: "noxtls_ed25519_sign C (host_ed25519_sk s1) h = Some sig" "length sig = 64"
    and send: "srv_send_packet C (ecdh_reply (ed25519_blob (host_ed25519_pk s1)) pub_s (ed25519_blob sig))
        (s1\<lparr>io_user_data := w, session_id := h, session_id_len := 32, shared_secret_raw := k\<rparr>) = (Ok (), s2)"
      "srv_send_packet C [21] s2 = (Ok (), s3)"
    and nk: "srv_recv_packet C 64 s3 = (Ok [21], s4)" and keys: "srv_derive_transport_keys C s4 = (Ok (), s5)"
  shows "srv_perform_curve25519_kex C s = (Ok (), s5\<lparr>key_exchange_complete := True\<rparr>)"
proof -
  have tr': "same_transcript c (s1\<lparr>io_user_data := w\<rparr>)"
    using tr rnd(2) by (simp add: same_transcript_def same_idents_def)
  have "kex_hash_input (s1\<lparr>io_user_data := w\<rparr>) = kex_hash_input s1" by (simp add: kex_hash_input_def fun_eq_iff)
  with exchange_hash_runs(1) [OF C tr' lens] h
  have hash: "srv_compute_exchange_hash C (s1\<lparr>io_user_data := w\<rparr>) (ed25519_blob (host_ed25519_pk s1),
      u32len (ed25519_blob (host_ed25519_pk s1))) (pub_c, 32) (pub_s, 32) k = Ok h" by simp
  show ?thesis
    using assms hash blob_runs(1) [OF lens(1)] blob_runs(2) [OF sig(2)] build_reply_runs [OF lens(3,1) sig(2)] parse_ecdh_init_eq [OF lens(2)]
    unfolding srv_perform_curve25519_kex_def Let_def srv_build_host_key_blob_def
    by (simp add: bindM_def ifM_def retM_def checkedM_def liftM_def ioM_def setM_def failM_def fetch_def del: append_all.simps)
qed

lemma cli_perform_runs:
  assumes ready: "kexinit_exchanged c"
    and gen: "noxtls_x25519_generate_key C (keygen_pos (io_user_data c)) = Some (priv, pub_c)" "length pub_c = 32"
    and send: "netnox_ssh_send_packet C (ecdh_init pub_c)
        (c\<lparr>io_user_data := (io_user_data c)\<lparr>keygen_pos := Suc (keygen_pos (io_user_data c))\<rparr>\<rparr>) = (Ok (), c1)"
    and reply: "wait 31 0xFF 2048 c1 = (Ok reply, c2)" "accept_ecdh_reply C priv pub_c reply c2 = (Ok (), c3)"
    and nk: "netnox_ssh_send_packet C [21] c3 = (Ok (), c4)" "wait 21 0xFF 2048 c4 = (Ok [21], c5)"
    and keys: "netnox_ssh_derive_transport_keys C c5 = (Ok (), c6)"
  shows "netnox_ssh_perform_curve25519_kex C wait c = (Ok (), c6\<lparr>key_exchange_complete := True\<rparr>)"
  using assms build_init_runs [OF gen(2)]
  unfolding netnox_ssh_perform_curve25519_kex_def
  by (simp add: bindM_def ifM_def retM_def checkedM_def liftM_def setM_def failM_def keygenM_def ioM_def del: append_all.simps)

lemma keys_run:
  assumes "sha_ok C" "length (shared_secret_raw c) = 32" "length (session_id c) = 32" "session_id_len c = 32"
  obtains c' where "netnox_ssh_derive_transport_keys C c = (Ok (), c')" "tx_of c' = tx_of c"
  using derive_transport_keys_eq [OF assms(1), of c] assms that by (simp add: transport_keys_def tx_of_def)

text \<open>The server's reply, and the change to the new keys.\<close>

lemma dh_reply_runs:
  assumes link: "c2s_link C up c s" "s2c_link C down s c" and src: "srv_src (Suc (Suc (Suc n))) rs s"
    and rnd: "random_bytes 32 rs = (seed, rs1)" and lens: "length pub_s = 32" "length pk = 32" "length sig = 64"
    and reply: "reply = ecdh_reply (ed25519_blob pk) pub_s (ed25519_blob sig)"
    and pre: "prefix (tx_of s @ srv_frame rs1 reply) down"
  obtains w c' s' where "srv_fill_random 32 (io_user_data s) = (Ok seed, w)" "env_key_deriv_mpint w = env_key_deriv_mpint (io_user_data s)"
    "srv_send_packet C reply (s\<lparr>io_user_data := w, session_id := h, session_id_len := 32, shared_secret_raw := k\<rparr>) = (Ok (), s')"
    "netnox_ssh_wait_for_message C (Suc fuel) 31 0xFF 2048 c = (Ok reply, c')" "c2s_link C up c' s'" "s2c_link C down s' c'"
    "srv_src (Suc n) (snd (random_bytes (pad_len reply) rs1)) s'" "tx_of s' = tx_of s @ srv_frame rs1 reply"
    "srv_sends (s\<lparr>io_user_data := w, session_id := h, session_id_len := 32, shared_secret_raw := k\<rparr>) s'" "cli_recvs c c'"
proof -
  let ?w = "(io_user_data s)\<lparr>getrandom := rs1\<rparr>"
  let ?s = "s\<lparr>io_user_data := ?w, session_id := h, session_id_len := 32, shared_secret_raw := k\<rparr>"
  have "plenty (Suc (Suc (Suc n))) rs" "getrandom (io_user_data s) = rs" using src by (simp_all add: srv_src_def)
  with srv_random_runs [of "Suc (Suc n)" "io_user_data s" 32] rnd
  have r: "srv_fill_random 32 (io_user_data s) = (Ok seed, ?w)" "plenty (Suc (Suc n)) rs1" by simp_all
  have rl: "reply \<noteq> []" "length reply \<le> 34000" "fits 35000 reply" "hd reply = 31" "\<not> u32len reply > 2048"
    using length_ecdh_reply [OF lens] reply
    by (simp_all add: fits_def u32len_def) (simp_all add: ecdh_reply_def)
  have s: "srv_src (Suc (Suc n)) rs1 ?s" "srv_quiet s ?s" "tx_of ?s = tx_of s"
    using src r(2) by (simp_all add: srv_src_def srv_timely_def srv_quiet_def tx_of_def)
  obtain c' s' where m: "srv_send_packet C reply ?s = (Ok (), s')" "netnox_ssh_recv_packet C 35000 c = (Ok reply, c')"
    "c2s_link C up c' s'" "s2c_link C down s' c'" "srv_src (Suc n) (snd (random_bytes (pad_len reply) rs1)) s'"
    "tx_of s' = tx_of ?s @ srv_frame rs1 reply" "srv_sends ?s s'" "cli_recvs c c'"
    by (rule s2c_message [OF link_quiet(1) [OF link(1) quiet_refl(1) s(2)] link_quiet(2) [OF link(2) quiet_refl(1) s(2)] s(1) rl(1-3)])
      (use pre s(3) in simp)
  have w: "netnox_ssh_wait_for_message C (Suc fuel) 31 0xFF 2048 c = (Ok reply, c')"
    by (rule wait_runs [OF m(2) rl(1) _ rl(4,5)]) (simp add: rl(4))
  show ?thesis by (rule that [OF r(1) _ m(1) w m(3-5) _ m(7,8)]) (simp_all add: m(6) s(3))
qed

lemma newkeys_runs:
  assumes link: "c2s_link C up c s" "s2c_link C down s c" and src: "cli_src R pos c" "srv_src (Suc n) rs s"
    and cli: "length (shared_secret_raw c) = 32" "length (session_id c) = 32" "session_id_len c = 32"
    and srv: "length (shared_secret_raw s) = 32" "length (session_id s) = 32" "session_id_len s = 32"
    and pre: "prefix (tx_of c @ cli_frame R pos [21]) up" "prefix (tx_of s @ srv_frame rs [21]) down"
  obtains c1 c2 c3 s1 s2 s3 where "netnox_ssh_send_packet C [21] c = (Ok (), c1)"
    "netnox_ssh_wait_for_message C (Suc fuel) 21 0xFF 2048 c1 = (Ok [21], c2)" "netnox_ssh_derive_transport_keys C c2 = (Ok (), c3)"
    "srv_send_packet C [21] s = (Ok (), s1)" "srv_recv_packet C 64 s1 = (Ok [21], s2)" "srv_derive_transport_keys C s2 = (Ok (), s3)"
    "tx_of c3 = tx_of c @ cli_frame R pos [21]" "tx_of s3 = tx_of s @ srv_frame rs [21]"
proof -
  have sha: "sha_ok C" using link(1) by (simp add: c2s_link_def in_step_c2s_def)
  obtain c1 c2 s1 s2 where m: "netnox_ssh_send_packet C [21] c = (Ok (), c1)" "netnox_ssh_recv_packet C 35000 c1 = (Ok [21], c2)"
    "srv_send_packet C [21] s = (Ok (), s1)" "srv_recv_packet C 64 s1 = (Ok [21], s2)"
    "tx_of c2 = tx_of c @ cli_frame R pos [21]" "tx_of s2 = tx_of s @ srv_frame rs [21]"
    "cli_sends c c1" "cli_recvs c1 c2" "srv_sends s s1" "srv_recvs s1 s2"
    by (rule newkeys_cross [OF link src pre])
  obtain c3 where c3: "netnox_ssh_derive_transport_keys C c2 = (Ok (), c3)" "tx_of c3 = tx_of c2"
    by (rule keys_run [OF sha, of c2]) (use m(7,8) cli in \<open>auto elim!: cli_sendsE cli_recvsE\<close>)
  obtain s3 where s3: "srv_derive_transport_keys C s2 = (Ok (), s3)" "tx_of s3 = tx_of s2"
    unfolding srv_derive_transport_keys_def
    by (rule keys_run [OF sha, of s2]) (use m(9,10) srv in \<open>auto elim!: srv_sendsE srv_recvsE\<close>)
  have w: "netnox_ssh_wait_for_message C (Suc fuel) 21 0xFF 2048 c1 = (Ok [21], c2)"
    by (rule wait_runs [OF m(2)]) (simp_all add: u32len_def)
  show ?thesis by (rule that [OF m(1) w c3(1) m(3,4) s3(1)]) (simp_all add: c3(2) s3(2) m(5,6))
qed

lemma dh_runs:
  assumes up: "c2s_link C up c s" and down: "s2c_link C down s c" and tr: "same_transcript c s"
    and C: "dh_ok C" "sign_ok C" and src: "cli_src R pos c" "srv_src (Suc (Suc (Suc n))) rs s"
    and ready: "kexinit_exchanged c" "kexinit_exchanged s" "host_key_ready s"
    and key: "noxtls_ed25519_public_key C (host_ed25519_sk s) = Some pk" "pk = host_ed25519_pk s" "length pk = 32"
    and gen: "noxtls_x25519_generate_key C (keygen_pos (io_user_data c)) = Some (priv, pub_c)"
    and rnd: "random_bytes 32 rs = (seed, rs1)"
    and pub: "noxtls_x25519_public_key C (noxtls_x25519_clamp_scalar C seed) = Some pub_s"
    and k: "noxtls_x25519_shared_secret C priv pub_s = Some k"
    and h: "h = digest C (kex_hash_input s (ed25519_blob pk) pub_c pub_s k)"
    and sig: "noxtls_ed25519_sign C (host_ed25519_sk s) h = Some sig" "length sig = 64"
    and reply: "reply = ecdh_reply (ed25519_blob pk) pub_s (ed25519_blob sig)"
    and pre: "prefix (tx_of c @ cli_frame R pos (ecdh_init pub_c) @ cli_frame R (pos + pad_len (ecdh_init pub_c)) [21]) up"
      "prefix (tx_of s @ srv_frame rs1 reply @ srv_frame (snd (random_bytes (pad_len reply) rs1)) [21]) down"
  shows "\<exists>c' s'. netnox_ssh_perform_curve25519_kex C (netnox_ssh_wait_for_message C (Suc fuel)) c = (Ok (), c') \<and>
    srv_perform_curve25519_kex C s = (Ok (), s') \<and>
    tx_of c' = tx_of c @ cli_frame R pos (ecdh_init pub_c) @ cli_frame R (pos + pad_len (ecdh_init pub_c)) [21] \<and>
    tx_of s' = tx_of s @ srv_frame rs1 reply @ srv_frame (snd (random_bytes (pad_len reply) rs1)) [21]"
proof -
  have sha: "sha_ok C" using up by (simp add: c2s_link_def in_step_c2s_def)
  note dv = dh_values [OF C(1) gen pub]
  have lk: "length k = 32" "noxtls_x25519_shared_secret C (noxtls_x25519_clamp_scalar C seed) pub_c = Some k"
    using dv(3,4) k by simp_all
  \<comment> \<open>the client's public value\<close>
  let ?c = "c\<lparr>io_user_data := (io_user_data c)\<lparr>keygen_pos := Suc (keygen_pos (io_user_data c))\<rparr>\<rparr>"
  have init: "ecdh_init pub_c \<noteq> []" "length (ecdh_init pub_c) \<le> 34000" "fits 2048 (ecdh_init pub_c)"
    using dv(1) by (simp_all add: ecdh_init_def fits_def)
  have c0: "cli_src R pos ?c" "cli_quiet c ?c" "tx_of ?c = tx_of c" using src(1) by (simp_all add: cli_src_def cli_quiet_def tx_of_def)
  obtain c1 s1 where m1: "netnox_ssh_send_packet C (ecdh_init pub_c) ?c = (Ok (), c1)" "srv_recv_packet C 2048 s = (Ok (ecdh_init pub_c), s1)"
    "c2s_link C up c1 s1" "s2c_link C down s1 c1" "cli_src R (pos + pad_len (ecdh_init pub_c)) c1"
    "tx_of c1 = tx_of ?c @ cli_frame R pos (ecdh_init pub_c)" "cli_sends ?c c1" "srv_recvs s s1"
    by (rule c2s_message [OF link_quiet(1) [OF up c0(2) quiet_refl(2)] link_quiet(2) [OF down c0(2) quiet_refl(2)] c0(1) init])
      (use pre(1) c0(3) in \<open>auto simp: prefix_def\<close>)
  have host: "host_ed25519_pk s1 = pk" "host_ed25519_sk s1 = host_ed25519_sk s" "kex_hash_input s1 = kex_hash_input s"
    using m1(8) key(2) by (auto elim!: srv_recvsE simp: kex_hash_input_def fun_eq_iff)
  have src1: "srv_src (Suc (Suc (Suc n))) rs s1" by (rule srv_src_recvs [OF src(2) m1(8)])
  have s1: "tx_of s1 = tx_of s" by (rule stream_frames(3) [OF m1(8)])
  have pre1: "prefix (tx_of s1 @ srv_frame rs1 reply) down" using pre(2) s1 by (auto simp: prefix_def)
  obtain w c2 s2 where m2: "srv_fill_random 32 (io_user_data s1) = (Ok seed, w)" "env_key_deriv_mpint w = env_key_deriv_mpint (io_user_data s1)"
    "srv_send_packet C reply (s1\<lparr>io_user_data := w, session_id := h, session_id_len := 32, shared_secret_raw := k\<rparr>) = (Ok (), s2)"
    "netnox_ssh_wait_for_message C (Suc fuel) 31 0xFF 2048 c1 = (Ok reply, c2)" "c2s_link C up c2 s2" "s2c_link C down s2 c2"
    "srv_src (Suc n) (snd (random_bytes (pad_len reply) rs1)) s2" "tx_of s2 = tx_of s1 @ srv_frame rs1 reply"
    "srv_sends (s1\<lparr>io_user_data := w, session_id := h, session_id_len := 32, shared_secret_raw := k\<rparr>) s2" "cli_recvs c1 c2"
    by (rule dh_reply_runs [OF m1(3,4) src1 rnd dv(2) key(3) sig(2) reply pre1])
  have tr': "same_transcript c2 s" "same_transcript c s1"
    using tr m1(7,8) m2(10) by (elim cli_sendsE cli_recvsE srv_recvsE,
        simp add: same_transcript_def same_idents_def only_sends_def only_recvs_def)+
  let ?c3 = "c2\<lparr>server_host_key_blob := ed25519_blob pk, server_host_key_fingerprint := digest C (ed25519_blob pk),
      server_host_key_ready := True, session_id := h, session_id_len := 32, shared_secret_raw := k\<rparr>"
  have c3: "accept_ecdh_reply C priv pub_c reply c2 = (Ok (), ?c3)"
    using accept_runs [OF sha C(2) tr'(1) key(3) dv(1,2) lk(1) k h key(1) sig] reply by simp
  have c3': "cli_quiet c2 ?c3" "cli_src R (pos + pad_len (ecdh_init pub_c)) ?c3" "tx_of ?c3 = tx_of c1"
    using cli_src_recvs [OF m1(5) m2(10)] stream_frames(1) [OF m2(10)] by (simp_all add: cli_src_def cli_quiet_def tx_of_def)
  have p: "prefix (tx_of ?c3 @ cli_frame R (pos + pad_len (ecdh_init pub_c)) [21]) up"
    "prefix (tx_of s2 @ srv_frame (snd (random_bytes (pad_len reply) rs1)) [21]) down"
    using pre c3'(3) m1(6) c0(3) m2(8) s1 by simp_all
  have lh: "length h = 32" using h sha_ok_digest(2) [OF sha] by simp
  have sz: "length (shared_secret_raw ?c3) = 32" "length (session_id ?c3) = 32" "session_id_len ?c3 = 32"
    "length (shared_secret_raw s2) = 32" "length (session_id s2) = 32" "session_id_len s2 = 32"
    using m2(9) lk(1) lh by (auto elim!: srv_sendsE)
  obtain c4 c5 c6 s3 s4 s5 where m3: "netnox_ssh_send_packet C [21] ?c3 = (Ok (), c4)"
    "netnox_ssh_wait_for_message C (Suc fuel) 21 0xFF 2048 c4 = (Ok [21], c5)" "netnox_ssh_derive_transport_keys C c5 = (Ok (), c6)"
    "srv_send_packet C [21] s2 = (Ok (), s3)" "srv_recv_packet C 64 s3 = (Ok [21], s4)" "srv_derive_transport_keys C s4 = (Ok (), s5)"
    "tx_of c6 = tx_of ?c3 @ cli_frame R (pos + pad_len (ecdh_init pub_c)) [21]"
    "tx_of s5 = tx_of s2 @ srv_frame (snd (random_bytes (pad_len reply) rs1)) [21]"
    by (rule newkeys_runs [where fuel = fuel, OF link_quiet(1) [OF m2(5) c3'(1) quiet_refl(2)] link_quiet(2) [OF m2(6) c3'(1) quiet_refl(2)] c3'(2) m2(7)
          sz p])
  have "netnox_ssh_perform_curve25519_kex C (netnox_ssh_wait_for_message C (Suc fuel)) c = (Ok (), c6\<lparr>key_exchange_complete := True\<rparr>)"
    by (rule cli_perform_runs [where wait = "netnox_ssh_wait_for_message C (Suc fuel)", OF ready(1) gen dv(1) m1(1) m2(4) c3 m3(1-3)])
  moreover have "srv_perform_curve25519_kex C s = (Ok (), s5\<lparr>key_exchange_complete := True\<rparr>)"
    by (rule srv_perform_runs [OF sha tr'(2) ready(2,3) m1(2) m2(1,2) pub lk(2)])
      (use host key(3) dv lk h sig m2(3) m3(4-6) reply in simp_all)
  ultimately show ?thesis using m3(7,8) c3'(3) m1(6) c0(3) m2(8) s1 by (simp add: tx_of_def)
qed

section \<open>Properties\<close>

text \<open>The same endpoint with other input, in chunks.\<close>

definition fed :: "bytes list \<Rightarrow> 'z ssh_context_scheme \<Rightarrow> 'z ssh_context_scheme" where
  "fed chunks c = c\<lparr>io_user_data := (io_user_data c)\<lparr>rx := chunks\<rparr>\<rparr>"

definition can_send :: "'z ssh_context_scheme \<Rightarrow> bool" where
  "can_send c \<longleftrightarrow> send_cb c \<and> 0 \<notin> set (tx_accept (io_user_data c))"

lemma fed_in_step:
  "in_step_c2s C c s \<Longrightarrow> [] \<notin> set r \<Longrightarrow> in_step_c2s C (fed q c) (fed r s)"
  "in_step_s2c C s c \<Longrightarrow> [] \<notin> set q \<Longrightarrow> in_step_s2c C (fed r s) (fed q c)"
  "same_idents c s \<Longrightarrow> same_idents (fed q c) (fed r s)"
  by (auto simp: in_step_c2s_def in_step_s2c_def same_idents_def fed_def srv_timely_def)

text \<open>The whole exchange on two streams that carry the messages of the run.\<close>

lemma exchange_runs:
  assumes step: "in_step_c2s C c s" "in_step_s2c C s c" "same_idents c s" "\<not> key_exchange_complete c"
    and C: "dh_ok C" "sign_ok C"
    and ready: "connected c" "connected s" "host_key_ready s"
    and key: "noxtls_ed25519_public_key C (host_ed25519_sk s) = Some pk" "host_ed25519_pk s = pk" "length pk = 32"
    and env: "can_send c" "can_send s" "plenty 5 rs" "getrandom (io_user_data s) = rs"
      "rand_byte (io_user_data c) = R" "rand_pos (io_user_data c) = pos"
    and pos1_def: "pos1 = pos + 16 + pad_len (cli_kexinit R pos)"
    and rs1_def: "rs1 = snd (random_bytes (pad_len (srv_kexinit rs)) (snd (random_bytes 16 rs)))"
    and rnd: "random_bytes 32 rs1 = (seed, rs2)"
    and gen: "noxtls_x25519_generate_key C (keygen_pos (io_user_data c)) = Some (priv, pub_c)"
    and pub: "noxtls_x25519_public_key C (noxtls_x25519_clamp_scalar C seed) = Some pub_s"
    and k: "noxtls_x25519_shared_secret C priv pub_s = Some k"
    and h_def: "h = digest C (kex_hash_input (s\<lparr>kexinit_client_payload := cli_kexinit R pos, kexinit_server_payload := srv_kexinit rs\<rparr>)
      (ed25519_blob pk) pub_c pub_s k)"
    and sig: "noxtls_ed25519_sign C (host_ed25519_sk s) h = Some sig" "length sig = 64"
    and reply_def: "reply = ecdh_reply (ed25519_blob pk) pub_s (ed25519_blob sig)"
    and up1_def: "up1 = cli_frame R (pos + 16) (cli_kexinit R pos)"
    and up2_def: "up2 = cli_frame R pos1 (ecdh_init pub_c) @ cli_frame R (pos1 + pad_len (ecdh_init pub_c)) [21]"
    and down1_def: "down1 = srv_frame (snd (random_bytes 16 rs)) (srv_kexinit rs)"
    and down2_def: "down2 = srv_frame rs2 reply @ srv_frame (snd (random_bytes (pad_len reply) rs2)) [21]"
    and rx: "concat to_server = up1 @ up2" "[] \<notin> set to_server" "concat to_client = down1 @ down2" "[] \<notin> set to_client"
  shows "\<exists>c' s'. netnox_ssh_exchange_kexinit C (netnox_ssh_wait_for_message C (Suc fuel)) (fed to_client c) = (Ok (), c') \<and>
    srv_key_exchange C (fed to_server s) = (Ok (), s') \<and> tx_of c' = tx_of c @ up1 @ up2 \<and> tx_of s' = tx_of s @ down1 @ down2"
proof -
  let ?k = "cli_kexinit R pos" and ?q = "srv_kexinit rs"
  let ?c = "fed to_client c" and ?s = "fed to_server s" and ?up = "tx_of c @ up1 @ up2" and ?down = "tx_of s @ down1 @ down2"
  have tx: "tx_of ?c = tx_of c" "tx_of ?s = tx_of s" by (simp_all add: tx_of_def fed_def)
  have link: "c2s_link C ?up ?c ?s" "s2c_link C ?down ?s ?c" "same_idents ?c ?s"
    using fed_in_step(1) [OF step(1) rx(2)] fed_in_step(2) [OF step(2) rx(4)] fed_in_step(3) [OF step(3)] rx tx
    by (simp_all add: c2s_link_def s2c_link_def) (simp_all add: rx_of_def fed_def)
  have five: "Suc (Suc (Suc (Suc (Suc 0)))) = 5" by simp
  have src: "cli_src R pos ?c" "srv_src (Suc (Suc (Suc (Suc (Suc 0))))) rs ?s"
    using env step(1,4) unfolding five by (simp_all add: cli_src_def srv_src_def can_send_def fed_def in_step_c2s_def srv_timely_def)
  have con: "connected ?c" "connected ?s" using ready by (simp_all add: fed_def)
  obtain c5 s5 where r: "\<And>wait. netnox_ssh_exchange_kexinit C wait ?c = netnox_ssh_perform_curve25519_kex C wait c5"
    "srv_exchange_kexinit C ?s = (Ok (), s5)" "c2s_link C ?up c5 s5" "s2c_link C ?down s5 c5" "same_transcript c5 s5"
    "cli_src R pos1 c5" "srv_src (Suc (Suc (Suc 0))) rs1 s5" "tx_of c5 = tx_of ?c @ up1" "tx_of s5 = tx_of ?s @ down1"
    "kexinit_exchanged c5" "kexinit_exchanged s5" "keygen_pos (io_user_data c5) = keygen_pos (io_user_data ?c)"
    "host_key_ready s5 = host_key_ready ?s" "host_ed25519_sk s5 = host_ed25519_sk ?s" "host_ed25519_pk s5 = host_ed25519_pk ?s"
    "kex_hash_input s5 = kex_hash_input (?s\<lparr>kexinit_client_payload := ?k, kexinit_server_payload := ?q\<rparr>)"
    unfolding pos1_def rs1_def up1_def down1_def
    by (rule kexinit_runs [OF link src con]) (simp_all add: tx up1_def down1_def)
  have same: "keygen_pos (io_user_data ?c) = keygen_pos (io_user_data c)" "host_key_ready ?s" "host_ed25519_sk ?s = host_ed25519_sk s"
    "host_ed25519_pk ?s = pk" "kex_hash_input (?s\<lparr>kexinit_client_payload := ?k, kexinit_server_payload := ?q\<rparr>) =
      kex_hash_input (s\<lparr>kexinit_client_payload := ?k, kexinit_server_payload := ?q\<rparr>)"
    using ready key(2) by (simp_all add: fed_def kex_hash_input_def fun_eq_iff)
  have "\<exists>c' s'. netnox_ssh_perform_curve25519_kex C (netnox_ssh_wait_for_message C (Suc fuel)) c5 = (Ok (), c') \<and>
      srv_perform_curve25519_kex C s5 = (Ok (), s') \<and> tx_of c' = tx_of c5 @ up2 \<and> tx_of s' = tx_of s5 @ down2"
    unfolding up2_def down2_def
    by (rule dh_runs [OF r(3-5) C(1,2) r(6,7,10,11) _ _ _ _ _ rnd pub k _ _ sig(2) reply_def])
      (simp_all add: r same key gen sig h_def [symmetric] tx, simp_all add: sig(1) up2_def down2_def)
  then show ?thesis using r(1,2,8,9) tx by (auto simp: srv_key_exchange_def bindM_def)
qed

text \<open>C3: Two honest endpoints complete their first key exchange. Where both can send, the server has enough random
  bytes and a proper host key, and the crypto library works, there is a conversation, however its two byte streams are cut
  into pieces, on which both endpoints report success, and each writes exactly what the other reads.\<close>

theorem handshake_completes:
  assumes step: "in_step_c2s C c s" "in_step_s2c C s c" "same_idents c s" "\<not> key_exchange_complete c"
    and C: "dh_ok C" "sign_ok C" "crypto_works C"
    and ready: "connected c" "connected s" "host_key_ready s"
    and key: "noxtls_ed25519_public_key C (host_ed25519_sk s) = Some (host_ed25519_pk s)" "length (host_ed25519_pk s) = 32"
    and env: "can_send c" "can_send s" "plenty 5 (getrandom (io_user_data s))"
  shows "\<exists>up down. \<forall>to_server to_client. concat to_server = up \<and> [] \<notin> set to_server \<and> concat to_client = down \<and> [] \<notin> set to_client \<longrightarrow>
    (\<exists>c' s'. netnox_ssh_exchange_kexinit C (netnox_ssh_wait_for_message C (Suc fuel)) (fed to_client c) = (Ok (), c') \<and>
      srv_key_exchange C (fed to_server s) = (Ok (), s') \<and> tx_of c' = tx_of c @ up \<and> tx_of s' = tx_of s @ down)"
proof -
  let ?R = "rand_byte (io_user_data c)" and ?pos = "rand_pos (io_user_data c)" and ?rs = "getrandom (io_user_data s)"
  obtain seed rs2 where rnd: "random_bytes 32 (snd (random_bytes (pad_len (srv_kexinit ?rs)) (snd (random_bytes 16 ?rs)))) = (seed, rs2)"
    by fastforce
  obtain priv pub_c where gen: "noxtls_x25519_generate_key C (keygen_pos (io_user_data c)) = Some (priv, pub_c)"
    using crypto_worksD(1) [OF C(3)] by blast
  obtain pub_s where pub: "noxtls_x25519_public_key C (noxtls_x25519_clamp_scalar C seed) = Some pub_s"
    using crypto_worksD(2) [OF C(3)] by blast
  obtain k where k: "noxtls_x25519_shared_secret C priv pub_s = Some k"
    using crypto_worksD(3) [OF C(3) gen pub] by blast
  obtain sig where sig: "noxtls_ed25519_sign C (host_ed25519_sk s)
      (digest C (kex_hash_input (s\<lparr>kexinit_client_payload := cli_kexinit ?R ?pos, kexinit_server_payload := srv_kexinit ?rs\<rparr>)
        (ed25519_blob (host_ed25519_pk s)) pub_c pub_s k)) = Some sig" "length sig = 64"
    using crypto_worksD(4) [OF C(3) key(1)] by blast
  show ?thesis
    using exchange_runs [OF step C(1,2) ready key(1) refl key(2) env refl refl refl refl refl rnd gen pub k refl sig refl refl refl refl refl]
    by blast
qed

lemma toy_crypto_works: "crypto_works toy_noxtls"
  by (simp add: crypto_works_def toy_noxtls_def min_def)

lemma sample_kex_ready:
  "connected (feed1 d kex_client)" "connected (feed1 u kex_server)" "host_key_ready (feed1 u kex_server)"
  "can_send (feed1 d kex_client)" "can_send (feed1 u kex_server)" "\<not> key_exchange_complete (feed1 d kex_client)"
  "noxtls_ed25519_public_key toy_noxtls (host_ed25519_sk (feed1 u kex_server)) = Some (host_ed25519_pk (feed1 u kex_server))"
  "length (host_ed25519_pk (feed1 u kex_server)) = 32" "plenty 5 (getrandom (io_user_data (feed1 u kex_server)))"
  by (simp_all add: feed1_def kex_client_def kex_server_def sample_client_eq sample_server_eq sample_fields can_send_def plenty_def toy_noxtls_def)

theorem handshake_completes_witness:
  "\<exists>to_server to_client c' s'.
    netnox_ssh_exchange_kexinit toy_noxtls (netnox_ssh_wait_for_message toy_noxtls 1) (fed to_client kex_client) = (Ok (), c') \<and>
    srv_key_exchange toy_noxtls (fed to_server kex_server) = (Ok (), s') \<and>
    tx_of c' = tx_of kex_client @ concat to_server \<and> tx_of s' = tx_of kex_server @ concat to_client"
proof -
  obtain up down where r: "\<And>to_server to_client. concat to_server = up \<and> [] \<notin> set to_server \<and> concat to_client = down \<and> [] \<notin> set to_client \<Longrightarrow>
    \<exists>c' s'. netnox_ssh_exchange_kexinit toy_noxtls (netnox_ssh_wait_for_message toy_noxtls (Suc 0)) (fed to_client (feed1 sample_down kex_client)) = (Ok (), c') \<and>
      srv_key_exchange toy_noxtls (fed to_server (feed1 sample_up kex_server)) = (Ok (), s') \<and>
      tx_of c' = tx_of (feed1 sample_down kex_client) @ up \<and> tx_of s' = tx_of (feed1 sample_up kex_server) @ down"
    using handshake_completes [OF sample_kex_in_step sample_kex_ready(6) toy_dh_ok toy_sign_ok toy_crypto_works
        sample_kex_ready(1-3,7,8,4,5,9), of 0] by blast
  have "fed q (feed1 d kex_client) = fed q kex_client" "fed q (feed1 d kex_server) = fed q kex_server"
    "tx_of (feed1 d kex_client) = tx_of kex_client" "tx_of (feed1 d kex_server) = tx_of kex_server" for q d
    by (simp_all add: fed_def feed1_def tx_of_def)
  note same = this
  have "\<exists>ts. concat ts = d \<and> [] \<notin> set ts" for d :: bytes
    by (rule exI [of _ "if d = [] then [] else [d]"]) simp
  then obtain ts tc where ts: "concat ts = up" "[] \<notin> set ts" "concat tc = down" "[] \<notin> set tc" by metis
  from r [of ts tc] ts show ?thesis unfolding same One_nat_def by blast
qed

end
