(* ===== verification/Nox_Client.thy ===== *)
theory Nox_Client
  imports Nox_Halting
begin

text \<open>
  The public operations of the client (\<open>common/noxssh_common.c\<close>): configuration, connecting, service
  requests, user authentication, the session channel with its requests, data transfer, rekeying and
  closing. The operations that wait for a message take the waiting function as an argument, as the key
  exchange does; a running client uses \<open>netnox_ssh_wait_for_message\<close>. Pointer arguments are never NULL.
\<close>

section \<open>Definitions\<close>

text \<open>A payload built in a local array of \<open>cap\<close> bytes and sent.\<close>

definition send_built ::
  "noxtls \<Rightarrow> u32 \<Rightarrow> (netnox_ssh_client_t \<Rightarrow> field list) \<Rightarrow> (netnox_ssh_client_t, unit) prog" where
  "send_built C cap fs =
     bindM (\<lambda>c. liftM (build cap (fs c)) c) (\<lambda>payload. netnox_ssh_send_packet C payload)"

subsection \<open>Configuration\<close>

definition netnox_ssh_client_set_identification :: "bytes \<Rightarrow> (netnox_ssh_client_t, unit) prog" where
  "netnox_ssh_client_set_identification ident =
     bindM (liftM (netnox_ssh_copy_string 256 ident)) (\<lambda>d. setM (\<lambda>c. c\<lparr>client_ident := d\<rparr>))"

definition netnox_ssh_client_set_target :: "bytes \<Rightarrow> bytes \<Rightarrow> (netnox_ssh_client_t, unit) prog" where
  "netnox_ssh_client_set_target user hostname =
     bindM (liftM (netnox_ssh_copy_string 65 user)) (\<lambda>d.
     bindM (setM (\<lambda>c. c\<lparr>username := d\<rparr>)) (\<lambda>_.
     bindM (liftM (netnox_ssh_copy_string 256 hostname)) (\<lambda>h.
     setM (\<lambda>c. c\<lparr>host := h\<rparr>))))"

definition netnox_ssh_client_set_password :: "bytes \<Rightarrow> (netnox_ssh_client_t, unit) prog" where
  "netnox_ssh_client_set_password pw =
     bindM (liftM (netnox_ssh_copy_string 129 pw)) (\<lambda>d. setM (\<lambda>c. c\<lparr>password := d\<rparr>))"

text \<open>A failing \<open>noxtls_ed25519_public_key\<close> is taken to leave the output array as it was.\<close>

definition netnox_ssh_client_set_ed25519_private_key ::
  "noxtls \<Rightarrow> bytes \<Rightarrow> (netnox_ssh_client_t, unit) prog" where
  "netnox_ssh_client_set_ed25519_private_key C key =
     bindM (liftM (fetch key 32)) (\<lambda>sk.
     bindM (setM (\<lambda>c. c\<lparr>ed25519_private_key := sk\<rparr>)) (\<lambda>_.
     case noxtls_ed25519_public_key C sk of
       None \<Rightarrow> bindM (setM (\<lambda>c. c\<lparr>has_ed25519_key := False\<rparr>)) (\<lambda>_. throwM NETNOX_RETURN_FAILED)
     | Some pk \<Rightarrow> setM (\<lambda>c. c\<lparr>ed25519_public_key := pk, has_ed25519_key := True\<rparr>)))"

subsection \<open>Connecting\<close>

text \<open>\<open>snprintf(tx_ident, 258, "%s\\r\\n", ident)\<close>.\<close>

definition ident_line :: "bytes \<Rightarrow> bytes" where
  "ident_line ident = take 257 (ident @ [13, 10])"

text \<open>
  Up to \<open>i\<close> lines of the server. A line is stored as the C string it is (its bytes before a NUL); where
  reading it fails, the field keeps its value here.
\<close>

primrec connect_loop :: "noxtls \<Rightarrow> waiter \<Rightarrow> nat \<Rightarrow> (netnox_ssh_client_t, unit) prog" where
  "connect_loop C wait 0 = throwM NETNOX_RETURN_FAILED"
| "connect_loop C wait (Suc i) =
     bindM (netnox_ssh_recv_line 256) (\<lambda>line.
     bindM (setM (\<lambda>c. c\<lparr>server_ident := cstr line\<rparr>)) (\<lambda>_.
     if netnox_ssh_is_ident_line line
     then bindM (setM (\<lambda>c. c\<lparr>connected := True\<rparr>)) (\<lambda>_. netnox_ssh_exchange_kexinit C wait)
     else connect_loop C wait i))"

definition netnox_ssh_client_connect :: "noxtls \<Rightarrow> waiter \<Rightarrow> (netnox_ssh_client_t, unit) prog" where
  "netnox_ssh_client_connect C wait =
     bindM (requireM (\<lambda>c. send_cb c \<and> recv_cb c)) (\<lambda>_.
     bindM (requireM (\<lambda>c. client_ident c \<noteq> [])) (\<lambda>_.
     bindM (checkedM NETNOX_RETURN_FAILED (\<lambda>c. netnox_ssh_send_all (ident_line (client_ident c)) c)) (\<lambda>_.
     connect_loop C wait 8)))"

definition netnox_ssh_client_get_server_ident :: "netnox_ssh_client_t \<Rightarrow> bytes option" where
  "netnox_ssh_client_get_server_ident c = (if server_ident c = [] then None else Some (server_ident c))"

text \<open>The fingerprint with the length reported through \<open>inout_len\<close>; \<open>None\<close> leaves the output alone.\<close>

definition netnox_ssh_client_get_server_host_key_fingerprint ::
  "netnox_ssh_client_t \<Rightarrow> u32 \<Rightarrow> netnox_return_t option \<times> bytes option \<times> u32" where
  "netnox_ssh_client_get_server_host_key_fingerprint c inout_len =
     (if \<not> server_host_key_ready c then (Some NETNOX_RETURN_FAILED, None, inout_len)
      else if inout_len < 32 then (Some NETNOX_RETURN_BAD_PARAM, None, 32)
      else (None, Some (server_host_key_fingerprint c), 32))"

subsection \<open>Services and user authentication\<close>

definition netnox_ssh_send_service_request :: "noxtls \<Rightarrow> bytes \<Rightarrow> (netnox_ssh_client_t, unit) prog" where
  "netnox_ssh_send_service_request C service =
     send_built C 128 (\<lambda>_. [netnox_ssh_payload_append_u8 5, append_bytes service])"

text \<open>The body that the two negotiations share.\<close>

definition negotiate_service :: "noxtls \<Rightarrow> waiter \<Rightarrow> bytes \<Rightarrow> (netnox_ssh_client_t, unit) prog" where
  "negotiate_service C wait service =
     bindM (checkedM NETNOX_RETURN_FAILED (netnox_ssh_send_service_request C service)) (\<lambda>_.
     bindM (checkedM NETNOX_RETURN_FAILED (wait 6 0xFF 256)) (\<lambda>payload.
     bindM (liftM (fetch1 payload 0)) (\<lambda>t.
     bindM (failM (t \<noteq> 6) NETNOX_RETURN_FAILED) (\<lambda>_.
     bindM (liftM (view_at (payload, u32len payload) 1)) (\<lambda>(svc, _).
     bindM (liftM (view_eq svc service)) (\<lambda>same.
     failM (\<not> same) NETNOX_RETURN_FAILED))))))"

definition service_userauth :: bytes where
  "service_userauth = ascii ''ssh-userauth''"

definition service_connection :: bytes where
  "service_connection = ascii ''ssh-connection''"

definition netnox_ssh_negotiate_userauth_service :: "noxtls \<Rightarrow> waiter \<Rightarrow> (netnox_ssh_client_t, unit) prog" where
  "netnox_ssh_negotiate_userauth_service C wait =
     bindM (negotiate_service C wait service_userauth) (\<lambda>_.
     setM (\<lambda>c. c\<lparr>userauth_service_ready := True\<rparr>))"

definition netnox_ssh_negotiate_connection_service :: "noxtls \<Rightarrow> waiter \<Rightarrow> (netnox_ssh_client_t, unit) prog" where
  "netnox_ssh_negotiate_connection_service C wait =
     bindM (negotiate_service C wait service_connection) (\<lambda>_.
     setM (\<lambda>c. c\<lparr>connection_service_ready := True\<rparr>))"

definition netnox_ssh_send_userauth_password :: "noxtls \<Rightarrow> (netnox_ssh_client_t, unit) prog" where
  "netnox_ssh_send_userauth_password C =
     send_built C 512 (\<lambda>c. [netnox_ssh_payload_append_u8 50, append_bytes (username c),
       append_bytes service_connection, append_bytes (ascii ''password''),
       netnox_ssh_payload_append_u8 0, append_bytes (password c)])"

definition keyalg_ed25519 :: bytes where
  "keyalg_ed25519 = ascii ''ssh-ed25519''"

definition netnox_ssh_send_userauth_publickey_ed25519 :: "noxtls \<Rightarrow> (netnox_ssh_client_t, unit) prog" where
  "netnox_ssh_send_userauth_publickey_ed25519 C =
     bindM (requireM (\<lambda>c. has_ed25519_key c \<and> session_id_len c \<noteq> 0)) (\<lambda>_.
     bindM (\<lambda>c. liftM (build 256 [append_bytes keyalg_ed25519,
              netnox_ssh_payload_append_string (ed25519_public_key c) 32]) c) (\<lambda>pubkey_blob.
     bindM (\<lambda>c. liftM (build 1024 [netnox_ssh_payload_append_u8 50, append_bytes (username c),
              append_bytes service_connection, append_bytes (ascii ''publickey''),
              netnox_ssh_payload_append_u8 1, append_bytes keyalg_ed25519, append_bytes pubkey_blob]) c) (\<lambda>req.
     bindM (\<lambda>c. liftM (build 1400
              [netnox_ssh_payload_append_string (session_id c) (ucast (session_id_len c))]) c) (\<lambda>sid.
     bindM (failM (u32len sid + u32len req > 1400) NETNOX_RETURN_FAILED) (\<lambda>_.
     bindM (\<lambda>c. liftM (case noxtls_ed25519_sign C (ed25519_private_key c) (sid @ req) of
              None \<Rightarrow> Err NETNOX_RETURN_FAILED | Some sig \<Rightarrow> Ok sig) c) (\<lambda>signature.
     bindM (liftM (build 256 [append_bytes keyalg_ed25519,
              netnox_ssh_payload_append_string signature 64])) (\<lambda>sig_blob.
     bindM (liftM (append_all 1024 [append_bytes sig_blob] req)) (\<lambda>payload.
     netnox_ssh_send_packet C payload))))))))"

definition netnox_ssh_wait_userauth_result :: "waiter \<Rightarrow> (netnox_ssh_client_t, unit) prog" where
  "netnox_ssh_wait_userauth_result wait =
     bindM (checkedM NETNOX_RETURN_FAILED (wait 52 51 512)) (\<lambda>payload.
     if payload = [] then throwM NETNOX_RETURN_FAILED
     else if hd payload = 52 then setM (\<lambda>c. c\<lparr>authenticated := True\<rparr>)
     else if hd payload = 51 then throwM NETNOX_RETURN_AUTH_REJECTED
     else throwM NETNOX_RETURN_FAILED)"

text \<open>One authentication method: the request, then the code of the answer.\<close>

definition attempt :: "waiter \<Rightarrow> (netnox_ssh_client_t, unit) prog \<Rightarrow> (netnox_ssh_client_t, unit res) prog" where
  "attempt wait request =
     bindM (checkedM NETNOX_RETURN_FAILED request) (\<lambda>_. tryM (netnox_ssh_wait_userauth_result wait))"

definition netnox_ssh_client_authenticate :: "noxtls \<Rightarrow> waiter \<Rightarrow> (netnox_ssh_client_t, unit) prog" where
  "netnox_ssh_client_authenticate C wait =
     bindM (requireM (\<lambda>c. connected c \<and> kexinit_exchanged c \<and> key_exchange_complete c)) (\<lambda>_.
     bindM (requireM (\<lambda>c. username c \<noteq> [])) (\<lambda>_.
     bindM (ifM (\<lambda>c. \<not> userauth_service_ready c)
              (checkedM NETNOX_RETURN_FAILED (netnox_ssh_negotiate_userauth_service C wait)) (retM ())) (\<lambda>_.
     bindM (ifM has_ed25519_key
              (bindM (attempt wait (netnox_ssh_send_userauth_publickey_ed25519 C)) (\<lambda>r. retM (Some r)))
              (retM None)) (\<lambda>auth_rc.
     if auth_rc = Some (Ok ()) then retM ()
     else if auth_rc \<noteq> None \<and> auth_rc \<noteq> Some (Err NETNOX_RETURN_AUTH_REJECTED)
     then throwM NETNOX_RETURN_FAILED
     else ifM (\<lambda>c. password c \<noteq> [])
       (bindM (attempt wait (netnox_ssh_send_userauth_password C)) (\<lambda>r.
        if r = Ok () then retM ()
        else if r = Err NETNOX_RETURN_AUTH_REJECTED then throwM NETNOX_RETURN_AUTH_REJECTED
        else throwM NETNOX_RETURN_FAILED))
       (if auth_rc = None then throwM NETNOX_RETURN_BAD_PARAM
        else throwM NETNOX_RETURN_AUTH_REJECTED)))))"

subsection \<open>The session channel\<close>

definition netnox_ssh_send_channel_open_session :: "noxtls \<Rightarrow> (netnox_ssh_client_t, unit) prog" where
  "netnox_ssh_send_channel_open_session C =
     send_built C 256 (\<lambda>c. [netnox_ssh_payload_append_u8 90, append_bytes (ascii ''session''),
       netnox_ssh_payload_append_u32 (local_channel_id c),
       netnox_ssh_payload_append_u32 (local_window_size c), netnox_ssh_payload_append_u32 32768])"

text \<open>\<open>FAILED\<close> wherever a 32-bit field cannot be read.\<close>

definition u32_at :: "bytes \<Rightarrow> u32 \<Rightarrow> (u32 \<times> u32) res" where
  "u32_at payload off = recode NETNOX_RETURN_FAILED (netnox_ssh_payload_read_u32 payload (u32len payload) off)"

definition netnox_ssh_client_open_session :: "noxtls \<Rightarrow> waiter \<Rightarrow> (netnox_ssh_client_t, unit) prog" where
  "netnox_ssh_client_open_session C wait =
     bindM (requireM (\<lambda>c. connected c \<and> kexinit_exchanged c \<and> key_exchange_complete c \<and> authenticated c)) (\<lambda>_.
     bindM (setM (\<lambda>c. c\<lparr>local_channel_id := 0, local_window_size := 65536\<rparr>)) (\<lambda>_.
     bindM (ifM (\<lambda>c. \<not> connection_service_ready c)
              (checkedM NETNOX_RETURN_FAILED (netnox_ssh_negotiate_connection_service C wait)) (retM ())) (\<lambda>_.
     bindM (checkedM NETNOX_RETURN_FAILED (netnox_ssh_send_channel_open_session C)) (\<lambda>_.
     bindM (checkedM NETNOX_RETURN_FAILED (wait 91 92 512)) (\<lambda>payload.
     bindM (failM (payload = [] \<or> hd payload \<noteq> 91) NETNOX_RETURN_FAILED) (\<lambda>_.
     bindM (liftM (u32_at payload 1)) (\<lambda>(recipient_channel, o1).
     bindM (liftM (u32_at payload o1)) (\<lambda>(sender_channel, o2).
     bindM (liftM (u32_at payload o2)) (\<lambda>(initial_window, o3).
     bindM (liftM (u32_at payload o3)) (\<lambda>(max_packet, _).
     ifM (\<lambda>c. recipient_channel \<noteq> local_channel_id c) (throwM NETNOX_RETURN_FAILED)
       (setM (\<lambda>c. c\<lparr>remote_channel_id := sender_channel, remote_window_size := initial_window,
          remote_max_packet_size := max_packet, channel_open := True\<rparr>))))))))))))"

text \<open>A channel request with \<open>want_reply\<close>, and the wait for its answer.\<close>

definition await_channel_success :: "waiter \<Rightarrow> (netnox_ssh_client_t, unit) prog" where
  "await_channel_success wait =
     bindM (checkedM NETNOX_RETURN_FAILED (wait 99 100 256)) (\<lambda>rsp.
     failM (rsp = [] \<or> hd rsp \<noteq> 99) NETNOX_RETURN_FAILED)"

definition channel_ready :: "netnox_ssh_client_t \<Rightarrow> bool" where
  "channel_ready c \<longleftrightarrow> connected c \<and> kexinit_exchanged c \<and> key_exchange_complete c \<and> channel_open c"

definition netnox_ssh_client_exec :: "noxtls \<Rightarrow> waiter \<Rightarrow> bytes \<Rightarrow> (netnox_ssh_client_t, unit) prog" where
  "netnox_ssh_client_exec C wait command =
     bindM (requireM channel_ready) (\<lambda>_.
     bindM (failM (length (cstr command) > 512) NETNOX_RETURN_BAD_PARAM) (\<lambda>_.
     bindM (checkedM NETNOX_RETURN_FAILED (send_built C 1024 (\<lambda>c.
              [netnox_ssh_payload_append_u8 98, netnox_ssh_payload_append_u32 (remote_channel_id c),
               append_bytes (ascii ''exec''), netnox_ssh_payload_append_u8 1, append_bytes (cstr command)]))) (\<lambda>_.
     await_channel_success wait)))"

definition pty_request :: "netnox_ssh_client_t \<Rightarrow> field list" where
  "pty_request c =
     [netnox_ssh_payload_append_u8 98, netnox_ssh_payload_append_u32 (remote_channel_id c),
      append_bytes (ascii ''pty-req''), netnox_ssh_payload_append_u8 1,
      append_bytes (ascii ''xterm-256color''), netnox_ssh_payload_append_u32 80,
      netnox_ssh_payload_append_u32 24, netnox_ssh_payload_append_u32 0,
      netnox_ssh_payload_append_u32 0, netnox_ssh_payload_append_string [] 0]"

definition netnox_ssh_client_request_shell_ex ::
  "noxtls \<Rightarrow> waiter \<Rightarrow> byte \<Rightarrow> (netnox_ssh_client_t, unit) prog" where
  "netnox_ssh_client_request_shell_ex C wait request_pty =
     bindM (requireM channel_ready) (\<lambda>_.
     bindM (if request_pty \<noteq> 0
            then bindM (checkedM NETNOX_RETURN_FAILED (send_built C 512 pty_request)) (\<lambda>_.
                 await_channel_success wait)
            else retM ()) (\<lambda>_.
     bindM (checkedM NETNOX_RETURN_FAILED (send_built C 512 (\<lambda>c.
              [netnox_ssh_payload_append_u8 98, netnox_ssh_payload_append_u32 (remote_channel_id c),
               append_bytes (ascii ''shell''), netnox_ssh_payload_append_u8 1]))) (\<lambda>_.
     await_channel_success wait)))"

definition netnox_ssh_client_request_shell :: "noxtls \<Rightarrow> waiter \<Rightarrow> (netnox_ssh_client_t, unit) prog" where
  "netnox_ssh_client_request_shell C wait = netnox_ssh_client_request_shell_ex C wait 1"

subsection \<open>Data, keepalive, rekeying\<close>

definition data_chunk_len :: "netnox_ssh_client_t \<Rightarrow> u32 \<Rightarrow> u32" where
  "data_chunk_len c len =
     (let chunk = (if remote_max_packet_size c \<noteq> 0 \<and> len > remote_max_packet_size c
                   then remote_max_packet_size c else len)
      in if chunk > 4096 then 4096 else chunk)"

definition netnox_ssh_client_send_data :: "noxtls \<Rightarrow> bytes \<Rightarrow> u32 \<Rightarrow> (netnox_ssh_client_t, unit) prog" where
  "netnox_ssh_client_send_data C data len =
     bindM (failM (len = 0 \<or> len > 4096) NETNOX_RETURN_BAD_PARAM) (\<lambda>_.
     bindM (requireM (\<lambda>c. connected c \<and> channel_open c)) (\<lambda>_.
     send_built C 4109 (\<lambda>c. [netnox_ssh_payload_append_u8 94,
       netnox_ssh_payload_append_u32 (remote_channel_id c),
       netnox_ssh_payload_append_string data (data_chunk_len c len)])))"

definition netnox_ssh_client_send_keepalive :: "noxtls \<Rightarrow> (netnox_ssh_client_t, unit) prog" where
  "netnox_ssh_client_send_keepalive C =
     bindM (requireM (\<lambda>c. connected c \<and> key_exchange_complete c)) (\<lambda>_.
     send_built C 5 (\<lambda>_. [netnox_ssh_payload_append_u8 2, netnox_ssh_payload_append_u32 0]))"

definition netnox_ssh_client_rekey :: "noxtls \<Rightarrow> waiter \<Rightarrow> (netnox_ssh_client_t, unit) prog" where
  "netnox_ssh_client_rekey C wait =
     bindM (requireM (\<lambda>c. connected c \<and> key_exchange_complete c)) (\<lambda>_.
     netnox_ssh_exchange_kexinit C wait)"

text \<open>
  What \<open>recv_data\<close> does with a packet that is not empty: \<open>Some d\<close> returns the data \<open>d\<close>, \<open>None\<close> goes on to
  the next packet. \<open>memcpy\<close> of the data reads the view, which need not lie in the payload.
\<close>

definition own_channelM :: "bytes \<Rightarrow> (netnox_ssh_client_t, u32) prog" where
  "own_channelM payload =
     bindM (liftM (u32_at payload 1)) (\<lambda>(recipient_channel, off).
     bindM (ifM (\<lambda>c. recipient_channel \<noteq> local_channel_id c) (throwM NETNOX_RETURN_FAILED) (retM ())) (\<lambda>_.
     retM off))"

definition deliver_data :: "bytes \<Rightarrow> u32 \<Rightarrow> u32 \<Rightarrow> bytes option res" where
  "deliver_data payload off len =
     bindR (view_at (payload, u32len payload) off) (\<lambda>(str_data, _).
     bindR (fetch (fst str_data) (unat (if len < snd str_data then len else snd str_data))) (\<lambda>d. Ok (Some d)))"

definition recv_channel_request :: "bytes \<Rightarrow> u32 \<Rightarrow> (netnox_ssh_client_t, unit) prog" where
  "recv_channel_request payload off =
     bindM (liftM (view_at (payload, u32len payload) off)) (\<lambda>(req_type, o1).
     bindM (failM (o1 \<ge> u32len payload) NETNOX_RETURN_FAILED) (\<lambda>_.
     bindM (liftM (view_eq req_type (ascii ''exit-status''))) (\<lambda>is_exit.
     if is_exit
     then bindM (liftM (u32_at payload (o1 + 1))) (\<lambda>(exit_status, _).
          setM (\<lambda>c. c\<lparr>remote_exit_status := exit_status, remote_exit_status_valid := True\<rparr>))
     else retM ())))"

definition recv_data_packet ::
  "noxtls \<Rightarrow> waiter \<Rightarrow> u32 \<Rightarrow> bytes \<Rightarrow> (netnox_ssh_client_t, bytes option) prog" where
  "recv_data_packet C wait len payload =
     (if hd payload = 20
      then bindM (checkedM NETNOX_RETURN_FAILED (netnox_ssh_handle_server_kexinit C wait payload)) (\<lambda>_. retM None)
      else if hd payload = 94
      then bindM (own_channelM payload) (\<lambda>off. liftM (deliver_data payload off len))
      else if hd payload = 95
      then bindM (own_channelM payload) (\<lambda>off.
           bindM (liftM (u32_at payload off)) (\<lambda>(data_type_code, o1).
           liftM (deliver_data payload o1 len)))
      else if hd payload = 98
      then bindM (own_channelM payload) (\<lambda>off.
           bindM (recv_channel_request payload off) (\<lambda>_. retM None))
      else if hd payload = 96 then retM (Some [])
      else if hd payload = 97
      then bindM (setM (\<lambda>c. c\<lparr>channel_open := False\<rparr>)) (\<lambda>_. retM (Some []))
      else retM None)"

lemma always_own_channel: "always ctx_step (own_channelM p)"
  unfolding own_channelM_def case_prod_beta by (intro kex_always)

lemma always_channel_request: "always ctx_step (recv_channel_request p off)"
  unfolding recv_channel_request_def case_prod_beta by (intro kex_always) simp

lemma always_recv_data_packet:
  "(\<And>a b m. always ctx_step (wait a b m)) \<Longrightarrow> always ctx_step (recv_data_packet C wait len p)"
  unfolding recv_data_packet_def case_prod_beta
  by (intro kex_always always_handle_kexinit always_own_channel always_channel_request) simp_all

text \<open>The loop of \<open>recv_data\<close>: every round consumes a packet, so it ends.\<close>

function recv_data_loop :: "noxtls \<Rightarrow> nat \<Rightarrow> u32 \<Rightarrow> (netnox_ssh_client_t, bytes) prog" where
  "recv_data_loop C fuel len c =
     bindM (checkedM NETNOX_RETURN_FAILED (netnox_ssh_recv_packet C 35000)) (\<lambda>payload c1.
     if payload = [] then recv_data_loop C fuel len c1
     else bindM (recv_data_packet C (netnox_ssh_wait_for_message C fuel) len payload) (\<lambda>r c2.
       case r of Some d \<Rightarrow> retM d c2 | None \<Rightarrow> recv_data_loop C fuel len c2) c1) c"
  by pat_completeness auto
termination
proof (relation "measure (\<lambda>(C, fuel, len, c). length (rx_of c))", goal_cases)
  case 1
  then show ?case by simp
next
  case (2 C fuel len c a t)
  then show ?case using consumes_recv_packet by (simp add: consumes_def checkedM_Ok)
next
  case (3 C fuel len c a t r u)
  have "length (rx_of t) < length (rx_of c)"
    using 3(1) consumes_recv_packet by (simp add: consumes_def checkedM_Ok)
  moreover have "length (rx_of u) \<le> length (rx_of t)"
    using alwaysD [OF always_recv_data_packet [OF always_wait] 3(3)] by (rule ctx_step_unread)
  ultimately show ?case by simp
qed

declare recv_data_loop.simps [simp del]

definition netnox_ssh_client_recv_data :: "noxtls \<Rightarrow> nat \<Rightarrow> u32 \<Rightarrow> (netnox_ssh_client_t, bytes) prog" where
  "netnox_ssh_client_recv_data C fuel len =
     bindM (failM (len = 0 \<or> len > 4096) NETNOX_RETURN_BAD_PARAM) (\<lambda>_.
     bindM (requireM (\<lambda>c. connected c \<and> channel_open c)) (\<lambda>_.
     recv_data_loop C fuel len))"

definition netnox_ssh_client_get_remote_exit_status :: "netnox_ssh_client_t \<Rightarrow> u32 res" where
  "netnox_ssh_client_get_remote_exit_status c =
     (if remote_exit_status_valid c then Ok (remote_exit_status c) else Err NETNOX_RETURN_FAILED)"

definition netnox_ssh_client_close :: "(netnox_ssh_client_t, unit) prog" where
  "netnox_ssh_client_close =
     setM (\<lambda>c. c\<lparr>ed25519_private_key := replicate 32 0, ed25519_public_key := replicate 32 0,
       has_ed25519_key := False, server_host_key_blob := [], server_host_key_ready := False,
       remote_exit_status_valid := False, remote_exit_status := 0, connected := False,
       kexinit_exchanged := False, key_exchange_complete := False, pending_newkeys := [],
       userauth_service_ready := False, connection_service_ready := False, authenticated := False,
       channel_open := False, local_channel_id := 0, remote_channel_id := 0, local_window_size := 0,
       remote_window_size := 0, remote_max_packet_size := 0, server_ident := []\<rparr>)"

end
