(* ===== verification/Nox_Lifecycle.thy ===== *)
theory Nox_Lifecycle
  imports Nox_Client
begin

text \<open>
  The life of a client. What a wait and a key exchange leave alone, the order of the stages of a session, the sizes
  of what the context stores, and the contexts that arbitrary sequences of calls can reach (\<open>reachable\<close>). The two
  locales state what the operations rely on from the waiting function; they are interpreted for
  \<open>netnox_ssh_wait_for_message\<close>.
\<close>

section \<open>What the transport and a key exchange leave alone\<close>

definition session_part where
  "session_part (c :: netnox_ssh_client_t) = (connected c, userauth_service_ready c, connection_service_ready c,
     authenticated c, channel_open c, (local_channel_id c, remote_channel_id c, local_window_size c,
     remote_window_size c, remote_max_packet_size c), (client_ident c, server_ident c, username c, host c, password c),
     (ed25519_private_key c, ed25519_public_key c, has_ed25519_key c), (remote_exit_status_valid c, remote_exit_status c))"

definition kex_only :: "netnox_ssh_client_t \<Rightarrow> netnox_ssh_client_t \<Rightarrow> bool" where
  "kex_only c c' \<longleftrightarrow> session_part c' = session_part c \<and> (kexinit_exchanged c \<longrightarrow> kexinit_exchanged c') \<and>
     (key_exchange_complete c \<longrightarrow> key_exchange_complete c')"

text \<open>\<open>kex_sound\<close>: in addition, the keys are marked as complete only after a KEXINIT exchange.\<close>

definition kex_sound :: "netnox_ssh_client_t \<Rightarrow> netnox_ssh_client_t \<Rightarrow> bool" where
  "kex_sound c c' \<longleftrightarrow> kex_only c c' \<and>
     ((key_exchange_complete c \<longrightarrow> kexinit_exchanged c) \<longrightarrow> key_exchange_complete c' \<longrightarrow> kexinit_exchanged c')"

interpretation ko: step_rel kex_only
  by unfold_locales (auto simp: kex_only_def)

interpretation ks: step_rel kex_sound
  by unfold_locales (auto simp: kex_sound_def kex_only_def)

lemma kex_sound_only: "always kex_sound m \<Longrightarrow> always kex_only m"
  by (erule always_mono) (simp add: kex_sound_def)

lemma kex_sound_frames: "cli_sends c c' \<Longrightarrow> kex_sound c c'" "cli_recvs c c' \<Longrightarrow> kex_sound c c'"
  by (erule cli_sendsE cli_recvsE, simp add: kex_sound_def kex_only_def session_part_def)+

lemma ks_send_packet: "always kex_sound (netnox_ssh_send_packet C p)"
  using cs_send_packet kex_sound_frames(1) by (rule always_mono)

lemma ks_recv_packet: "always kex_sound (netnox_ssh_recv_packet C m)"
  using cr_recv_packet kex_sound_frames(2) by (rule always_mono)

lemma ks_ioM: "always kex_sound (ioM f)"
  by (simp add: always_def ioM_def kex_sound_def kex_only_def session_part_def split: prod.splits)

lemma ks_dep: "always kex_sound (\<lambda>c. liftM (f c) c)" "always kex_sound (\<lambda>c. checkedM e (liftM (f c)) c)"
  by (auto simp: always_def liftM_def checkedM_def ks.refl)

lemma ks_build_kexinit: "always kex_sound (netnox_ssh_build_kexinit_payload n)"
  unfolding netnox_ssh_build_kexinit_payload_def by (intro ks.always_rules ks_ioM)

lemma ks_keygen: "always kex_sound (keygenM C)"
  unfolding keygenM_def by (rule ks_ioM)

lemma kex_sound_set:
  "(\<And>c. session_part (f c) = session_part c) \<Longrightarrow> (\<And>c. key_exchange_complete (f c) = key_exchange_complete c) \<Longrightarrow>
   (\<And>c. kexinit_exchanged c \<Longrightarrow> kexinit_exchanged (f c)) \<Longrightarrow> always kex_sound (setM f)"
  by (rule always_set) (auto simp: kex_sound_def kex_only_def)

lemma ks_derive_keys: "always kex_sound (netnox_ssh_derive_transport_keys C)"
  unfolding netnox_ssh_derive_transport_keys_def derive_into_def
  by (intro ks.always_rules ks_dep kex_sound_set) (simp_all add: session_part_def)

lemma ks_accept_reply: "always kex_sound (accept_ecdh_reply C priv pub r)"
  unfolding accept_ecdh_reply_def case_prod_beta
  by (intro ks.always_rules ks_dep kex_sound_set) (simp_all add: session_part_def)

lemma ks_perform:
  assumes "\<And>a b m. always kex_sound (wait a b m)"
  shows "always kex_sound (netnox_ssh_perform_curve25519_kex C wait)"
proof -
  let ?perform = "netnox_ssh_perform_curve25519_kex C wait"
  have "always kex_only ?perform"
    unfolding netnox_ssh_perform_curve25519_kex_def case_prod_beta
    by (intro ko.always_rules kex_sound_only [OF ks_keygen] kex_sound_only [OF ks_send_packet]
        kex_sound_only [OF ks_accept_reply] kex_sound_only [OF ks_derive_keys] kex_sound_only [OF assms] always_set)
      (simp add: kex_only_def session_part_def)
  moreover have "?perform c = (Err NETNOX_RETURN_BAD_PARAM, c)" if "\<not> kexinit_exchanged c" for c
    using that by (simp add: netnox_ssh_perform_curve25519_kex_def bindM_def ifM_def throwM_def)
  ultimately show ?thesis
    unfolding always_def by (metis kex_only_def kex_sound_def ks.refl snd_conv)
qed

lemma ks_handle:
  assumes "\<And>a b m. always kex_sound (wait a b m)"
  shows "always kex_sound (netnox_ssh_handle_server_kexinit C wait p)"
  unfolding netnox_ssh_handle_server_kexinit_def
  by (intro ks.always_rules ks_build_kexinit ks_send_packet ks_perform assms kex_sound_set)
    (simp_all add: session_part_def)

lemma ks_exchange:
  assumes "\<And>a b m. always kex_sound (wait a b m)"
  shows "always kex_sound (netnox_ssh_exchange_kexinit C wait)"
  unfolding netnox_ssh_exchange_kexinit_def
  by (intro ks.always_rules ks_build_kexinit ks_send_packet ks_recv_packet ks_perform assms kex_sound_set)
    (simp_all add: session_part_def)

lemma ks_wait: "always kex_sound (netnox_ssh_wait_for_message C fuel a b m)"
proof (induction fuel arbitrary: a b m)
  case (Suc fuel)
  have "always kex_sound (wait_loop C (netnox_ssh_handle_server_kexinit C (netnox_ssh_wait_for_message C fuel)) a b m i)" for i
    by (induction i) (auto intro!: ks.always_rules ks_recv_packet ks_handle Suc)
  then show ?case by simp
qed (simp add: always_def ks.refl)


section \<open>The order of a session\<close>

text \<open>Each stage of a session presupposes the one before.\<close>

definition session_order :: "netnox_ssh_client_t \<Rightarrow> bool" where
  "session_order c \<longleftrightarrow> (channel_open c \<longrightarrow> connection_service_ready c) \<and>
     (connection_service_ready c \<longrightarrow> authenticated c) \<and> (authenticated c \<longrightarrow> userauth_service_ready c) \<and>
     (userauth_service_ready c \<longrightarrow> key_exchange_complete c) \<and>
     (key_exchange_complete c \<longrightarrow> kexinit_exchanged c) \<and> (kexinit_exchanged c \<longrightarrow> connected c)"

lemmas session_simps = kex_sound_def kex_only_def session_order_def session_part_def

lemma session_order_kex: "kex_sound c c' \<Longrightarrow> connected c \<Longrightarrow> session_order c \<Longrightarrow> session_order c'"
  by (auto simp: kex_sound_def kex_only_def session_order_def session_part_def)

lemma kex_sound_part: "kex_sound c c' \<Longrightarrow> connected c' = connected c" "kex_sound c c' \<Longrightarrow> authenticated c' = authenticated c"
  "kex_sound c c' \<Longrightarrow> userauth_service_ready c' = userauth_service_ready c"
  "kex_sound c c' \<Longrightarrow> connection_service_ready c' = connection_service_ready c"
  "kex_sound c c' \<Longrightarrow> channel_open c' = channel_open c"
  "kex_sound c c' \<Longrightarrow> key_exchange_complete c \<Longrightarrow> key_exchange_complete c'"
  by (auto simp: kex_sound_def kex_only_def session_part_def)

lemma ks_send_built: "always kex_sound (send_built C n fs)"
  unfolding send_built_def by (intro ks.always_rules ks_dep ks_send_packet)

lemma ks_service_request: "always kex_sound (netnox_ssh_send_service_request C svc)"
  unfolding netnox_ssh_send_service_request_def by (rule ks_send_built)

lemma ks_negotiate: "(\<And>a b m. always kex_sound (wait a b m)) \<Longrightarrow> always kex_sound (negotiate_service C wait svc)"
  unfolding negotiate_service_def case_prod_beta by (intro ks.always_rules ks_service_request)

lemma ks_publickey: "always kex_sound (netnox_ssh_send_userauth_publickey_ed25519 C)"
  unfolding netnox_ssh_send_userauth_publickey_ed25519_def requireM_def
  by (intro ks.always_rules ks_dep ks_send_packet)

lemma ks_password: "always kex_sound (netnox_ssh_send_userauth_password C)"
  unfolding netnox_ssh_send_userauth_password_def by (rule ks_send_built)

lemma ks_await: "(\<And>a b m. always kex_sound (wait a b m)) \<Longrightarrow> always kex_sound (await_channel_success wait)"
  unfolding await_channel_success_def by (intro ks.always_rules)


section \<open>Waiting for a message\<close>

text \<open>A message that a wait returns was the last one received, over a context the wait left sound.\<close>

definition answered :: "noxtls \<Rightarrow> netnox_ssh_client_t \<Rightarrow> byte \<Rightarrow> byte \<Rightarrow> bytes \<Rightarrow> netnox_ssh_client_t \<Rightarrow> bool" where
  "answered C c a b p t \<longleftrightarrow> p \<noteq> [] \<and> (hd p = a \<or> hd p = b) \<and>
     (\<exists>c0. kex_sound c c0 \<and> netnox_ssh_recv_packet C 35000 c0 = (Ok p, t))"

lemma answered_trans: "kex_sound c c1 \<Longrightarrow> answered C c1 a b p t \<Longrightarrow> answered C c a b p t"
  unfolding answered_def by (meson ks.trans)

lemma wait_loop_answered:
  assumes "\<And>p. always kex_sound (rekey p)"
  shows "wait_loop C rekey a b m i c = (Ok p, t) \<Longrightarrow> answered C c a b p t"
proof (induction i arbitrary: c)
  case (Suc i)
  then obtain q c1 where q: "netnox_ssh_recv_packet C 35000 c = (Ok q, c1)"
    and rest: "(if q = [] then wait_loop C rekey a b m i
      else if hd q = 20 then bindM (checkedM NETNOX_RETURN_FAILED (rekey q)) (\<lambda>_. wait_loop C rekey a b m i)
      else if hd q = a \<or> hd q = b then if u32len q > m then throwM NETNOX_RETURN_FAILED else retM q
      else wait_loop C rekey a b m i) c1 = (Ok p, t)"
    by (auto simp: bindM_Ok checkedM_Ok)
  have c1: "kex_sound c c1" using alwaysD [OF ks_recv_packet q] .
  consider "\<exists>c2. kex_sound c1 c2 \<and> wait_loop C rekey a b m i c2 = (Ok p, t)"
    | "q \<noteq> []" "hd q = a \<or> hd q = b" "p = q" "t = c1"
    using rest ks.refl [of c1] by (auto simp: res_iff split: if_splits dest: alwaysD [OF assms])
  then show ?case
  proof cases
    case 1
    then show ?thesis using Suc.IH c1 by (blast intro: answered_trans)
  next
    case 2
    then show ?thesis using q ks.refl by (auto simp: answered_def)
  qed
qed (simp add: throwM_def)

lemma wait_answered: "netnox_ssh_wait_for_message C fuel a b m c = (Ok p, t) \<Longrightarrow> answered C c a b p t"
  by (cases fuel) (simp_all add: wait_loop_answered [OF ks_handle [OF ks_wait]])

definition said_yes :: "noxtls \<Rightarrow> netnox_ssh_client_t \<Rightarrow> bool" where
  "said_yes C t \<longleftrightarrow> (\<exists>c0 p t0. key_exchange_complete c0 \<and> netnox_ssh_recv_packet C 35000 c0 = (Ok p, t0) \<and>
     p \<noteq> [] \<and> hd p = 52 \<and> t = t0\<lparr>authenticated := True\<rparr>)"

lemma said_yesI: "answered C c 52 b p t \<Longrightarrow> hd p = 52 \<Longrightarrow> key_exchange_complete c \<Longrightarrow> said_yes C (t\<lparr>authenticated := True\<rparr>)"
  unfolding answered_def said_yes_def using kex_sound_part(6) by blast

text \<open>A waiting function, as far as the session is concerned.\<close>

locale session_waiter =
  fixes C :: noxtls and wait :: waiter
  assumes wait_sound: "always kex_sound (wait a b m)"
    and wait_answers: "wait a b m c = (Ok p, t) \<Longrightarrow> answered C c a b p t"
begin

lemma wp_wait:
  "(\<And>p t. kex_sound c t \<Longrightarrow> answered C c a b p t \<Longrightarrow> Q p t) \<Longrightarrow> (\<And>t. kex_sound c t \<Longrightarrow> E t) \<Longrightarrow> wp (wait a b m) Q E c"
  unfolding wp_def using wait_sound [of a b m] wait_answers [of a b m c]
  by (cases "wait a b m c", cases "fst (wait a b m c)") (auto dest: alwaysD)

lemma wp_result:
  assumes "session_order c" and "userauth_service_ready c"
  shows "wp (netnox_ssh_wait_userauth_result wait)
    (\<lambda>_ t. session_order t \<and> userauth_service_ready t \<and> authenticated t \<and> said_yes C t)
    (\<lambda>t. session_order t \<and> userauth_service_ready t \<and> authenticated t = authenticated c) c"
  unfolding netnox_ssh_wait_userauth_result_def
  by (intro wp_rules wp_wait) (use assms in \<open>auto simp: session_simps intro: said_yesI\<close>)

lemma wp_negotiate_userauth:
  assumes "session_order c" and "key_exchange_complete c"
  shows "wp (netnox_ssh_negotiate_userauth_service C wait)
    (\<lambda>_ t. session_order t \<and> userauth_service_ready t \<and> authenticated t = authenticated c)
    (\<lambda>t. session_order t \<and> authenticated t = authenticated c) c"
  unfolding netnox_ssh_negotiate_userauth_service_def
  by (intro wp_rules wp_always [OF ks_negotiate [OF wait_sound]]) (use assms in \<open>auto simp: session_simps\<close>)

abbreviation auth_after :: "bool \<Rightarrow> unit res option \<Rightarrow> netnox_ssh_client_t \<Rightarrow> bool" where
  "auth_after before r t \<equiv> session_order t \<and> userauth_service_ready t \<and>
     (if r = Some (Ok ()) then authenticated t \<and> said_yes C t else authenticated t = before)"

lemma wp_attempt:
  assumes "auth_after b None c" and "always kex_sound request"
  shows "wp (attempt wait request) (\<lambda>r. auth_after b (Some r)) (\<lambda>t. session_order t \<and> authenticated t = b) c"
  unfolding attempt_def
proof (rule wp_seq [OF wp_checked [OF wp_always [OF assms(2)]]])
  fix a t
  assume "kex_sound c t"
  with assms have t: "session_order t" "userauth_service_ready t" "authenticated t = b"
    by (auto simp: session_simps)
  show "wp (tryM (netnox_ssh_wait_userauth_result wait)) (\<lambda>r. auth_after b (Some r)) (\<lambda>t. session_order t \<and> authenticated t = b) t"
    by (rule wp_try, rule wp_mono [OF wp_result [OF t(1,2)]]) (use t(3) in auto)
qed (use assms(1) in \<open>auto simp: session_simps\<close>)

lemma wp_userauth_ready:
  assumes "session_order c" and "key_exchange_complete c"
  shows "wp (ifM (\<lambda>c. \<not> userauth_service_ready c) (checkedM NETNOX_RETURN_FAILED
      (netnox_ssh_negotiate_userauth_service C wait)) (retM ()))
    (\<lambda>_. auth_after (authenticated c) None) (\<lambda>t. session_order t \<and> authenticated t = authenticated c) c"
  by (intro wp_ifM wp_checked wp_basic wp_mono [OF wp_negotiate_userauth]) (use assms in auto)

lemma wp_by_key:
  assumes "auth_after b None c"
  shows "wp (ifM has_ed25519_key (bindM (attempt wait (netnox_ssh_send_userauth_publickey_ed25519 C)) (\<lambda>r. retM (Some r))) (retM None))
    (auth_after b) (\<lambda>t. session_order t \<and> authenticated t = b) c"
  by (intro wp_ifM wp_seq [OF wp_attempt [OF assms ks_publickey]] wp_basic) (use assms in auto)

lemma wp_authenticate:
  assumes "session_order c"
  shows "wp (netnox_ssh_client_authenticate C wait)
    (\<lambda>_ t. session_order t \<and> authenticated t \<and> said_yes C t) (\<lambda>t. session_order t \<and> authenticated t = authenticated c) c"
  unfolding netnox_ssh_client_authenticate_def
  by (intro wp_guard wp_seq [OF wp_userauth_ready] wp_seq [OF wp_by_key] wp_if wp_basic wp_ifM
      wp_seq [OF wp_attempt [OF _ ks_password]])
    (use assms in auto)

lemma wp_negotiate_connection:
  assumes "session_order c" and "authenticated c"
  shows "wp (ifM (\<lambda>c. \<not> connection_service_ready c) (checkedM NETNOX_RETURN_FAILED
      (netnox_ssh_negotiate_connection_service C wait)) (retM ()))
    (\<lambda>_ t. session_order t \<and> connection_service_ready t) session_order c"
  unfolding netnox_ssh_negotiate_connection_service_def
  by (intro wp_rules wp_always [OF ks_negotiate [OF wait_sound]]) (use assms in \<open>auto simp: session_simps\<close>)

lemma wp_open_session:
  assumes "session_order c"
  shows "wp (netnox_ssh_client_open_session C wait) (\<lambda>_ t. session_order t \<and> channel_open t) session_order c"
  unfolding netnox_ssh_client_open_session_def case_prod_beta netnox_ssh_send_channel_open_session_def
proof (rule wp_guard, rule wp_bind, rule wp_set, rule wp_seq [OF wp_negotiate_connection], goal_cases)
  case (3 u t)
  then show ?case
    by (intro wp_rules wp_always [OF ks_send_built] wp_always [OF wait_sound]) (auto simp: session_simps)
qed (use assms in \<open>auto simp: session_order_def\<close>)

lemma keeps_order:
  "always kex_sound m \<Longrightarrow> session_order c \<Longrightarrow> connected c \<Longrightarrow> wp m (\<lambda>_. session_order) session_order c"
  by (rule wp_always, assumption) (auto intro: session_order_kex)

lemma wp_exec: "session_order c \<Longrightarrow> wp (netnox_ssh_client_exec C wait cmd) (\<lambda>_. session_order) session_order c"
  unfolding netnox_ssh_client_exec_def
  by (rule wp_guard, rule keeps_order, intro ks.always_rules ks_send_built ks_await wait_sound)
    (simp_all add: channel_ready_def)

lemma wp_shell: "session_order c \<Longrightarrow> wp (netnox_ssh_client_request_shell_ex C wait p) (\<lambda>_. session_order) session_order c"
  unfolding netnox_ssh_client_request_shell_ex_def
  by (rule wp_guard, rule keeps_order, intro ks.always_rules ks_send_built ks_await wait_sound)
    (simp_all add: channel_ready_def)

lemma wp_rekey: "session_order c \<Longrightarrow> wp (netnox_ssh_client_rekey C wait) (\<lambda>_. session_order) session_order c"
  unfolding netnox_ssh_client_rekey_def
  by (rule wp_guard, rule keeps_order, intro ks_exchange wait_sound) simp_all

lemma wp_send_data: "session_order c \<Longrightarrow> wp (netnox_ssh_client_send_data C d n) (\<lambda>_. session_order) session_order c"
  unfolding netnox_ssh_client_send_data_def
  by (rule wp_bind, rule wp_fail, assumption, rule wp_guard, rule keeps_order, intro ks_send_built) simp_all

lemma wp_keepalive: "session_order c \<Longrightarrow> wp (netnox_ssh_client_send_keepalive C) (\<lambda>_. session_order) session_order c"
  unfolding netnox_ssh_client_send_keepalive_def
  by (rule wp_guard, rule keeps_order, intro ks_send_built) simp_all

lemma order_io: "session_order c \<Longrightarrow> session_order (c\<lparr>io_user_data := w\<rparr>)"
  by (simp add: session_order_def)

lemma wp_connect_loop: "session_order c \<Longrightarrow> wp (connect_loop C wait i) (\<lambda>_. session_order) session_order c"
proof (induction i arbitrary: c)
  case (Suc i)
  have line: "wp (netnox_ssh_recv_line 256) (\<lambda>_. session_order) session_order c"
    using Suc.prems by (auto simp: netnox_ssh_recv_line_def wp_def prog_defs ioM_def order_io split: prod.splits res.splits)
  show ?case
    unfolding connect_loop.simps
    by (rule wp_seq [OF line], intro wp_bind wp_set wp_if keeps_order [OF ks_exchange [OF wait_sound]] Suc.IH)
      (auto simp: session_order_def)
qed (simp add: wp_throw)

lemma wp_connect: "session_order c \<Longrightarrow> wp (netnox_ssh_client_connect C wait) (\<lambda>_. session_order) session_order c"
  unfolding netnox_ssh_client_connect_def
proof (intro wp_guard, rule wp_seq [OF wp_checked wp_connect_loop])
  show "session_order c \<Longrightarrow> wp (\<lambda>c. netnox_ssh_send_all (ident_line (client_ident c)) c) (\<lambda>_. session_order) session_order c"
    by (auto simp: netnox_ssh_send_all_def wp_def prog_defs ioM_def order_io split: prod.splits res.splits)
qed simp_all

lemma wp_data_packet:
  "session_order c \<Longrightarrow> connected c \<Longrightarrow> wp (recv_data_packet C wait n p) (\<lambda>_ t. session_order t \<and> connected t)
     (\<lambda>t. session_order t \<and> connected t) c"
  unfolding recv_data_packet_def recv_channel_request_def own_channelM_def case_prod_beta
  by (intro wp_rules wp_always [OF ks_handle [OF wait_sound]]) (auto simp: session_simps)

end

interpretation sw: session_waiter C "netnox_ssh_wait_for_message C fuel" for C fuel
  by unfold_locales (rule ks_wait, rule wait_answered)

lemma packet_payload_within: "packet_payload n p m = Ok d \<Longrightarrow> length d \<le> unat m"
  by (auto simp: packet_payload_def Let_def res_iff u32_less_iff split: if_splits)

lemma recv_packet_within: "netnox_ssh_recv_packet C m c = (Ok p, c') \<Longrightarrow> length p \<le> unat m"
  by (auto simp: netnox_ssh_recv_packet_def recv_plain_packet_def res_iff dest: packet_payload_within split: if_splits)

text \<open>An invariant of the rounds of \<open>recv_data\<close>.\<close>

lemma wp_recv_data_loop:
  assumes recv: "\<And>c. I c \<Longrightarrow> wp (netnox_ssh_recv_packet C 35000) (\<lambda>_. I) E c"
    and round: "\<And>c p. I c \<Longrightarrow> p \<noteq> [] \<Longrightarrow> length p \<le> 35000 \<Longrightarrow> wp (recv_data_packet C (netnox_ssh_wait_for_message C fuel) n p)
      (\<lambda>r t. case r of Some d \<Rightarrow> Q d t | None \<Rightarrow> I t) E c"
  shows "I c \<Longrightarrow> wp (recv_data_loop C fuel n) Q E c"
proof (induction "length (rx_of c)" arbitrary: c rule: less_induct)
  case less
  let ?recv = "checkedM NETNOX_RETURN_FAILED (netnox_ssh_recv_packet C 35000)"
  let ?handle = "recv_data_packet C (netnox_ssh_wait_for_message C fuel) n"
  show ?case
  proof (rule wp_cong [OF recv_data_loop.simps], rule wp_step [OF wp_checked [OF recv [OF less.prems]]])
    fix p t
    assume run: "?recv c = (Ok p, t)" and t: "I t"
    have shorter: "length (rx_of t) < length (rx_of c)"
      using run consumes_recv_packet by (simp add: consumes_def checkedM_Ok)
    show "wp (\<lambda>c1. if p = [] then recv_data_loop C fuel n c1 else bindM (?handle p) (\<lambda>r c2.
        case r of None \<Rightarrow> recv_data_loop C fuel n c2 | Some d \<Rightarrow> retM d c2) c1) Q E t"
    proof (cases "p = []")
      case True
      then show ?thesis using less.hyps [OF shorter t] by simp
    next
      case False
      have "length p \<le> 35000" using run recv_packet_within [of C 35000 c p t] by (simp add: checkedM_Ok)
      note round' = round [OF t False this]
      have "wp (bindM (?handle p) (\<lambda>r c2. case r of None \<Rightarrow> recv_data_loop C fuel n c2 | Some d \<Rightarrow> retM d c2)) Q E t"
      proof (rule wp_step [OF round'])
        fix r u
        assume r: "?handle p t = (Ok r, u)" "case r of Some d \<Rightarrow> Q d u | None \<Rightarrow> I u"
        have "length (rx_of u) \<le> length (rx_of t)"
          using alwaysD [OF always_recv_data_packet [OF always_wait] r(1)] by (rule ctx_step_unread)
        then show "wp (\<lambda>c2. case r of None \<Rightarrow> recv_data_loop C fuel n c2 | Some d \<Rightarrow> retM d c2) Q E u"
          using r(2) less.hyps [of u] shorter by (cases r) (simp_all add: wp_ret)
      qed
      then show ?thesis using False by simp
    qed
  qed
qed

lemma wp_recv_data:
  "session_order c \<Longrightarrow> wp (netnox_ssh_client_recv_data C fuel n) (\<lambda>_. session_order) session_order c"
  unfolding netnox_ssh_client_recv_data_def
  by (rule wp_bind, rule wp_fail, assumption, rule wp_guard,
      rule wp_recv_data_loop [where I = "\<lambda>c. session_order c \<and> connected c"],
      rule wp_always [OF ks_recv_packet])
    (auto simp: session_simps intro!: wp_mono [OF sw.wp_data_packet [unfolded session_simps]] split: option.split)

section \<open>Everything fits into its array\<close>

text \<open>The sizes of the arrays of \<open>netnox_ssh_client_t\<close>; strings leave room for their NUL and contain none.\<close>

definition c_string :: "nat \<Rightarrow> bytes \<Rightarrow> bool" where
  "c_string n d \<longleftrightarrow> length d < n \<and> 0 \<notin> set d"

definition client_fits :: "netnox_ssh_client_t \<Rightarrow> bool" where
  "client_fits c \<longleftrightarrow> c_string 256 (client_ident c) \<and> c_string 256 (server_ident c) \<and> c_string 65 (username c) \<and>
     c_string 256 (host c) \<and> c_string 129 (password c) \<and> length (kexinit_client_payload c) \<le> 32768 \<and>
     length (kexinit_server_payload c) \<le> 32768 \<and> length (server_host_key_blob c) \<le> 2048 \<and>
     length (pending_newkeys c) \<le> 32 \<and> length (ed25519_private_key c) = 32 \<and>
     length (c2s_iv c) = 16 \<and> length (s2c_iv c) = 16 \<and> length (c2s_key c) = 16 \<and> length (s2c_key c) = 16 \<and>
     length (c2s_mac_key c) = 32 \<and> length (s2c_mac_key c) = 32 \<and>
     length (c2s_counter c) = 16 \<and> length (s2c_counter c) = 16"

lemma store_within: "store b cap d = Ok q \<Longrightarrow> length q \<le> unat cap"
  by (auto simp: store_def int_le_u32 [symmetric] split: if_splits)

lemma append_all_app: "append_all cap (xs @ ys) p = bindR (append_all cap xs p) (append_all cap ys)"
  by (induction xs arbitrary: p) (auto simp: bindR_assoc fun_eq_iff intro: arg_cong [where f = "bindR _"])

lemma kexinit_within: "append_all cap (kexinit_fields ls) p = Ok q \<Longrightarrow> length q \<le> unat cap"
  by (auto simp: kexinit_fields_def append_all_app append_kexinit_trailer_def res_iff split: if_splits dest: store_within)

lemma derive_more_length: "derive_more C u k s sl n out = Ok d \<Longrightarrow> length out \<le> n \<Longrightarrow> length d = n"
  by (induction C u k s sl n out rule: derive_more.induct, subst (asm) (2) derive_more.simps)
    (auto simp: res_iff simp del: append_all.simps split: if_splits)

lemma derive_block_length: "netnox_ssh_derive_key_block C c x n = Ok d \<Longrightarrow> length d = unat n"
  by (auto simp: netnox_ssh_derive_key_block_def Let_def res_iff simp del: append_all.simps split: if_splits dest!: derive_more_length)

lemmas fits_simps = client_fits_def c_string_def

lemma fits_io: "always (maintains client_fits) (ioM f)"
  by (rule alwaysI) (auto simp: maintains_def ioM_def fits_simps split: prod.splits)

lemma fits_crypto: "always (maintains client_fits) (aesM C d x)" "always (maintains client_fits) (macM C d n x)"
  by (simp_all add: always_def maintains_def read_only_crypto)

lemma fits_send_all: "always (maintains client_fits) (netnox_ssh_send_all d)"
  unfolding netnox_ssh_send_all_def by (intro mt.always_rules fits_io)

lemma fits_recv_exact: "always (maintains client_fits) (netnox_ssh_recv_exact n room)"
  unfolding netnox_ssh_recv_exact_def by (intro mt.always_rules fits_io)

lemma fits_send_packet: "always (maintains client_fits) (netnox_ssh_send_packet C p)"
  unfolding netnox_ssh_send_packet_def seal_packet_def send_sealed_def case_prod_beta Let_def count_sent_def advanceM_def
  by (intro mt.always_rules fits_io fits_send_all fits_crypto mt_set) (simp_all add: fits_simps c2s_def)

lemma fits_recv_packet: "always (maintains client_fits) (netnox_ssh_recv_packet C m)"
  unfolding netnox_ssh_recv_packet_def recv_unfold
  by (intro mt.always_rules fits_io fits_recv_exact fits_crypto mt_set) (simp_all add: fits_simps s2c_def)

lemma wp_recv_fits:
  "client_fits c \<Longrightarrow> wp (netnox_ssh_recv_packet C m) (\<lambda>p t. length p \<le> unat m \<and> client_fits t) client_fits c"
  using wp_mt [OF fits_recv_packet, of c C m] recv_packet_within [of C m c]
  by (auto simp: wp_def split: prod.splits res.splits)

lemma wp_build_kexinit:
  "client_fits c \<Longrightarrow> wp (netnox_ssh_build_kexinit_payload n) (\<lambda>p t. length p \<le> unat n \<and> client_fits t) client_fits c"
  unfolding netnox_ssh_build_kexinit_payload_def
  by (intro wp_rules wp_always [OF fits_io]) (auto simp: maintains_def dest: kexinit_within)

lemma fits_derive_into:
  "(\<And>d c. length d = unat n \<Longrightarrow> client_fits c \<Longrightarrow> client_fits (put d c)) \<Longrightarrow>
   always (maintains client_fits) (derive_into C x n put)"
  unfolding derive_into_def
  by (rule mt_wp, intro wp_rules) (auto simp: res_iff dest: derive_block_length)

lemma fits_derive_keys: "always (maintains client_fits) (netnox_ssh_derive_transport_keys C)"
  unfolding netnox_ssh_derive_transport_keys_def
  by (intro mt.always_rules mt_set fits_derive_into) (simp_all add: fits_simps)

lemma parse_reply_hk: "parse_ecdh_reply r = Ok (hk, pub, sig) \<Longrightarrow> unat (snd hk) \<le> 2048"
  by (auto simp: parse_ecdh_reply_def res_iff u32_less_iff split: if_splits)

lemma fits_accept: "always (maintains client_fits) (accept_ecdh_reply C priv pub r)"
  unfolding accept_ecdh_reply_def case_prod_beta
  by (rule mt_wp, intro wp_rules)
    (auto simp: fits_simps res_iff dest!: parse_reply_hk)


lemma fits_perform:
  assumes "\<And>a b m. always (maintains client_fits) (wait a b m)"
  shows "always (maintains client_fits) (netnox_ssh_perform_curve25519_kex C wait)"
  unfolding netnox_ssh_perform_curve25519_kex_def case_prod_beta keygenM_def
  by (intro mt.always_rules fits_io fits_send_packet fits_accept fits_derive_keys assms mt_set)
    (simp add: fits_simps)

lemma u32len_bound: "length d \<le> 35000 \<Longrightarrow> \<not> 32768 < u32len d \<Longrightarrow> length d \<le> 32768"
  by (simp add: u32_less_iff unat_u32len)

lemma fits_handle:
  assumes "\<And>a b m. always (maintains client_fits) (wait a b m)" and "length p \<le> 35000"
  shows "always (maintains client_fits) (netnox_ssh_handle_server_kexinit C wait p)"
  unfolding netnox_ssh_handle_server_kexinit_def
  by (rule mt_wp, intro wp_bind wp_fail wp_checked wp_lift wp_set wp_mono [OF wp_build_kexinit] wp_mt [OF fits_send_packet]
      wp_mt [OF fits_perform [OF assms(1)]] wp_mono [OF wp_mt [OF fits_send_packet]])
    (use assms(2) in \<open>auto simp: fits_simps dest: u32len_bound\<close>)

lemma fits_exchange:
  assumes "\<And>a b m. always (maintains client_fits) (wait a b m)"
  shows "always (maintains client_fits) (netnox_ssh_exchange_kexinit C wait)"
  unfolding netnox_ssh_exchange_kexinit_def
  by (rule mt_wp, intro wp_bind wp_fail wp_ifM wp_ret wp_throw wp_checked wp_lift wp_set wp_mono [OF wp_build_kexinit] wp_mono [OF wp_recv_fits]
      wp_mt [OF fits_perform [OF assms(1)]] wp_mono [OF wp_mt [OF fits_send_packet]])
    (auto simp: fits_simps dest: u32len_bound)

lemma fits_wait: "always (maintains client_fits) (netnox_ssh_wait_for_message C fuel a b m)"
proof (induction fuel arbitrary: a b m)
  case (Suc fuel)
  note outer = Suc.IH
  have "always (maintains client_fits) (wait_loop C (netnox_ssh_handle_server_kexinit C (netnox_ssh_wait_for_message C fuel)) a b m i)" for i
  proof (induction i)
    case (Suc i)
    then show ?case unfolding wait_loop.simps
      by (intro mt_wp wp_bind wp_checked wp_if wp_mono [OF wp_recv_fits] wp_mono [OF wp_mt [OF fits_handle [OF outer]]])
        (auto intro: wp_mt wp_basic)
  qed (simp add: mt.always_throw)
  then show ?case by simp
qed (simp add: always_def mt.refl)


lemma fits_dep: "always (maintains client_fits) (\<lambda>c. liftM (f c) c)"
  by (simp add: always_def liftM_def mt.refl)

lemma fits_require: "always (maintains client_fits) (requireM ok)"
  unfolding requireM_def by (intro mt.always_rules)

lemma fits_send_built: "always (maintains client_fits) (send_built C n fs)"
  unfolding send_built_def by (intro mt.always_rules fits_dep fits_send_packet)

lemmas fits_rules = mt.always_rules fits_dep fits_require fits_send_built fits_send_packet fits_recv_packet mt_set

lemma recv_line_within: "recv_line_loop g n acc w = (Ok d, w') \<Longrightarrow> length d \<le> length acc + n"
proof (induction g n acc w rule: recv_line_loop.induct)
  case (1 g n acc w)
  show ?case
  proof (cases "n = 0")
    case True
    then show ?thesis using "1.prems" by (subst (asm) recv_line_loop.simps) (auto split: prod.splits res.splits)
  next
    case False
    from "1.prems" False obtain w1 ch w2 where p: "pass g w = (True, w1)" and r: "transport_recv 1 w1 = (Some ch, w2)"
      and l: "(if ch = [10] then (Ok acc, w2) else if ch = [13] then recv_line_loop g n acc w2
        else recv_line_loop g (n - 1) (acc @ ch) w2) = (Ok d, w')"
      by (subst (asm) recv_line_loop.simps) (auto split: prod.splits option.splits if_splits)
    have "length ch \<le> 1" using transport_recv_some [OF r] by simp
    with l "1.IH" [OF False p [symmetric] _ r [symmetric] refl] False show ?thesis
      by (auto split: if_splits)
  qed
qed

lemma c_string_cstr: "length d < n \<Longrightarrow> c_string n (cstr d)"
  by (auto simp: c_string_def cstr_def dest: set_takeWhileD intro: le_less_trans [OF length_takeWhile_le])

lemma copy_string_fits: "netnox_ssh_copy_string n src = Ok d \<Longrightarrow> c_string (unat n) d"
proof -
  assume ok: "netnox_ssh_copy_string n src = Ok d"
  then have n: "n \<noteq> 0" "d = cstr src" "length d \<le> unat (n - 1)"
    by (auto simp: netnox_ssh_copy_string_def split: if_splits)
  then have "unat (n - 1) = unat n - 1" "0 < unat n" by (simp_all add: unat_minus_one unat_gt_0)
  with n show ?thesis by (auto simp: c_string_def cstr_def dest: set_takeWhileD)
qed

locale fitting_waiter =
  fixes C :: noxtls and wait :: waiter
  assumes wait_fits: "always (maintains client_fits) (wait a b m)"
begin

lemma fits_negotiate: "always (maintains client_fits) (negotiate_service C wait svc)"
  unfolding negotiate_service_def netnox_ssh_send_service_request_def case_prod_beta
  by (intro fits_rules wait_fits)

lemma fits_authenticate: "always (maintains client_fits) (netnox_ssh_client_authenticate C wait)"
  unfolding netnox_ssh_client_authenticate_def attempt_def netnox_ssh_wait_userauth_result_def
    netnox_ssh_negotiate_userauth_service_def netnox_ssh_send_userauth_publickey_ed25519_def netnox_ssh_send_userauth_password_def
  by (intro fits_rules fits_negotiate wait_fits) (simp_all add: fits_simps)

lemma fits_open_session: "always (maintains client_fits) (netnox_ssh_client_open_session C wait)"
  unfolding netnox_ssh_client_open_session_def netnox_ssh_negotiate_connection_service_def
    netnox_ssh_send_channel_open_session_def case_prod_beta
  by (intro fits_rules fits_negotiate wait_fits) (simp_all add: fits_simps)

lemma fits_requests: "always (maintains client_fits) (netnox_ssh_client_exec C wait cmd)"
  "always (maintains client_fits) (netnox_ssh_client_request_shell_ex C wait p)"
  unfolding netnox_ssh_client_exec_def netnox_ssh_client_request_shell_ex_def await_channel_success_def
  by (intro fits_rules wait_fits)+

lemma fits_rekey: "always (maintains client_fits) (netnox_ssh_client_rekey C wait)"
  unfolding netnox_ssh_client_rekey_def by (intro fits_rules fits_exchange wait_fits)

lemma fits_connect_loop: "always (maintains client_fits) (connect_loop C wait i)"
proof (induction i)
  case (Suc i)
  have line: "wp (netnox_ssh_recv_line 256) (\<lambda>l t. client_fits t \<and> length l \<le> 255) client_fits c" if "client_fits c" for c
    using that by (auto simp: netnox_ssh_recv_line_def wp_def prog_defs ioM_def fits_simps split: prod.splits res.splits dest: recv_line_within)
  show ?case unfolding connect_loop.simps
    by (intro mt_wp wp_bind wp_set wp_if wp_mono [OF line] wp_mt [OF Suc.IH] wp_mt [OF fits_exchange [OF wait_fits]])
      (auto simp: client_fits_def intro: c_string_cstr)
qed (simp add: mt.always_throw)

lemma fits_connect: "always (maintains client_fits) (netnox_ssh_client_connect C wait)"
proof -
  have "always (maintains client_fits) (\<lambda>c. netnox_ssh_send_all (ident_line (client_ident c)) c)"
    using fits_send_all by (simp add: always_def)
  then show ?thesis unfolding netnox_ssh_client_connect_def by (intro fits_rules fits_connect_loop)
qed

lemma fits_data_packet: "length p \<le> 35000 \<Longrightarrow> always (maintains client_fits) (recv_data_packet C wait n p)"
  unfolding recv_data_packet_def recv_channel_request_def own_channelM_def case_prod_beta
  by (intro fits_rules fits_handle wait_fits) (simp_all add: fits_simps)

end

interpretation fw: fitting_waiter C "netnox_ssh_wait_for_message C fuel" for C fuel
  by unfold_locales (rule fits_wait)


lemma fits_recv_data: "always (maintains client_fits) (netnox_ssh_client_recv_data C fuel n)"
  unfolding netnox_ssh_client_recv_data_def
  by (intro fits_rules mt_wp wp_recv_data_loop [where I = client_fits] wp_mt [OF fits_recv_packet])
    (auto intro!: wp_mono [OF wp_mt [OF fw.fits_data_packet]] split: option.split)


section \<open>Sequences of calls\<close>

datatype client_call = Init nat u16 | Set_io_callbacks bool bool world | Set_identification bytes
  | Set_target bytes bytes | Set_password bytes | Set_private_key bytes | Connect | Authenticate
  | Open_session | Exec bytes | Request_shell byte | Send_data bytes u32 | Keepalive | Rekey
  | Recv_data u32 | Close

fun perform :: "noxtls \<Rightarrow> nat \<Rightarrow> client_call \<Rightarrow> (netnox_ssh_client_t, unit) prog" where
  "perform C fuel (Init itf_ptr port_no) = netnox_ssh_client_init itf_ptr port_no"
| "perform C fuel (Set_io_callbacks s r w) = set_io_callbacks s r w"
| "perform C fuel (Set_identification d) = netnox_ssh_client_set_identification d"
| "perform C fuel (Set_target u h) = netnox_ssh_client_set_target u h"
| "perform C fuel (Set_password p) = netnox_ssh_client_set_password p"
| "perform C fuel (Set_private_key k) = netnox_ssh_client_set_ed25519_private_key C k"
| "perform C fuel Connect = netnox_ssh_client_connect C (netnox_ssh_wait_for_message C fuel)"
| "perform C fuel Authenticate = netnox_ssh_client_authenticate C (netnox_ssh_wait_for_message C fuel)"
| "perform C fuel Open_session = netnox_ssh_client_open_session C (netnox_ssh_wait_for_message C fuel)"
| "perform C fuel (Exec cmd) = netnox_ssh_client_exec C (netnox_ssh_wait_for_message C fuel) cmd"
| "perform C fuel (Request_shell p) = netnox_ssh_client_request_shell_ex C (netnox_ssh_wait_for_message C fuel) p"
| "perform C fuel (Send_data d n) = netnox_ssh_client_send_data C d n"
| "perform C fuel Keepalive = netnox_ssh_client_send_keepalive C"
| "perform C fuel Rekey = netnox_ssh_client_rekey C (netnox_ssh_wait_for_message C fuel)"
| "perform C fuel (Recv_data n) = bindM (netnox_ssh_client_recv_data C fuel n) (\<lambda>_. retM ())"
| "perform C fuel Close = netnox_ssh_client_close"

text \<open>
  The contexts a program can get by initialising a client, calling its operations in any order with any
  arguments, whatever they return, and letting the peer and the network do anything in between.
\<close>

inductive reachable :: "noxtls \<Rightarrow> netnox_ssh_client_t \<Rightarrow> bool" for C where
  created: "netnox_ssh_client_init itf_ptr port_no c = (r, c') \<Longrightarrow> reachable C c'"
| called: "reachable C c \<Longrightarrow> perform C fuel call c = (r, c') \<Longrightarrow> r \<noteq> Fault \<Longrightarrow> r \<noteq> Hang \<Longrightarrow> reachable C c'"
| network: "reachable C c \<Longrightarrow> reachable C (c\<lparr>io_user_data := w\<rparr>)"

lemma init_context:
  "netnox_ssh_client_init i p c = (r, c') \<Longrightarrow>
   c' = zero_client\<lparr>itf := i, port := if p = 0 then 22 else p, client_ident := ascii ''SSH-2.0-noxssh_0.1''\<rparr>"
  by (auto simp: netnox_ssh_client_init_def bindM_def setM_def liftM_def sample_ident_lengths)

lemma order_init: "netnox_ssh_client_init i p c = (r, c') \<Longrightarrow> session_order c'"
  by (drule init_context) (simp add: session_order_def sample_fields)

lemma wp_perform_order: "session_order c \<Longrightarrow> wp (perform C fuel call) (\<lambda>_. session_order) session_order c"
proof (cases call)
  case (Init i p)
  then show ?thesis using order_init [of i p c]
    by (auto simp: wp_def split: prod.splits res.splits)
next
  case (Set_io_callbacks s r w)
  assume "session_order c"
  then show ?thesis by (simp add: Set_io_callbacks set_io_callbacks_def wp_set session_order_def)
next
  case (Set_private_key k)
  assume "session_order c"
  then show ?thesis
    by (auto simp: Set_private_key netnox_ssh_client_set_ed25519_private_key_def session_order_def
        split: option.split intro!: wp_bind wp_lift wp_set wp_throw)
next
  case Authenticate
  assume "session_order c"
  then show ?thesis unfolding Authenticate perform.simps by (rule wp_mono [OF sw.wp_authenticate]) simp_all
next
  case Open_session
  assume "session_order c"
  then show ?thesis unfolding Open_session perform.simps by (rule wp_mono [OF sw.wp_open_session]) simp_all
next
  case (Recv_data n)
  assume "session_order c"
  then show ?thesis unfolding Recv_data perform.simps by (rule wp_seq [OF wp_recv_data wp_ret]) simp_all
next
  case Close
  then show ?thesis by (simp add: netnox_ssh_client_close_def wp_set session_order_def)
qed (simp_all add: sw.wp_connect sw.wp_exec sw.wp_shell sw.wp_send_data sw.wp_keepalive sw.wp_rekey
  netnox_ssh_client_set_identification_def netnox_ssh_client_set_target_def netnox_ssh_client_set_password_def
  session_order_def wp_bind wp_lift wp_set)


lemma fits_init: "netnox_ssh_client_init i p c = (r, c') \<Longrightarrow> client_fits c'"
  by (drule init_context) (simp add: fits_simps sample_fields ascii_def)


lemma fits_transfers: "always (maintains client_fits) (netnox_ssh_client_send_data C d n)"
  "always (maintains client_fits) (netnox_ssh_client_send_keepalive C)"
  unfolding netnox_ssh_client_send_data_def netnox_ssh_client_send_keepalive_def by (intro fits_rules)+

lemma fits_setters: "always (maintains client_fits) (netnox_ssh_client_set_identification d)"
  "always (maintains client_fits) (netnox_ssh_client_set_target u h)"
  "always (maintains client_fits) (netnox_ssh_client_set_password p)"
  "always (maintains client_fits) (netnox_ssh_client_set_ed25519_private_key C k)"
  "always (maintains client_fits) (set_io_callbacks s r w)" "always (maintains client_fits) netnox_ssh_client_close"
  unfolding netnox_ssh_client_set_identification_def netnox_ssh_client_set_target_def netnox_ssh_client_set_password_def
    netnox_ssh_client_set_ed25519_private_key_def set_io_callbacks_def netnox_ssh_client_close_def
  by (rule mt_wp, auto simp: fits_simps res_iff split: option.split
      dest!: copy_string_fits intro!: wp_bind wp_lift wp_set wp_throw)+

lemma fits_perform_call: "always (maintains client_fits) (perform C fuel call)"
proof (cases call)
  case (Init i p)
  then show ?thesis using fits_init by (auto intro!: alwaysI simp: maintains_def)
next
  case (Recv_data n)
  show ?thesis unfolding Recv_data perform.simps by (intro fits_rules fits_recv_data)
qed (simp_all add: fits_setters fits_transfers fw.fits_connect fw.fits_authenticate fw.fits_open_session fw.fits_requests fw.fits_rekey)

section \<open>Receiving data\<close>

lemma halts_data_packet:
  "(\<And>a b m. halts n (wait a b m)) \<Longrightarrow> halts n (recv_data_packet C wait len p)"
  unfolding recv_data_packet_def recv_channel_request_def own_channelM_def case_prod_beta
  by (intro halts_rules halts_handle_kexinit) (auto simp: hang_iff u32_at_def deliver_data_def)

lemma recv_data_loop_halts: "length (rx_of c) < fuel \<Longrightarrow> fst (recv_data_loop C fuel len c) \<noteq> Hang"
proof (induction "length (rx_of c)" arbitrary: c rule: less_induct)
  case less
  let ?recv = "checkedM NETNOX_RETURN_FAILED (netnox_ssh_recv_packet C 35000)"
  let ?handle = "recv_data_packet C (netnox_ssh_wait_for_message C fuel) len"
  obtain r t where run: "?recv c = (r, t)" by (cases "?recv c")
  have "halts fuel ?recv" by (intro halts_checked halts_recv_packet)
  then have nh: "r \<noteq> Hang" using run less.prems by (auto simp: halts_def dest!: spec [of _ c])
  show ?case
  proof (cases r)
    case (Ok p)
    have shorter: "length (rx_of t) < length (rx_of c)"
      using run Ok consumes_recv_packet by (simp add: consumes_def checkedM_Ok)
    obtain q u where h: "?handle p t = (q, u)" by (cases "?handle p t")
    have "halts fuel (?handle p)" by (intro halts_data_packet halts_wait)
    then have "q \<noteq> Hang" using h shorter less.prems by (auto simp: halts_def dest!: spec [of _ t])
    moreover have "length (rx_of u) \<le> length (rx_of t)"
      using alwaysD [OF always_recv_data_packet [OF always_wait] h] by (rule ctx_step_unread)
    ultimately show ?thesis
      using less.hyps [of t] less.hyps [of u] shorter less.prems run h Ok
      by (subst recv_data_loop.simps) (cases q, auto simp: bindM_def retM_def split: option.split)
  qed (use run nh in \<open>subst recv_data_loop.simps, simp add: bindM_def\<close>)+
qed

lemma unat_smaller: "unat (if n < m then n else m) = min (unat n) (unat (m :: u32))"
  by (simp add: word_less_nat_alt min_def)

lemma deliver_within: "deliver_data p off n = Ok (Some d) \<Longrightarrow> length d \<le> unat n"
  by (auto simp: deliver_data_def res_iff unat_smaller simp del: if_split)

lemma deliver_some: "deliver_data p off n \<noteq> Ok None"
  by (auto simp: deliver_data_def res_iff)

lemma data_packet_within:
  "wp (recv_data_packet C wait n p) (\<lambda>r t. case r of Some d \<Rightarrow> length d \<le> unat n | None \<Rightarrow> True) (\<lambda>_. True) c"
  unfolding recv_data_packet_def recv_channel_request_def own_channelM_def case_prod_beta
  by (intro wp_rules wp_always [where R = "\<lambda>_ _. True"])
    (auto simp: always_def deliver_some split: option.split dest: deliver_within)


lemma recv_data_within:
  "wp (netnox_ssh_client_recv_data C fuel n) (\<lambda>d t. length d \<le> unat n) (\<lambda>_. True) c"
  unfolding netnox_ssh_client_recv_data_def
  by (intro wp_bind wp_fail wp_require wp_recv_data_loop [where I = "\<lambda>_. True"] wp_always [where R = "\<lambda>_ _. True"] data_packet_within [THEN wp_mono])
    (auto simp: always_def)

section \<open>Properties\<close>

text \<open>C13: Every context that a program can reach by calling the operations of the client, in whatever order and with
  whatever results, respects the order of a session: an open channel presupposes an accepted
  \<open>ssh-connection\<close> service, this an authenticated user, this an accepted \<open>ssh-userauth\<close> service, this a
  completed key exchange, this an exchange of KEXINIT, and this an identified server.\<close>

theorem client_session_order:
  assumes "reachable C c"
  shows "(channel_open c \<longrightarrow> connection_service_ready c) \<and> (connection_service_ready c \<longrightarrow> authenticated c) \<and>
    (authenticated c \<longrightarrow> userauth_service_ready c) \<and> (userauth_service_ready c \<longrightarrow> key_exchange_complete c) \<and>
    (key_exchange_complete c \<longrightarrow> kexinit_exchanged c) \<and> (kexinit_exchanged c \<longrightarrow> connected c)"
proof -
  from assms have "session_order c"
  proof induction
    case (called c fuel call r c')
    then show ?case by (blast intro: wp_any [OF wp_perform_order])
  qed (erule order_init, simp add: session_order_def)
  then show ?thesis by (simp add: session_order_def)
qed

definition new_client :: netnox_ssh_client_t where
  "new_client = snd (perform toy_noxtls 1 (Set_target (ascii ''nox'') (ascii ''host''))
     (snd (perform toy_noxtls 1 (Set_io_callbacks True True sample_world) (snd (netnox_ssh_client_init 0 0 zero_client)))))"

lemma reachable_Ok:
  "reachable C c \<Longrightarrow> fst (perform C fuel call c) = Ok () \<Longrightarrow> reachable C (snd (perform C fuel call c))"
  by (rule reachable.called [OF _ prod.collapse [symmetric]]) simp_all

lemma new_client_reachable: "reachable toy_noxtls new_client"
proof -
  have "netnox_ssh_copy_string 65 (ascii ''nox'') = Ok (ascii ''nox'')"
    "netnox_ssh_copy_string 256 (ascii ''host'') = Ok (ascii ''host'')" by code_simp+
  then have "fst (perform toy_noxtls 1 (Set_target (ascii ''nox'') (ascii ''host'')) c) = Ok ()"
    "fst (perform toy_noxtls 1 (Set_io_callbacks True True sample_world) c) = Ok ()" for c
    by (simp_all add: netnox_ssh_client_set_target_def set_io_callbacks_def bindM_def liftM_def setM_def)
  moreover have "reachable toy_noxtls (snd (netnox_ssh_client_init 0 0 zero_client))"
    by (rule reachable.created) (rule prod.collapse [symmetric])
  ultimately show ?thesis unfolding new_client_def by (intro reachable_Ok)
qed

theorem client_session_order_witness: "\<not> connected new_client \<and> \<not> authenticated new_client \<and> \<not> channel_open new_client"
proof -
  have "\<not> connected new_client" by code_simp
  with client_session_order [OF new_client_reachable] show ?thesis by blast
qed

text \<open>C15: In every such context each string and message of the client fits into the array the code keeps it in:
  identification lines, user name, host and password with their terminating NUL, both KEXINIT messages, the host
  key, and the keys, counters and initialisation vectors of both directions have their exact sizes.\<close>

theorem client_arrays_fit:
  assumes "reachable C c"
  shows "length (client_ident c) < 256 \<and> length (server_ident c) < 256 \<and> length (username c) < 65 \<and>
    length (host c) < 256 \<and> length (password c) < 129 \<and>
    (\<forall>d \<in> {client_ident c, server_ident c, username c, host c, password c}. 0 \<notin> set d) \<and>
    length (kexinit_client_payload c) \<le> 32768 \<and> length (kexinit_server_payload c) \<le> 32768 \<and>
    length (server_host_key_blob c) \<le> 2048 \<and> length (pending_newkeys c) \<le> 32 \<and>
    length (ed25519_private_key c) = 32 \<and> length (c2s_iv c) = 16 \<and> length (s2c_iv c) = 16 \<and>
    length (c2s_key c) = 16 \<and> length (s2c_key c) = 16 \<and> length (c2s_mac_key c) = 32 \<and>
    length (s2c_mac_key c) = 32 \<and> length (c2s_counter c) = 16 \<and> length (s2c_counter c) = 16"
proof -
  from assms have "client_fits c"
  proof induction
    case (called c fuel call r c')
    then show ?case using alwaysD [OF fits_perform_call] by (auto simp: maintains_def)
  qed (erule fits_init, simp add: client_fits_def)
  then show ?thesis by (simp add: fits_simps)
qed

theorem client_arrays_fit_witness: "length (username new_client) < 65 \<and> length (c2s_counter new_client) = 16"
  using client_arrays_fit [OF new_client_reachable] by simp

text \<open>C14: \<open>authenticate\<close> reports success exactly when it sets \<open>authenticated\<close>, and then because the last message it
  received, over the encrypted transport, is USERAUTH_SUCCESS.\<close>

theorem authenticate_sound:
  assumes "session_order c" and "\<not> authenticated c"
    and "netnox_ssh_client_authenticate C (netnox_ssh_wait_for_message C fuel) c = (r, c')"
  shows "(authenticated c' \<longleftrightarrow> r = Ok ()) \<and>
    (r = Ok () \<longrightarrow> (\<exists>c0 p c1. key_exchange_complete c0 \<and> netnox_ssh_recv_packet C 35000 c0 = (Ok p, c1) \<and>
       p \<noteq> [] \<and> hd p = 52 \<and> c' = c1\<lparr>authenticated := True\<rparr>))"
proof -
  note w = sw.wp_authenticate [OF assms(1), of C fuel]
  show ?thesis
  proof (cases "is_Ok r")
    case True
    then obtain u where "r = Ok u" by (cases r) auto
    with assms(3) wp_Ok [OF w] show ?thesis by (simp add: said_yes_def)
  next
    case False
    then show ?thesis using wp_other [OF w assms(3)] assms(2) by auto
  qed
qed

definition sample_user :: netnox_ssh_client_t where
  "sample_user = (keyed sample_client)\<lparr>username := ascii ''nox'', password := ascii ''secret'', connected := True,
     kexinit_exchanged := True, userauth_service_ready := True\<rparr>"

definition sample_answer :: bytes where
  "sample_answer = tx_of (snd (srv_send_packet toy_noxtls [52] (keyed sample_server)))"

lemma extends_authenticate: "(\<And>a b m. extends (wait a b m) (wait' a b m)) \<Longrightarrow>
    extends (netnox_ssh_client_authenticate C wait) (netnox_ssh_client_authenticate C wait')"
  unfolding netnox_ssh_client_authenticate_def netnox_ssh_negotiate_userauth_service_def negotiate_service_def
    attempt_def netnox_ssh_wait_userauth_result_def case_prod_beta
  by (intro extends_rules) simp_all

lemma sample_login:
  "is_Ok (fst (netnox_ssh_client_authenticate toy_noxtls (direct_wait toy_noxtls) (feed sample_answer sample_user)))"
  by code_simp

theorem authenticate_sound_witness:
  "\<exists>c'. netnox_ssh_client_authenticate toy_noxtls (netnox_ssh_wait_for_message toy_noxtls 1) (feed sample_answer sample_user) =
    (Ok (), c') \<and> authenticated c'"
proof -
  let ?c = "feed sample_answer sample_user"
  obtain u c' where d: "netnox_ssh_client_authenticate toy_noxtls (direct_wait toy_noxtls) ?c = (Ok u, c')"
    using sample_login by (rule is_OkE)
  have run: "netnox_ssh_client_authenticate toy_noxtls (netnox_ssh_wait_for_message toy_noxtls 1) ?c = (Ok (), c')"
    using extends_authenticate [OF extends_direct_wait [of toy_noxtls _ _ _ 0], of toy_noxtls] d by (simp add: extends_def)
  have "session_order ?c" "\<not> authenticated ?c"
    by (simp_all add: session_order_def sample_user_def feed_def sample_client_eq sample_fields)
  from authenticate_sound [OF this run] run show ?thesis by blast
qed

text \<open>C16: \<open>recv_data\<close> returns: with a depth bound above the number of unread bytes its loop over packets, with all key
  exchanges the server starts meanwhile, ends, and never delivers more than the caller's buffer holds.\<close>

theorem recv_data_returns:
  assumes "length (rx_of c) < fuel"
  shows "\<exists>r c'. netnox_ssh_client_recv_data C fuel len c = (r, c') \<and> r \<noteq> Hang \<and> (\<forall>d. r = Ok d \<longrightarrow> length d \<le> unat len)"
proof -
  obtain r c' where run: "netnox_ssh_client_recv_data C fuel len c = (r, c')"
    by (cases "netnox_ssh_client_recv_data C fuel len c")
  have "r \<noteq> Hang"
    using run recv_data_loop_halts [OF assms, of C len]
    by (auto simp: netnox_ssh_client_recv_data_def bindM_def failM_def throwM_def retM_def requireM_run split: if_splits)
  moreover have "\<forall>d. r = Ok d \<longrightarrow> length d \<le> unat len"
    using run wp_Ok [OF recv_data_within] by blast
  ultimately show ?thesis using run by blast
qed

theorem recv_data_returns_witness:
  "\<exists>r c'. netnox_ssh_client_recv_data toy_noxtls 1 4096 sample_client = (r, c') \<and> r \<noteq> Hang"
  using recv_data_returns [of sample_client 1 toy_noxtls 4096]
  by (auto simp: rx_of_def sample_client_eq sample_fields)


end
