(* ===== verification/Nox_Server.thy ===== *)
theory Nox_Server
  imports Nox_Client
begin

text \<open>
  The server's session (\<open>common/noxssh_server.c\<close>): the handshake, the dispatch of messages, user
  authentication by public key, the session channel with its window, and the loop that connects the channel to
  the child process of an exec or shell request. The POSIX branch of the code is modelled; an allocation
  succeeds.
\<close>

section \<open>Definitions\<close>

subsection \<open>Messages to the client\<close>

definition srv_send_built ::
  "noxtls \<Rightarrow> u32 \<Rightarrow> (netnox_ssh_server_t \<Rightarrow> field list) \<Rightarrow> (netnox_ssh_server_t, unit) prog" where
  "srv_send_built C cap fs =
     bindM (\<lambda>s. liftM (build cap (fs s)) s) (\<lambda>payload. srv_send_packet C payload)"

text \<open>\<open>(void)f(...)\<close>: the code is not looked at.\<close>

definition ignoreM :: "('s, 'a) prog \<Rightarrow> ('s, unit) prog" where
  "ignoreM m = bindM (tryM m) (\<lambda>_. retM ())"

definition srv_send_service_accept :: "noxtls \<Rightarrow> bytes \<Rightarrow> (netnox_ssh_server_t, unit) prog" where
  "srv_send_service_accept C service =
     srv_send_built C 256 (\<lambda>_. [netnox_ssh_payload_append_u8 6, append_bytes service])"

definition srv_send_userauth_failure :: "noxtls \<Rightarrow> bool \<Rightarrow> (netnox_ssh_server_t, unit) prog" where
  "srv_send_userauth_failure C partial =
     srv_send_built C 256 (\<lambda>_. [netnox_ssh_payload_append_u8 51, append_bytes (ascii ''publickey''),
       netnox_ssh_payload_append_u8 (if partial then 1 else 0)])"

definition srv_send_userauth_success :: "noxtls \<Rightarrow> (netnox_ssh_server_t, unit) prog" where
  "srv_send_userauth_success C = srv_send_packet C [52]"

definition srv_send_userauth_pk_ok :: "noxtls \<Rightarrow> view \<Rightarrow> view \<Rightarrow> (netnox_ssh_server_t, unit) prog" where
  "srv_send_userauth_pk_ok C alg blob =
     srv_send_built C 256 (\<lambda>_. [netnox_ssh_payload_append_u8 60,
       netnox_ssh_payload_append_string (fst alg) (snd alg),
       netnox_ssh_payload_append_string (fst blob) (snd blob)])"

definition srv_send_global_request_failure :: "noxtls \<Rightarrow> (netnox_ssh_server_t, unit) prog" where
  "srv_send_global_request_failure C = srv_send_packet C [82]"

definition srv_handle_global_request :: "noxtls \<Rightarrow> bytes \<Rightarrow> (netnox_ssh_server_t, unit) prog" where
  "srv_handle_global_request C payload =
     bindM (failM (u32len payload < 6) NETNOX_RETURN_BAD_PARAM) (\<lambda>_.
     bindM (liftM (fetch1 payload 0)) (\<lambda>t.
     bindM (failM (t \<noteq> 80) NETNOX_RETURN_BAD_PARAM) (\<lambda>_.
     bindM (liftM (u32_at payload 1)) (\<lambda>(request_len, off).
     bindM (failM (request_len = 0 \<or> request_len \<ge> u32len payload - off) NETNOX_RETURN_FAILED) (\<lambda>_.
     bindM (liftM (fetch1 payload (unat (off + request_len)))) (\<lambda>want_reply.
     if want_reply \<noteq> 0 then srv_send_global_request_failure C else retM ()))))))"

definition srv_send_channel_open_confirmation :: "noxtls \<Rightarrow> u32 \<Rightarrow> (netnox_ssh_server_t, unit) prog" where
  "srv_send_channel_open_confirmation C client_sender_channel =
     bindM (setM (\<lambda>s. s\<lparr>local_channel_id := 0, remote_channel_id := client_sender_channel,
       local_window_size := 65536\<rparr>)) (\<lambda>_.
     srv_send_built C 128 (\<lambda>s. [netnox_ssh_payload_append_u8 91,
       netnox_ssh_payload_append_u32 client_sender_channel,
       netnox_ssh_payload_append_u32 (local_channel_id s),
       netnox_ssh_payload_append_u32 (local_window_size s), netnox_ssh_payload_append_u32 32768]))"

text \<open>A message number followed by the client's channel.\<close>

definition channel_note :: "byte \<Rightarrow> netnox_ssh_server_t \<Rightarrow> field list" where
  "channel_note t s = [netnox_ssh_payload_append_u8 t, netnox_ssh_payload_append_u32 (remote_channel_id s)]"

definition srv_send_channel_failure :: "noxtls \<Rightarrow> (netnox_ssh_server_t, unit) prog" where
  "srv_send_channel_failure C = srv_send_built C 64 (channel_note 100)"

definition srv_send_channel_success :: "noxtls \<Rightarrow> (netnox_ssh_server_t, unit) prog" where
  "srv_send_channel_success C = srv_send_built C 64 (channel_note 99)"

definition srv_max_chunk :: "netnox_ssh_server_t \<Rightarrow> u32" where
  "srv_max_chunk s = (if remote_max_packet_size s > 64 \<and> 4096 > remote_max_packet_size s - 64
     then remote_max_packet_size s - 64 else 4096)"

definition srv_send_channel_data_chunk :: "noxtls \<Rightarrow> bytes \<Rightarrow> u32 \<Rightarrow> (netnox_ssh_server_t, unit) prog" where
  "srv_send_channel_data_chunk C data len0 =
     bindM (failM (len0 = 0) NETNOX_RETURN_BAD_PARAM) (\<lambda>_.
     bindM (getM (\<lambda>s. if len0 > srv_max_chunk s then srv_max_chunk s else len0)) (\<lambda>len.
     bindM (\<lambda>s. liftM (build 4109 [netnox_ssh_payload_append_u8 94,
              netnox_ssh_payload_append_u32 (remote_channel_id s),
              netnox_ssh_payload_append_string data len]) s) (\<lambda>payload.
     bindM (ifM (\<lambda>s. remote_window_size s < len) (throwM NETNOX_RETURN_FAILED) (retM ())) (\<lambda>_.
     bindM (setM (\<lambda>s. s\<lparr>remote_window_size := remote_window_size s - len\<rparr>)) (\<lambda>_.
     srv_send_packet C payload)))))"

definition srv_send_channel_eof :: "noxtls \<Rightarrow> (netnox_ssh_server_t, unit) prog" where
  "srv_send_channel_eof C = srv_send_built C 32 (channel_note 96)"

definition srv_send_channel_close :: "noxtls \<Rightarrow> (netnox_ssh_server_t, unit) prog" where
  "srv_send_channel_close C = srv_send_built C 32 (channel_note 97)"

definition srv_handle_channel_end :: "noxtls \<Rightarrow> bytes \<Rightarrow> (netnox_ssh_server_t, unit) prog" where
  "srv_handle_channel_end C payload =
     bindM (failM (u32len payload \<noteq> 5) NETNOX_RETURN_BAD_PARAM) (\<lambda>_.
     bindM (liftM (fetch1 payload 0)) (\<lambda>t.
     bindM (failM (t \<noteq> 96 \<and> t \<noteq> 97) NETNOX_RETURN_BAD_PARAM) (\<lambda>_.
     bindM (liftM (recode NETNOX_RETURN_BAD_PARAM
              (netnox_ssh_payload_read_u32 payload (u32len payload) 1))) (\<lambda>(recipient, _).
     bindM (requireM (\<lambda>s. recipient = local_channel_id s)) (\<lambda>_.
     ifM (\<lambda>s. t = 97 \<and> channel_open s)
       (bindM (checkedM NETNOX_RETURN_FAILED (srv_send_channel_close C)) (\<lambda>_.
        setM (\<lambda>s. s\<lparr>channel_open := False\<rparr>)))
       (retM ()))))))"

text \<open>The deadline (0: none) for the peer's last packets.\<close>

definition srv_begin_close_wait :: "u64 \<Rightarrow> (netnox_ssh_server_t, u64) prog" where
  "srv_begin_close_wait deadline =
     (if deadline \<noteq> 0 then retM deadline
      else bindM srv_nowM (\<lambda>now.
        if now = -1 \<or> now > -1 - 10000 then throwM NETNOX_RETURN_FAILED else retM (now + 10000)))"

definition srv_maybe_window_adjust :: "noxtls \<Rightarrow> (netnox_ssh_server_t, unit) prog" where
  "srv_maybe_window_adjust C =
     ifM (\<lambda>s. local_window_size s > 65536) (retM ())
       (bindM (\<lambda>s. liftM (build 64 [netnox_ssh_payload_append_u8 93,
                netnox_ssh_payload_append_u32 (local_channel_id s),
                netnox_ssh_payload_append_u32 262144]) s) (\<lambda>payload.
        bindM (setM (\<lambda>s. s\<lparr>local_window_size := local_window_size s + 262144\<rparr>)) (\<lambda>_.
        srv_send_packet C payload)))"

datatype close_wait = Readable | Retry | Over | Wait_failed

definition next_poll :: "(netnox_ssh_server_t, poll_t) prog" where
  "next_poll = ioM (\<lambda>w. case polls w of [] \<Rightarrow> (Ok Poll_error, w) | p # ps \<Rightarrow> (Ok p, w\<lparr>polls := ps\<rparr>))"

fun poll_outcome :: "poll_t \<Rightarrow> close_wait" where
  "poll_outcome Poll_eintr = Retry"
| "poll_outcome Poll_error = Wait_failed"
| "poll_outcome Poll_timeout = Over"
| "poll_outcome (Poll_events inp hup err child) =
     (if inp then Readable else if hup then Over else Wait_failed)"

definition srv_wait_close_packet :: "u64 \<Rightarrow> (netnox_ssh_server_t, close_wait) prog" where
  "srv_wait_close_packet deadline =
     bindM srv_nowM (\<lambda>now.
     ifM (\<lambda>s. now = -1 \<or> transport_fd s < 0) (retM Wait_failed)
       (if now \<ge> deadline then retM Over
        else bindM next_poll (\<lambda>p. retM (poll_outcome p))))"

definition srv_send_exit_status :: "noxtls \<Rightarrow> u32 \<Rightarrow> (netnox_ssh_server_t, unit) prog" where
  "srv_send_exit_status C status =
     srv_send_built C 64 (\<lambda>s. [netnox_ssh_payload_append_u8 98,
       netnox_ssh_payload_append_u32 (remote_channel_id s), append_bytes (ascii ''exit-status''),
       netnox_ssh_payload_append_u8 0, netnox_ssh_payload_append_u32 status])"

subsection \<open>The child process\<close>

text \<open>Whether everything was written, and what was; after the scripted results a write takes all.\<close>

function srv_write_child :: "write_t list \<Rightarrow> bytes \<Rightarrow> bool \<times> bytes \<times> write_t list" where
  "srv_write_child ws data =
     (if data = [] then (True, [], ws)
      else case ws of
          [] \<Rightarrow> (True, data, [])
        | Wrote n # ws' \<Rightarrow>
            if n = 0 then (False, [], ws')
            else (case srv_write_child ws' (drop n data) of (ok, d, r) \<Rightarrow> (ok, take n data @ d, r))
        | Write_eintr # ws' \<Rightarrow> srv_write_child ws' data
        | Write_blocked ready # ws' \<Rightarrow>
            if ready then srv_write_child ws' data else (False, [], ws')
        | Write_failed # ws' \<Rightarrow> (False, [], ws'))"
  by pat_completeness auto
termination
  by (relation "measure (\<lambda>(ws, d). length ws)") auto

declare srv_write_child.simps [simp del]

definition write_childM :: "write_t list \<Rightarrow> bytes \<Rightarrow> (netnox_ssh_server_t, bool \<times> write_t list) prog" where
  "write_childM ws data =
     (case srv_write_child ws data of (ok, d, ws') \<Rightarrow>
        bindM (ioM (\<lambda>w. (Ok (), w\<lparr>child_input := child_input w @ d\<rparr>))) (\<lambda>_. retM (ok, ws')))"

text \<open>
  What the child does between \<open>fork\<close> and \<open>exec\<close>, the branch of \<open>srv_run_session_unix\<close> that runs in another process:
  the parent, modelled below, sees the socket to it alone, so the two are separate definitions. \<open>passwd\<close> is the
  account database, \<open>sys\<close> tells which system calls succeed; the result is the credentials that they leave, the
  arguments and the environment handed to \<open>execl\<close>, or \<open>None\<close> where the child exits with 127. An entry with
  NULL for the directory or the shell is, as in the code, no account: it is refused like a name that is not found.
\<close>

record passwd_entry =
  pw_name :: bytes
  pw_uid :: u32
  pw_gid :: u32
  pw_dir :: bytes
  pw_shell :: bytes

record child_calls =
  sys_redirect :: bool
  sys_initgroups :: bool
  sys_setgid :: bool
  sys_setuid :: bool
  sys_chdir :: bool
  sys_environment :: bool

record child_process =
  run_uid :: u32
  run_gid :: u32
  run_argv :: "bytes list"
  run_env :: "(bytes \<times> bytes) list"

definition srv_child_exec ::
  "(bytes \<Rightarrow> passwd_entry option) \<Rightarrow> child_calls \<Rightarrow> u32 \<Rightarrow> u32 \<Rightarrow> netnox_ssh_server_t \<Rightarrow> bytes \<Rightarrow> bool \<Rightarrow>
   child_process option" where
  "srv_child_exec passwd sys euid egid s cmd shell =
     (if \<not> want_pty s \<and> \<not> sys_redirect sys then None
      else case passwd (authenticated_user s) of None \<Rightarrow> None
      | Some pw \<Rightarrow>
          if pw_shell pw = [] then None
          else if euid = 0 \<and> \<not> (sys_initgroups sys \<and> sys_setgid sys \<and> sys_setuid sys) then None
          else if euid \<noteq> 0 \<and> (euid \<noteq> pw_uid pw \<or> egid \<noteq> pw_gid pw) then None
          else if \<not> sys_chdir sys \<or> \<not> sys_environment sys then None
          else Some \<lparr>run_uid = (if euid = 0 then pw_uid pw else euid),
            run_gid = (if euid = 0 then pw_gid pw else egid),
            run_argv = (if shell then [pw_shell pw, ascii ''-i''] else [pw_shell pw, ascii ''-c'', cmd]),
            run_env = [(ascii ''HOME'', pw_dir pw), (ascii ''USER'', pw_name pw), (ascii ''LOGNAME'', pw_name pw),
              (ascii ''SHELL'', pw_shell pw), (ascii ''PATH'', ascii ''/usr/local/bin:/usr/bin:/bin'')] @
              (if want_pty s then [(ascii ''TERM'', if pty_term s = [] then ascii ''vt100'' else pty_term s)] else [])\<rparr>)"

subsection \<open>The loop of a running session\<close>

text \<open>How a step of the loop goes on: \<open>Go a\<close> continues, \<open>Stop closed\<close> is \<open>break\<close>, \<open>Done\<close> returns success.\<close>

datatype 'a flow = Go 'a | Stop bool | Done

definition or_stop :: "('s, 'a) prog \<Rightarrow> ('a \<Rightarrow> ('s, 'b flow) prog) \<Rightarrow> ('s, 'b flow) prog" where
  "or_stop m f = bindM (tryM m) (\<lambda>r. case r of Ok a \<Rightarrow> f a | _ \<Rightarrow> retM (Stop False))"

text \<open>\<open>if(cond) break;\<close>\<close>

definition stop_if :: "('s \<Rightarrow> bool) \<Rightarrow> ('s, 'a flow) prog \<Rightarrow> ('s, 'a flow) prog" where
  "stop_if b m = ifM b (retM (Stop False)) m"

definition over_threshold :: "netnox_ssh_server_t \<Rightarrow> bool" where
  "over_threshold s \<longleftrightarrow> rekey_threshold_bytes s \<noteq> 0 \<and>
     (encrypted_bytes_sent s \<ge> rekey_threshold_bytes s \<or> encrypted_bytes_recv s \<ge> rekey_threshold_bytes s)"

definition session_data :: "noxtls \<Rightarrow> write_t list \<Rightarrow> bytes \<Rightarrow> (netnox_ssh_server_t, unit flow) prog" where
  "session_data C ws payload =
     or_stop (liftM (u32_at payload 1)) (\<lambda>(channel, o1).
     stop_if (\<lambda>s. channel \<noteq> local_channel_id s)
     (or_stop (liftM (view_at (payload, u32len payload) o1)) (\<lambda>(data, off).
      stop_if (\<lambda>s. off \<noteq> u32len payload \<or> snd data > local_window_size s)
      (bindM (liftM (fetch (fst data) (unat (snd data)))) (\<lambda>d.
       bindM (write_childM ws d) (\<lambda>(written, _).
       stop_if (\<lambda>_. \<not> written)
       (bindM (setM (\<lambda>s. s\<lparr>local_window_size := local_window_size s - snd data\<rparr>)) (\<lambda>_.
        or_stop (srv_maybe_window_adjust C) (\<lambda>_. retM (Go ()))))))))))"

definition session_window_adjust :: "bytes \<Rightarrow> (netnox_ssh_server_t, unit flow) prog" where
  "session_window_adjust payload =
     or_stop (liftM (u32_at payload 1)) (\<lambda>(channel, o1).
     or_stop (liftM (u32_at payload o1)) (\<lambda>(amount, _).
     stop_if (\<lambda>s. channel \<noteq> local_channel_id s \<or> amount > -1 - remote_window_size s)
     (bindM (setM (\<lambda>s. s\<lparr>remote_window_size := remote_window_size s + amount\<rparr>)) (\<lambda>_. retM (Go ())))))"

text \<open>
  A request within a session: only \<open>window-change\<close> has an effect, on the terminal of the child, which is not part
  of the context. Bytes that cannot be compared because they lie outside the payload are a fault.
\<close>

definition session_request :: "bytes \<Rightarrow> (netnox_ssh_server_t, unit flow) prog" where
  "session_request payload =
     or_stop (liftM (u32_at payload 1)) (\<lambda>(channel, o1).
     or_stop (liftM (view_at (payload, u32len payload) o1)) (\<lambda>(req, off).
     stop_if (\<lambda>s. channel \<noteq> local_channel_id s \<or> off \<ge> u32len payload)
     (bindM (liftM (view_eq req (ascii ''window-change''))) (\<lambda>_. retM (Go ())))))"

definition session_packet :: "noxtls \<Rightarrow> write_t list \<Rightarrow> bytes \<Rightarrow> (netnox_ssh_server_t, unit flow) prog" where
  "session_packet C ws payload =
     (if payload = [] then retM (Stop False)
      else if hd payload = 80 then or_stop (srv_handle_global_request C payload) (\<lambda>_. retM (Go ()))
      else if hd payload = 94 then session_data C ws payload
      else if hd payload = 93 then session_window_adjust payload
      else if hd payload = 96
      then or_stop (srv_handle_channel_end C payload) (\<lambda>_.
           ifM (\<lambda>s. \<not> want_pty s) (retM (Go ())) (bindM (write_childM ws [4]) (\<lambda>_. retM (Go ()))))
      else if hd payload = 97 then or_stop (srv_handle_channel_end C payload) (\<lambda>_. retM (Stop True))
      else if hd payload = 1 then retM (Stop False)
      else if hd payload = 98 then ifM want_pty (session_request payload) (retM (Go ()))
      else retM (Go ()))"

text \<open>Reading from the child what fits into the window and the packet; the result is \<open>output_eof\<close>.\<close>

definition read_cap :: "netnox_ssh_server_t \<Rightarrow> u32" where
  "read_cap s =
     (let cap = (if 4096 > remote_window_size s then remote_window_size s else 4096)
      in if remote_max_packet_size s > 64 \<and> cap > remote_max_packet_size s - 64
         then remote_max_packet_size s - 64 else cap)"

definition session_output :: "noxtls \<Rightarrow> read_t \<Rightarrow> (netnox_ssh_server_t, bool flow) prog" where
  "session_output C result =
     bindM (getM read_cap) (\<lambda>cap.
     case result of
       Read d \<Rightarrow>
         if d = [] then retM (Go True)
         else let out = take (unat cap) d in
           or_stop (srv_send_channel_data_chunk C out (u32len out)) (\<lambda>_. retM (Go False))
     | Read_eof \<Rightarrow> retM (Go True)
     | Read_again \<Rightarrow> retM (Go False)
     | Read_failed \<Rightarrow> retM (Stop False))"

definition exit_code :: "exit_t \<Rightarrow> u32" where
  "exit_code status = (case status of Exited n \<Rightarrow> n | Signaled n \<Rightarrow> 128 + n)"

definition session_finish :: "noxtls \<Rightarrow> exit_t \<Rightarrow> (netnox_ssh_server_t, 'a flow) prog" where
  "session_finish C status =
     or_stop (srv_send_exit_status C (exit_code status)) (\<lambda>_.
     or_stop (srv_send_channel_eof C) (\<lambda>_.
     or_stop (srv_send_channel_close C) (\<lambda>_.
     bindM (setM (\<lambda>s. s\<lparr>channel_open := False\<rparr>)) (\<lambda>_. retM Done))))"

definition bind_flow ::
  "('s, 'a flow) prog \<Rightarrow> ('a \<Rightarrow> ('s, 'b flow) prog) \<Rightarrow> ('s, 'b flow) prog" where
  "bind_flow m f = bindM m (\<lambda>r. case r of Go a \<Rightarrow> f a | Stop b \<Rightarrow> retM (Stop b) | Done \<Rightarrow> retM Done)"

text \<open>
  One round, from \<open>poll\<close> to \<open>waitpid\<close>. \<open>eof\<close>: the output of the child has ended; \<open>status\<close>: it has been reaped.
  A \<open>continue\<close> where nothing may be sent skips the rest of the round.
\<close>

definition session_round_step ::
  "noxtls \<Rightarrow> session_round \<Rightarrow> bool \<Rightarrow> exit_t option \<Rightarrow>
   (netnox_ssh_server_t, (bool \<times> exit_t option) flow) prog" where
  "session_round_step C r eof status =
     stop_if over_threshold
     (bindM (getM (\<lambda>s. \<not> eof \<and> remote_window_size s \<noteq> 0)) (\<lambda>watch_child.
      if round_poll r = Poll_eintr then retM (Go (eof, status))
      else if round_poll r = Poll_error \<or> (round_poll r = Poll_timeout \<and> \<not> eof) then retM (Stop False)
      else case (case round_poll r of Poll_events inp hup err child \<Rightarrow> (inp, hup \<or> err, child) | _ \<Rightarrow> (False, False, False))
        of (inp, broken, child) \<Rightarrow>
        if broken then retM (Stop False)
        else bind_flow
          (if inp then or_stop (srv_recv_packet C 35000) (\<lambda>payload. session_packet C (round_writes r) payload)
           else retM (Go ())) (\<lambda>_.
        ifM (\<lambda>s. watch_child \<and> child \<and> read_cap s = 0) (retM (Go (eof, status)))
        (bind_flow (if watch_child \<and> child then session_output C (round_read r) else retM (Go eof)) (\<lambda>eof'.
         let status' = (if status = None then round_exit r else status) in
         (case (eof', status') of
            (True, Some st) \<Rightarrow> session_finish C st
          | _ \<Rightarrow> retM (Go (eof', status'))))))))"

text \<open>The rounds; where the script ends, \<open>poll\<close> fails.\<close>

fun session_loop ::
  "noxtls \<Rightarrow> session_round list \<Rightarrow> bool \<Rightarrow> exit_t option \<Rightarrow> (netnox_ssh_server_t, unit flow) prog" where
  "session_loop C [] eof status = retM (Stop False)"
| "session_loop C (r # rs) eof status =
     bind_flow (session_round_step C r eof status) (\<lambda>(eof', status'). session_loop C rs eof' status')"

definition next_child :: "spawn \<Rightarrow> (netnox_ssh_server_t, session_round list) prog" where
  "next_child sp = ioM (\<lambda>w. case children w of
       [] \<Rightarrow> (Err NETNOX_RETURN_FAILED, w)
     | None # cs \<Rightarrow> (Err NETNOX_RETURN_FAILED, w\<lparr>children := cs\<rparr>)
     | Some rounds # cs \<Rightarrow> (Ok rounds, w\<lparr>children := cs, spawned := spawned w @ [sp]\<rparr>))"

definition srv_run_session_unix :: "noxtls \<Rightarrow> bytes \<Rightarrow> bool \<Rightarrow> (netnox_ssh_server_t, unit) prog" where
  "srv_run_session_unix C cmd shell =
     bindM (ifM (\<lambda>s. transport_fd s < 0 \<or> authenticated_user s = []) (throwM NETNOX_RETURN_FAILED) (retM ())) (\<lambda>_.
     bindM (setM (\<lambda>s. s\<lparr>session_started := True\<rparr>)) (\<lambda>_.
     bindM (\<lambda>s. next_child (authenticated_user s, if shell then None else Some cmd, want_pty s) s) (\<lambda>rounds.
     bindM (session_loop C rounds False None) (\<lambda>outcome.
     case outcome of
       Stop closed \<Rightarrow> bindM (setM (\<lambda>s. s\<lparr>channel_open := False\<rparr>)) (\<lambda>_. failM (\<not> closed) NETNOX_RETURN_FAILED)
     | _ \<Rightarrow> retM ()))))"

subsection \<open>User authentication\<close>

text \<open>\<open>len(a) == len(b) && memcmp(a, b, len(b)) == 0\<close> for two views.\<close>

definition views_eq :: "view \<Rightarrow> view \<Rightarrow> bool res" where
  "views_eq a b =
     (if snd a \<noteq> snd b then Ok False
      else bindR (fetch (fst a) (unat (snd b))) (\<lambda>x.
           bindR (fetch (fst b) (unat (snd b))) (\<lambda>y. Ok (x = y))))"

text \<open>
  The flag, algorithm and key of a publickey request, the raw key, and the length of the request without its
  signature. Every failure makes the server answer with USERAUTH_FAILURE.
\<close>

definition publickey_fields :: "bytes \<Rightarrow> u32 \<Rightarrow> (byte \<times> view \<times> view \<times> view \<times> u32) res" where
  "publickey_fields p off =
     bindR (if off \<ge> u32len p then Err NETNOX_RETURN_FAILED else fetch1 p (unat off)) (\<lambda>signed_flag.
     if signed_flag > 1 then Err NETNOX_RETURN_FAILED
     else bindR (view_at (p, u32len p) (off + 1)) (\<lambda>(alg, o1).
     bindR (view_at (p, u32len p) o1) (\<lambda>(key_blob, req_len).
     bindR (view_eq alg keyalg_ed25519) (\<lambda>known.
     if \<not> known then Err NETNOX_RETURN_FAILED
     else bindR (view_at key_blob 0) (\<lambda>(blob_alg, b1).
     bindR (view_at key_blob b1) (\<lambda>(key, b2).
     if b2 \<noteq> snd key_blob then Err NETNOX_RETURN_FAILED
     else bindR (views_eq blob_alg alg) (\<lambda>same.
     if \<not> same \<or> snd key \<noteq> 32 then Err NETNOX_RETURN_FAILED
     else Ok (signed_flag, alg, key_blob, key, req_len))))))))"

definition signature_field :: "bytes \<Rightarrow> u32 \<Rightarrow> view \<Rightarrow> view res" where
  "signature_field p off alg =
     bindR (view_at (p, u32len p) off) (\<lambda>(sig_blob, o1).
     if o1 \<noteq> u32len p then Err NETNOX_RETURN_FAILED
     else bindR (view_at sig_blob 0) (\<lambda>(sig_alg, s1).
     bindR (view_at sig_blob s1) (\<lambda>(sig, s2).
     if s2 \<noteq> snd sig_blob then Err NETNOX_RETURN_FAILED
     else bindR (views_eq sig_alg alg) (\<lambda>same.
     if \<not> same \<or> snd sig \<noteq> 64 then Err NETNOX_RETURN_FAILED else Ok sig))))"

definition or_refuse ::
  "noxtls \<Rightarrow> 'a res \<Rightarrow> ('a \<Rightarrow> (netnox_ssh_server_t, unit) prog) \<Rightarrow> (netnox_ssh_server_t, unit) prog" where
  "or_refuse C r f =
     bindM (tryM (liftM r)) (\<lambda>x. case x of Ok a \<Rightarrow> f a | _ \<Rightarrow> srv_send_userauth_failure C False)"

definition signed_data :: "bytes \<Rightarrow> u32 \<Rightarrow> netnox_ssh_server_t \<Rightarrow> bytes res" where
  "signed_data p req_len s =
     bindR (fetch (session_id s) (unat (session_id_len s))) (\<lambda>sid.
     bindR (fetch p (unat req_len)) (\<lambda>req.
     Ok (netnox_ssh_write_u32_be (ucast (session_id_len s)) @ sid @ req)))"

definition check_signature ::
  "noxtls \<Rightarrow> bytes \<Rightarrow> bytes \<Rightarrow> bytes \<Rightarrow> u32 \<Rightarrow> view \<Rightarrow> (netnox_ssh_server_t, unit) prog" where
  "check_signature C uname p pk req_len sig =
     bindM (liftM (fetch (fst sig) 64)) (\<lambda>sig64.
     bindM (\<lambda>s. liftM (signed_data p req_len s) s) (\<lambda>to_sign.
     if \<not> noxtls_ed25519_verify C pk to_sign sig64 then srv_send_userauth_failure C False
     else bindM (setM (\<lambda>s. s\<lparr>authenticated_user := uname, authenticated := True,
            connection_service_ready := True\<rparr>)) (\<lambda>_. srv_send_userauth_success C)))"

definition userauth_publickey :: "noxtls \<Rightarrow> bytes \<Rightarrow> view \<Rightarrow> u32 \<Rightarrow> (netnox_ssh_server_t, unit) prog" where
  "userauth_publickey C p user off =
     (if snd user = 0 \<or> snd user \<ge> 65 then srv_send_userauth_failure C False
      else bindM (liftM (fetch (fst user) (unat (snd user)))) (\<lambda>uname.
      bindM (getM publickey_allowed_cb) (\<lambda>cb.
      if 0 \<in> set uname \<or> cb = None then srv_send_userauth_failure C False
      else or_refuse C (publickey_fields p off) (\<lambda>(signed_flag, alg, key_blob, key, req_len).
      bindM (liftM (fetch (fst key) 32)) (\<lambda>pk.
      if \<not> the cb uname pk then srv_send_userauth_failure C False
      else if signed_flag = 0
      then (if req_len \<noteq> u32len p then srv_send_userauth_failure C False
            else srv_send_userauth_pk_ok C alg key_blob)
      else or_refuse C (signature_field p req_len alg) (\<lambda>sig. check_signature C uname p pk req_len sig))))))"

definition srv_handle_userauth_request :: "noxtls \<Rightarrow> bytes \<Rightarrow> (netnox_ssh_server_t, unit) prog" where
  "srv_handle_userauth_request C p =
     bindM (failM (u32len p < 2) NETNOX_RETURN_FAILED) (\<lambda>_.
     bindM (liftM (fetch1 p 0)) (\<lambda>t.
     bindM (failM (t \<noteq> 50) NETNOX_RETURN_FAILED) (\<lambda>_.
     bindM (liftM (view_at (p, u32len p) 1)) (\<lambda>(user, o1).
     bindM (liftM (view_at (p, u32len p) o1)) (\<lambda>(service, o2).
     bindM (liftM (view_at (p, u32len p) o2)) (\<lambda>(auth_method, o3).
     bindM (liftM (view_eq service service_connection)) (\<lambda>known.
     if \<not> known then srv_send_userauth_failure C False
     else bindM (liftM (view_eq auth_method (ascii ''publickey''))) (\<lambda>pk.
     if pk then userauth_publickey C p user o3 else srv_send_userauth_failure C False))))))))"

subsection \<open>Handshake and configuration\<close>

text \<open>The lines before the client's identification; where none of eight is one, the field keeps its value.\<close>

primrec ident_loop :: "nat \<Rightarrow> (netnox_ssh_server_t, unit) prog" where
  "ident_loop 0 = retM ()"
| "ident_loop (Suc i) =
     bindM (checkedM NETNOX_RETURN_FAILED (srv_recv_line 256)) (\<lambda>line.
     if netnox_ssh_is_ident_line line
     then bindM (checkedM NETNOX_RETURN_FAILED (liftM (netnox_ssh_copy_string 256 line))) (\<lambda>d.
          setM (\<lambda>s. s\<lparr>client_ident := d\<rparr>))
     else ident_loop i)"

definition srv_handshake_to_encrypted :: "noxtls \<Rightarrow> (netnox_ssh_server_t, unit) prog" where
  "srv_handshake_to_encrypted C =
     bindM (requireM host_key_ready) (\<lambda>_.
     bindM (ident_loop 8) (\<lambda>_.
     bindM (ifM (\<lambda>s. client_ident s = []) (throwM NETNOX_RETURN_FAILED) (retM ())) (\<lambda>_.
     bindM (checkedM NETNOX_RETURN_FAILED (\<lambda>s. srv_send_all (ident_line (server_ident s)) s)) (\<lambda>_.
     bindM (setM (\<lambda>s. s\<lparr>connected := True\<rparr>)) (\<lambda>_.
     bindM (checkedM NETNOX_RETURN_FAILED (srv_exchange_kexinit C)) (\<lambda>_.
     checkedM NETNOX_RETURN_FAILED (srv_perform_curve25519_kex C)))))))"

definition netnox_ssh_server_set_identification :: "bytes \<Rightarrow> (netnox_ssh_server_t, unit) prog" where
  "netnox_ssh_server_set_identification ident =
     bindM (liftM (netnox_ssh_copy_string 256 ident)) (\<lambda>d. setM (\<lambda>s. s\<lparr>server_ident := d\<rparr>))"

definition derive_host_key :: "noxtls \<Rightarrow> (netnox_ssh_server_t, unit) prog" where
  "derive_host_key C =
     bindM (\<lambda>s. liftM (case noxtls_ed25519_public_key C (host_ed25519_sk s) of
              None \<Rightarrow> Err NETNOX_RETURN_FAILED | Some pk \<Rightarrow> Ok pk) s) (\<lambda>pk.
     setM (\<lambda>s. s\<lparr>host_ed25519_pk := pk, host_key_ready := True\<rparr>))"

definition netnox_ssh_server_set_host_ed25519_seed :: "noxtls \<Rightarrow> bytes \<Rightarrow> (netnox_ssh_server_t, unit) prog" where
  "netnox_ssh_server_set_host_ed25519_seed C secret_seed =
     bindM (liftM (fetch secret_seed 32)) (\<lambda>sk.
     bindM (setM (\<lambda>s. s\<lparr>host_ed25519_sk := sk\<rparr>)) (\<lambda>_. derive_host_key C))"

definition netnox_ssh_server_generate_host_ed25519_key :: "noxtls \<Rightarrow> (netnox_ssh_server_t, unit) prog" where
  "netnox_ssh_server_generate_host_ed25519_key C =
     bindM (checkedM NETNOX_RETURN_FAILED (ioM (srv_fill_random 32))) (\<lambda>sk.
     bindM (setM (\<lambda>s. s\<lparr>host_ed25519_sk := sk\<rparr>)) (\<lambda>_. derive_host_key C))"

definition netnox_ssh_server_set_publickey_callback ::
  "(bytes \<Rightarrow> bytes \<Rightarrow> bool) option \<Rightarrow> (netnox_ssh_server_t, unit) prog" where
  "netnox_ssh_server_set_publickey_callback cb = setM (\<lambda>s. s\<lparr>publickey_allowed_cb := cb\<rparr>)"

definition netnox_ssh_server_reset :: "(netnox_ssh_server_t, unit) prog" where
  "netnox_ssh_server_reset =
     setM (\<lambda>s. s\<lparr>authenticated_user := [], auth_attempts := 0, session_started := False,
       handshake_deadline_ms := 0, packet_deadline_ms := 0, send_deadline_ms := 0,
       encrypted_bytes_sent := 0, encrypted_bytes_recv := 0, client_ident := [], connected := False,
       kexinit_exchanged := False, userauth_service_ready := False, connection_service_ready := False,
       authenticated := False, channel_open := False, key_exchange_complete := False, send_seq := 0,
       recv_seq := 0, pending_newkeys := []\<rparr>)"

subsection \<open>The dispatch of messages\<close>

definition serve_service_request :: "noxtls \<Rightarrow> bytes \<Rightarrow> (netnox_ssh_server_t, unit) prog" where
  "serve_service_request C payload =
     bindM (liftM (view_at (payload, u32len payload) 1)) (\<lambda>(svc, _).
     bindM (liftM (view_eq svc service_userauth)) (\<lambda>is_userauth.
     if is_userauth
     then bindM (setM (\<lambda>s. s\<lparr>userauth_service_ready := True\<rparr>)) (\<lambda>_.
          checkedM NETNOX_RETURN_FAILED (srv_send_service_accept C service_userauth))
     else ifM (\<lambda>s. \<not> authenticated s) (throwM NETNOX_RETURN_FAILED)
       (bindM (liftM (view_eq svc service_connection)) (\<lambda>is_connection.
        if is_connection
        then bindM (setM (\<lambda>s. s\<lparr>connection_service_ready := True\<rparr>)) (\<lambda>_.
             checkedM NETNOX_RETURN_FAILED (srv_send_service_accept C service_connection))
        else throwM NETNOX_RETURN_FAILED))))"

text \<open>\<open>auth_attempts\<close> is an 8-bit counter; the seventh request ends the connection.\<close>

definition serve_userauth_request :: "noxtls \<Rightarrow> bytes \<Rightarrow> (netnox_ssh_server_t, unit) prog" where
  "serve_userauth_request C payload =
     bindM (ifM (\<lambda>s. \<not> userauth_service_ready s \<or> authenticated s) (throwM NETNOX_RETURN_FAILED) (retM ())) (\<lambda>_.
     bindM (setM (\<lambda>s. s\<lparr>auth_attempts := auth_attempts s + 1\<rparr>)) (\<lambda>_.
     bindM (ifM (\<lambda>s. auth_attempts s > 6) (throwM NETNOX_RETURN_FAILED) (retM ())) (\<lambda>_.
     checkedM NETNOX_RETURN_FAILED (srv_handle_userauth_request C payload))))"

definition serve_channel_open :: "noxtls \<Rightarrow> u64 \<Rightarrow> bytes \<Rightarrow> (netnox_ssh_server_t, unit) prog" where
  "serve_channel_open C close_deadline payload =
     bindM (failM (close_deadline \<noteq> 0) NETNOX_RETURN_FAILED) (\<lambda>_.
     bindM (ifM (\<lambda>s. \<not> authenticated s \<or> \<not> connection_service_ready s) (throwM NETNOX_RETURN_FAILED) (retM ())) (\<lambda>_.
     bindM (liftM (view_at (payload, u32len payload) 1)) (\<lambda>(typ, o1).
     bindM (liftM (u32_at payload o1)) (\<lambda>(sender, o2).
     bindM (liftM (u32_at payload o2)) (\<lambda>(client_init_win, o3).
     bindM (liftM (u32_at payload o3)) (\<lambda>(client_max_pkt, _).
     bindM (liftM (view_eq typ (ascii ''session''))) (\<lambda>is_session.
     bindM (failM (\<not> is_session) NETNOX_RETURN_FAILED) (\<lambda>_.
     bindM (ifM (\<lambda>s. channel_open s \<or> client_max_pkt < 128) (throwM NETNOX_RETURN_FAILED) (retM ())) (\<lambda>_.
     bindM (setM (\<lambda>s. s\<lparr>remote_window_size := client_init_win,
              remote_max_packet_size := (if client_max_pkt \<noteq> 0 then client_max_pkt else 32768)\<rparr>)) (\<lambda>_.
     bindM (checkedM NETNOX_RETURN_FAILED (srv_send_channel_open_confirmation C sender)) (\<lambda>_.
     setM (\<lambda>s. s\<lparr>channel_open := True\<rparr>))))))))))))"

text \<open>\<open>if(want_reply) (void)srv_send_channel_failure(s); continue;\<close>\<close>

definition refuse_request :: "noxtls \<Rightarrow> byte \<Rightarrow> (netnox_ssh_server_t, unit) prog" where
  "refuse_request C want_reply =
     (if want_reply \<noteq> 0 then ignoreM (srv_send_channel_failure C) else retM ())"

definition accept_request :: "noxtls \<Rightarrow> byte \<Rightarrow> (netnox_ssh_server_t, unit) prog" where
  "accept_request C want_reply =
     (if want_reply \<noteq> 0 then checkedM NETNOX_RETURN_FAILED (srv_send_channel_success C) else retM ())"

definition pty_fields :: "bytes \<Rightarrow> u32 \<Rightarrow> (bytes \<times> u32 \<times> u32 \<times> u32 \<times> u32) res" where
  "pty_fields payload off =
     bindR (view_at (payload, u32len payload) off) (\<lambda>(trm, o1).
     if snd trm \<ge> 65 then Err NETNOX_RETURN_FAILED
     else bindR (fetch (fst trm) (unat (snd trm))) (\<lambda>t.
     if 0 \<in> set t then Err NETNOX_RETURN_FAILED
     else bindR (u32_at payload o1) (\<lambda>(cols, o2).
     bindR (u32_at payload o2) (\<lambda>(rows, o3).
     bindR (u32_at payload o3) (\<lambda>(width, o4).
     bindR (u32_at payload o4) (\<lambda>(height, o5).
     bindR (view_at (payload, u32len payload) o5) (\<lambda>(modes, o6).
     if o6 \<noteq> u32len payload then Err NETNOX_RETURN_FAILED
     else Ok (t, cols, rows, width, height))))))))"

definition serve_pty_request :: "noxtls \<Rightarrow> bytes \<Rightarrow> u32 \<Rightarrow> byte \<Rightarrow> (netnox_ssh_server_t, unit) prog" where
  "serve_pty_request C payload off want_reply =
     ifM want_pty (refuse_request C want_reply)
     (bindM (tryM (liftM (pty_fields payload off))) (\<lambda>r.
      case r of
        Ok (trm, cols, rows, width, height) \<Rightarrow>
          bindM (setM (\<lambda>s. s\<lparr>pty_term := trm, pty_cols := cols, pty_rows := rows, pty_width := width,
                   pty_height := height, want_pty := True\<rparr>)) (\<lambda>_. accept_request C want_reply)
      | _ \<Rightarrow> refuse_request C want_reply))"

text \<open>The command of an exec request as the C string that is handed on.\<close>

definition exec_field :: "bytes \<Rightarrow> u32 \<Rightarrow> bytes res" where
  "exec_field payload off =
     bindR (view_at (payload, u32len payload) off) (\<lambda>(cmd, o1).
     if snd cmd > 512 then Err NETNOX_RETURN_FAILED
     else bindR (fetch (fst cmd) (unat (snd cmd))) (\<lambda>c.
     if 0 \<in> set c \<or> o1 \<noteq> u32len payload then Err NETNOX_RETURN_FAILED else Ok c))"

definition run_session :: "noxtls \<Rightarrow> bytes \<Rightarrow> bool \<Rightarrow> u64 \<Rightarrow> byte \<Rightarrow> (netnox_ssh_server_t, u64) prog" where
  "run_session C cmd shell close_deadline want_reply =
     bindM (accept_request C want_reply) (\<lambda>_.
     bindM (checkedM NETNOX_RETURN_FAILED (srv_run_session_unix C cmd shell)) (\<lambda>_.
     checkedM NETNOX_RETURN_FAILED (srv_begin_close_wait close_deadline)))"

definition serve_named_request ::
  "noxtls \<Rightarrow> u64 \<Rightarrow> bytes \<Rightarrow> view \<Rightarrow> u32 \<Rightarrow> byte \<Rightarrow> (netnox_ssh_server_t, u64) prog" where
  "serve_named_request C close_deadline payload req off want_reply =
     bindM (liftM (view_eq req (ascii ''pty-req''))) (\<lambda>is_pty.
     if is_pty then bindM (serve_pty_request C payload off want_reply) (\<lambda>_. retM close_deadline)
     else bindM (liftM (view_eq req (ascii ''exec''))) (\<lambda>is_exec.
     if is_exec
     then bindM (tryM (liftM (exec_field payload off))) (\<lambda>r.
          case r of
            Ok cmd \<Rightarrow> run_session C cmd False close_deadline want_reply
          | _ \<Rightarrow> bindM (refuse_request C want_reply) (\<lambda>_. retM close_deadline))
     else bindM (liftM (view_eq req (ascii ''shell''))) (\<lambda>is_shell.
     if is_shell
     then (if off \<noteq> u32len payload
           then bindM (refuse_request C want_reply) (\<lambda>_. retM close_deadline)
           else run_session C [] True close_deadline want_reply)
     else bindM (refuse_request C want_reply) (\<lambda>_. retM close_deadline))))"

text \<open>A subsystem request is refused whether or not it can be read, like any request with another name.\<close>

definition serve_channel_request :: "noxtls \<Rightarrow> u64 \<Rightarrow> bytes \<Rightarrow> (netnox_ssh_server_t, u64) prog" where
  "serve_channel_request C close_deadline payload =
     ifM (\<lambda>s. \<not> channel_open s) (retM close_deadline)
     (bindM (liftM (u32_at payload 1)) (\<lambda>(chan, o1).
      ifM (\<lambda>s. chan \<noteq> local_channel_id s) (retM close_deadline)
      (bindM (liftM (view_at (payload, u32len payload) o1)) (\<lambda>(req, off).
       bindM (failM (off \<ge> u32len payload) NETNOX_RETURN_FAILED) (\<lambda>_.
       bindM (liftM (fetch1 payload (unat off))) (\<lambda>want_reply.
       serve_named_request C close_deadline payload req (off + 1) want_reply))))))"

definition serve_channel_data :: "noxtls \<Rightarrow> bytes \<Rightarrow> (netnox_ssh_server_t, unit) prog" where
  "serve_channel_data C payload =
     bindM (liftM (u32_at payload 1)) (\<lambda>(recipient, o1).
     ifM (\<lambda>s. recipient \<noteq> local_channel_id s) (retM ())
     (bindM (liftM (view_at (payload, u32len payload) o1)) (\<lambda>(dat, _).
      bindM (setM (\<lambda>s. if local_window_size s \<ge> snd dat
               then s\<lparr>local_window_size := local_window_size s - snd dat\<rparr> else s)) (\<lambda>_.
      ignoreM (srv_maybe_window_adjust C)))))"

definition serve_channel_end :: "noxtls \<Rightarrow> u64 \<Rightarrow> bytes \<Rightarrow> (netnox_ssh_server_t, u64) prog" where
  "serve_channel_end C close_deadline payload =
     bindM (checkedM NETNOX_RETURN_FAILED (srv_handle_channel_end C payload)) (\<lambda>_.
     if hd payload = 97 then checkedM NETNOX_RETURN_FAILED (srv_begin_close_wait close_deadline)
     else retM close_deadline)"

text \<open>The \<open>switch\<close>: \<open>None\<close> ends the session with success, \<open>Some d\<close> goes on with the deadline \<open>d\<close>.\<close>

definition serve_message :: "noxtls \<Rightarrow> u64 \<Rightarrow> bytes \<Rightarrow> (netnox_ssh_server_t, u64 option) prog" where
  "serve_message C close_deadline payload =
     (let continue = (\<lambda>m. bindM m (\<lambda>_. retM (Some close_deadline)));
          continue_at = (\<lambda>m. bindM m (\<lambda>d. retM (Some d))); t = hd payload
      in if t = 1 then retM None
         else if t = 2 \<or> t = 7 then retM (Some close_deadline)
         else if t = 80 then continue (checkedM NETNOX_RETURN_FAILED (srv_handle_global_request C payload))
         else if t = 5 then continue (serve_service_request C payload)
         else if t = 50 then continue (serve_userauth_request C payload)
         else if t = 90 then continue (serve_channel_open C close_deadline payload)
         else if t = 98 then continue_at (serve_channel_request C close_deadline payload)
         else if t = 94 then continue (serve_channel_data C payload)
         else if t = 96 \<or> t = 97 then continue_at (serve_channel_end C close_deadline payload)
         else retM (Some close_deadline))"

text \<open>A received packet: an empty one is skipped, and past the threshold the connection ends.\<close>

definition serve_packet :: "noxtls \<Rightarrow> u64 \<Rightarrow> bytes \<Rightarrow> (netnox_ssh_server_t, u64 option) prog" where
  "serve_packet C close_deadline payload =
     (if payload = [] then retM (Some close_deadline)
      else ifM over_threshold (throwM NETNOX_RETURN_FAILED) (serve_message C close_deadline payload))"

section \<open>Steps of a server\<close>

text \<open>
  What holds of every packet sent and received, of reading the clock and of writing to the child, and of a change of
  the windows or the closing of the channel, holds of the loop of a session and of all replies.
\<close>

locale server_steps = step_rel R for R :: "netnox_ssh_server_t \<Rightarrow> netnox_ssh_server_t \<Rightarrow> bool" +
  assumes sends: "always R (srv_send_packet C p)"
    and recvs: "always R (srv_recv_packet C m)"
    and reads_clock: "always R srv_nowM"
    and feeds_child: "always R (ioM (\<lambda>w. (Ok (), w\<lparr>child_input := child_input w @ d\<rparr>)))"
    and sets_windows: "R s (s\<lparr>local_window_size := n\<rparr>)" "R s (s\<lparr>remote_window_size := n\<rparr>)"
    and closes_channel: "R s (s\<lparr>channel_open := False\<rparr>)"
begin

lemma always_dep: "always R (\<lambda>s. liftM (f s) s)"
  by (simp add: always_def liftM_def refl)

lemma always_require: "always R (requireM b)"
  unfolding requireM_def by (intro always_rules)

lemma always_ignore: "always R m \<Longrightarrow> always R (ignoreM m)"
  unfolding ignoreM_def by (intro always_rules)

lemma always_or_stop: "always R m \<Longrightarrow> (\<And>a. always R (f a)) \<Longrightarrow> always R (or_stop m f)"
  unfolding or_stop_def by (intro always_rules) (auto split: res.split intro: always_rules)

lemma always_stop_if: "always R m \<Longrightarrow> always R (stop_if b m)"
  unfolding stop_if_def by (intro always_rules)

lemma always_bind_flow: "always R m \<Longrightarrow> (\<And>a. always R (f a)) \<Longrightarrow> always R (bind_flow m f)"
  unfolding bind_flow_def by (intro always_rules) (auto split: flow.split intro: always_rules)

lemma always_built: "always R (srv_send_built C n fs)"
  unfolding srv_send_built_def by (intro always_rules always_dep sends)

lemmas srv_rules = always_rules always_dep always_require always_ignore always_or_stop always_stop_if always_bind_flow
  always_built reads_clock sends recvs

lemma always_userauth_failure: "always R (srv_send_userauth_failure C b)"
  unfolding srv_send_userauth_failure_def by (rule always_built)

lemma always_or_refuse: "(\<And>a. always R (f a)) \<Longrightarrow> always R (or_refuse C r f)"
  unfolding or_refuse_def by (intro always_rules) (auto split: res.split intro: always_userauth_failure)

lemma always_write_child: "always R (write_childM ws d)"
  unfolding write_childM_def case_prod_beta by (intro always_rules feeds_child)

lemma always_close_wait: "always R (srv_begin_close_wait d)"
  unfolding srv_begin_close_wait_def by (intro srv_rules)

lemma always_global: "always R (srv_handle_global_request C p)"
  unfolding srv_handle_global_request_def srv_send_global_request_failure_def case_prod_beta by (intro srv_rules)

lemma always_channel_end: "always R (srv_handle_channel_end C p)"
  unfolding srv_handle_channel_end_def srv_send_channel_close_def case_prod_beta
  by (intro srv_rules always_set closes_channel)

lemma always_window_adjust: "always R (srv_maybe_window_adjust C)"
  unfolding srv_maybe_window_adjust_def by (intro srv_rules always_set sets_windows)

lemma always_chunk: "always R (srv_send_channel_data_chunk C d n)"
  unfolding srv_send_channel_data_chunk_def by (intro srv_rules always_set sets_windows)

lemma always_session_packet: "always R (session_packet C ws p)"
  unfolding session_packet_def session_data_def session_window_adjust_def session_request_def case_prod_beta
  by (intro srv_rules always_global always_channel_end always_window_adjust always_write_child always_set sets_windows)

lemma always_session_output: "always R (session_output C r)"
  unfolding session_output_def Let_def
  by (intro srv_rules) (auto split: read_t.split intro!: srv_rules always_chunk)

lemma always_session_finish: "always R (session_finish C st)"
  unfolding session_finish_def srv_send_exit_status_def srv_send_channel_eof_def srv_send_channel_close_def
  by (intro srv_rules always_set closes_channel)

lemma always_session_round: "always R (session_round_step C r eof st)"
  unfolding session_round_step_def Let_def case_prod_beta
  by (intro srv_rules always_session_packet always_session_output)
    (auto split: bool.split option.split intro: srv_rules always_session_finish)

lemma always_session_loop: "always R (session_loop C rs eof st)"
  by (induction rs arbitrary: eof st) (auto intro!: srv_rules always_session_round)

lemma always_requests: "always R (refuse_request C w)" "always R (accept_request C w)"
  unfolding refuse_request_def accept_request_def srv_send_channel_failure_def srv_send_channel_success_def
  by (intro srv_rules)+

lemma always_channel_data: "always R (serve_channel_data C p)"
  unfolding serve_channel_data_def case_prod_beta
  by (intro srv_rules always_window_adjust always_set) (simp add: refl sets_windows)

lemma always_serve_end: "always R (serve_channel_end C d p)"
  unfolding serve_channel_end_def by (intro srv_rules always_channel_end always_close_wait)

end

interpretation cx: server_steps ctx_step
proof unfold_locales
  show "always ctx_step srv_nowM"
    unfolding srv_nowM_def by (rule always_ioM) (simp add: always_def srv_now_ms_def io_step_def)
  show "always ctx_step (ioM (\<lambda>w. (Ok (), w\<lparr>child_input := child_input w @ d\<rparr>)))" for d
    by (rule always_ioM) (simp add: always_def io_step_def)
qed (simp_all add: always_srv_send_packet always_srv_recv_packet ctx_step_def)

text \<open>
  With the interruptions of \<open>poll\<close>, the start of a child and every change of the login, the terminal and the channel, it
  holds of the handling of every message.
\<close>

locale serve_steps = server_steps +
  assumes polls: "always R next_poll"
    and spawns: "always R (\<lambda>s. next_child (g s) s)"
    and sets_login: "R s (s\<lparr>authenticated_user := u, authenticated := True, connection_service_ready := True\<rparr>)"
      "R s (s\<lparr>userauth_service_ready := True\<rparr>)" "R s (s\<lparr>connection_service_ready := True\<rparr>)"
      "R s (s\<lparr>auth_attempts := k\<rparr>)"
    and sets_session: "R s (s\<lparr>session_started := True\<rparr>)"
      "R s (s\<lparr>pty_term := trm, pty_cols := cols, pty_rows := rows, pty_width := width, pty_height := height, want_pty := True\<rparr>)"
    and sets_channel: "R s (s\<lparr>remote_window_size := a, remote_max_packet_size := b\<rparr>)"
      "R s (s\<lparr>local_channel_id := c, remote_channel_id := d, local_window_size := a\<rparr>)" "R s (s\<lparr>channel_open := True\<rparr>)"
begin

lemmas sets = sets_login sets_session sets_channel sets_windows closes_channel

lemma always_wait_close: "always R (srv_wait_close_packet d)"
  unfolding srv_wait_close_packet_def by (intro srv_rules polls)

lemma always_userauth: "always R (srv_handle_userauth_request C p)"
  unfolding srv_handle_userauth_request_def userauth_publickey_def check_signature_def srv_send_userauth_success_def
    srv_send_userauth_pk_ok_def case_prod_beta
  by (intro srv_rules always_or_refuse always_userauth_failure always_set sets)

lemma always_run_session: "always R (srv_run_session_unix C cmd sh)"
  unfolding srv_run_session_unix_def
  by (intro srv_rules spawns always_session_loop always_set sets)
    (auto split: flow.split intro!: srv_rules always_set sets)

lemma always_pty: "always R (serve_pty_request C p off w)"
  unfolding serve_pty_request_def
  by (intro srv_rules always_requests) (auto split: res.split intro!: srv_rules always_requests always_set sets)

lemma always_serve_run: "always R (run_session C cmd sh d w)"
  unfolding run_session_def by (intro srv_rules always_requests always_run_session always_close_wait)

lemma always_named_request: "always R (serve_named_request C d p req off w)"
  unfolding serve_named_request_def
  by (intro srv_rules always_pty always_serve_run always_requests)
    (auto split: res.split intro!: srv_rules always_serve_run always_requests)

lemma always_serve_message: "always R (serve_message C d p)"
  unfolding serve_message_def Let_def serve_service_request_def serve_userauth_request_def serve_channel_open_def
    serve_channel_request_def srv_send_service_accept_def srv_send_channel_open_confirmation_def case_prod_beta
  by (intro srv_rules always_global always_userauth always_named_request always_channel_data always_serve_end
      always_set sets)

lemma always_serve_packet: "always R (serve_packet C d p)"
  unfolding serve_packet_def by (intro srv_rules always_serve_message)

end

interpretation cxs: serve_steps ctx_step
proof unfold_locales
  show "always ctx_step next_poll"
    unfolding next_poll_def
    by (rule always_ioM) (auto simp: always_def io_step_def suffix_def split: list.split)
  show "always ctx_step (\<lambda>s. next_child (g s) s)" for g
    by (rule alwaysI)
      (auto simp: next_child_def ioM_def ctx_step_def io_step_def split: list.splits option.splits prod.splits)
qed (simp_all add: ctx_step_def)

definition srv_unread :: "netnox_ssh_server_t \<Rightarrow> nat" where
  "srv_unread s = length (rx_of s) + length (polls (io_user_data s))"

lemma srv_unread_mono: "ctx_step s t \<Longrightarrow> srv_unread t \<le> srv_unread s"
  by (auto simp: srv_unread_def ctx_step_def io_step_def rx_of_def suffix_def)

lemma consumes_after: "always ctx_step m \<Longrightarrow> (\<And>a. consumes (f a)) \<Longrightarrow> consumes (bindM m f)"
  unfolding consumes_def bindM_Ok by (meson alwaysD ctx_step_unread less_le_trans)

lemma consumes_srv_recv_exact: "n \<noteq> 0 \<Longrightarrow> consumes (checkedM e (srv_recv_exact n room))"
  unfolding consumes_def checkedM_Ok
  by (auto dest!: srv_bounded.rcv_Ok simp: rx_of_def) (simp add: unat_gt_0)

lemma consumes_srv_recv_packet: "consumes (srv_recv_packet C m)"
  unfolding srv_recv_packet_def srv_recv_body_def recv_unfold
  by (rule consumes_after [OF cx.reads_clock], rule consumes_after, rule always_setM_ctx, simp,
      intro consumes_ifM consumes_bind consumes_srv_recv_exact kex_always always_srv_recv_exact always_aesM always_macM)
    simp_all

subsection \<open>Serving a connection\<close>

text \<open>
  \<open>for(;;)\<close>: each round takes a packet, or after an interrupted \<open>poll\<close> only that result, so the loop ends when the
  peer and the system have nothing more to say.
\<close>

function serve_loop :: "noxtls \<Rightarrow> u64 \<Rightarrow> (netnox_ssh_server_t, unit) prog" where
  "serve_loop C close_deadline s =
     bindM (if close_deadline \<noteq> 0 then srv_wait_close_packet close_deadline else retM Readable) (\<lambda>ready s1.
     case ready of
       Over \<Rightarrow> (Ok (), s1)
     | Wait_failed \<Rightarrow> (Err NETNOX_RETURN_FAILED, s1)
     | Retry \<Rightarrow> serve_loop C close_deadline s1
     | Readable \<Rightarrow>
         bindM (tryM (srv_recv_packet C 35000)) (\<lambda>r s2.
         case r of
           Ok payload \<Rightarrow>
             bindM (serve_packet C close_deadline payload) (\<lambda>goes_on s3.
             case goes_on of None \<Rightarrow> (Ok (), s3) | Some d \<Rightarrow> serve_loop C d s3) s2
         | _ \<Rightarrow> (Ok (), s2)) s1) s"
  by pat_completeness auto

lemma poll_outcome_retry: "poll_outcome p = Retry \<longleftrightarrow> p = Poll_eintr"
  by (cases p) simp_all

lemma wait_retry_consumes: "srv_wait_close_packet d s = (Ok Retry, t) \<Longrightarrow> srv_unread t < srv_unread s"
proof -
  assume "srv_wait_close_packet d s = (Ok Retry, t)"
  then obtain now s1 where n: "srv_nowM s = (Ok now, s1)" and p: "next_poll s1 = (Ok Poll_eintr, t)"
    unfolding srv_wait_close_packet_def by (auto simp: res_iff poll_outcome_retry eq_commute [of Retry] split: if_splits)
  have "srv_unread s1 \<le> srv_unread s" using alwaysD [OF cx.reads_clock n] by (rule srv_unread_mono)
  moreover have "srv_unread t < srv_unread s1"
    using p by (auto simp: next_poll_def ioM_def srv_unread_def rx_of_def split: list.splits prod.splits)
  ultimately show ?thesis by simp
qed

lemma close_wait_unread:
  "(if d \<noteq> 0 then srv_wait_close_packet d else retM Readable) s = (Ok r, t) \<Longrightarrow>
   srv_unread t \<le> srv_unread s \<and> (r = Retry \<longrightarrow> srv_unread t < srv_unread s)"
proof (cases "d = 0")
  case False
  assume "(if d \<noteq> 0 then srv_wait_close_packet d else retM Readable) s = (Ok r, t)"
  with False have run: "srv_wait_close_packet d s = (Ok r, t)" by simp
  have "srv_unread t \<le> srv_unread s" using alwaysD [OF cxs.always_wait_close run] by (rule srv_unread_mono)
  then show ?thesis using run wait_retry_consumes [of d s t] by auto
qed (simp add: retM_def)

lemma recv_unread: "srv_recv_packet C m s = (Ok p, t) \<Longrightarrow> srv_unread t < srv_unread s"
proof -
  assume run: "srv_recv_packet C m s = (Ok p, t)"
  have "ctx_step s t" using always_srv_recv_packet run by (rule alwaysD)
  moreover have "length (rx_of t) < length (rx_of s)"
    using consumes_srv_recv_packet run unfolding consumes_def by blast
  ultimately show ?thesis by (auto simp: srv_unread_def ctx_step_def io_step_def suffix_def)
qed

termination serve_loop
proof (relation "measure (\<lambda>(C, d, s). srv_unread s)", goal_cases)
  case 1
  then show ?case by simp
next
  case (2 C d s ready s1 r s2 p g s3 d')
  have "srv_unread s1 \<le> srv_unread s" using close_wait_unread [OF 2(1)] by simp
  moreover have "srv_unread s2 < srv_unread s1"
    using 2 by (intro recv_unread [of C 35000 s1 p]) (auto simp: res_iff)
  moreover have "srv_unread s3 \<le> srv_unread s2"
    using alwaysD [OF cxs.always_serve_packet 2(5)] by (rule srv_unread_mono)
  ultimately show ?case by simp
next
  case (3 C d s ready s1)
  then show ?case using close_wait_unread [OF 3(1)] by simp
qed

declare serve_loop.simps [simp del]

context serve_steps
begin

lemma always_serve_loop: "always R (serve_loop C d)"
proof -
  have "R s (snd (serve_loop C d s))" for s
  proof (induction C d s rule: serve_loop.induct)
    case (1 C d s)
    obtain q s1 where w: "(if d \<noteq> 0 then srv_wait_close_packet d else retM Readable) s = (q, s1)" by fastforce
    have s1: "R s s1" using w by (rule alwaysD [rotated]) (intro srv_rules always_wait_close)
    obtain r s2 where recv: "tryM (srv_recv_packet C 35000) s1 = (r, s2)" by fastforce
    have s2: "R s1 s2" using recv by (rule alwaysD [OF always_try [OF recvs]])
    show ?case
    proof (cases "\<exists>p. q = Ok Readable \<and> tryM (srv_recv_packet C 35000) s1 = (Ok (Ok p), s2)")
      case True
      then obtain p where q: "q = Ok Readable" and p: "tryM (srv_recv_packet C 35000) s1 = (Ok (Ok p), s2)" by blast
      obtain g s3 where g: "serve_packet C d p s2 = (g, s3)" by fastforce
      have s3: "R s s3" using trans [OF trans [OF s1 s2] alwaysD [OF always_serve_packet g]] .
      have "R s3 (snd (serve_loop C d' s3))" if "g = Ok (Some d')" for d'
        using 1(1) [OF w [unfolded q] HOL.refl p HOL.refl g [unfolded that] HOL.refl] .
      then show ?thesis using trans [OF s3] s3
        by (subst serve_loop.simps, cases g) (auto simp: bindM_def w q p g split: option.split)
    next
      case False
      have "R s1 (snd (serve_loop C d s1))" if "q = Ok Retry" using 1(2) [OF w [unfolded that] HOL.refl] .
      then show ?thesis using False s1 trans [OF s1] trans [OF s1 s2] recv
        by (subst serve_loop.simps, cases q) (auto simp: bindM_def w split: close_wait.split res.split)
    qed
  qed
  then show ?thesis by (simp add: always_def)
qed

end

definition netnox_ssh_server_serve_one :: "noxtls \<Rightarrow> (netnox_ssh_server_t, unit) prog" where
  "netnox_ssh_server_serve_one C =
     bindM (requireM (\<lambda>s. send_cb s \<and> recv_cb s)) (\<lambda>_.
     bindM srv_nowM (\<lambda>now.
     bindM (setM (\<lambda>s. s\<lparr>handshake_deadline_ms := now + 30000\<rparr>)) (\<lambda>_.
     bindM (checkedM NETNOX_RETURN_FAILED (srv_handshake_to_encrypted C)) (\<lambda>_.
     serve_loop C 0))))"

end
