(* ===== verification/Nox_Login.thy ===== *)
theory Nox_Login
  imports Nox_Lifecycle Nox_Server
begin

text \<open>
  Who may run what on the server: the fields of a publickey request, what proves a login, and an invariant of the
  whole connection, from the first byte of the handshake to the end of \<open>serve_one\<close>.
\<close>

section \<open>Reading back\<close>

lemma view_at_Ok:
  assumes "view_at (p, n) off = Ok (v, off')" and "unat n \<le> length p" and "length p < 2 ^ 31"
    and "unat off < 2 ^ 31" and "unat (snd v) < 2 ^ 31"
  obtains pre d post where "p = pre @ ssh_string d @ post" "length pre = unat off" "v = (d @ post, u32len d)"
    "off' = u32len (pre @ ssh_string d)" "length (pre @ ssh_string d) \<le> unat n"
proof -
  have off4: "unat (off + 4) = unat off + 4" using assms(4) by (subst unat_u32_add) auto
  obtain m where m: "\<not> off + 4 > n" "netnox_ssh_read_u32_be (drop (unat off) p) = Ok m"
    "\<not> off + 4 + m > n" "v = (drop (unat (off + 4)) p, m)" "off' = off + 4 + m"
    using assms(1) by (auto simp: view_at_def netnox_ssh_payload_read_string_view_def
        netnox_ssh_payload_read_u32_def res_iff split: if_splits)
  have offn: "unat off + 4 \<le> unat n" using m(1) off4 by (simp add: u32_less_iff)
  have sum: "unat (off + 4 + m) = unat off + 4 + unat m"
    using assms(2,3,5) m(4) offn off4 by (subst unat_u32_add) auto
  then have le: "unat off + 4 + unat m \<le> unat n" using m(3) by (simp add: u32_less_iff)
  define d where "d = take (unat m) (drop (unat off + 4) p)"
  have ld: "length d = unat m" using le assms(2) by (simp add: d_def)
  have um: "u32len d = m" by (simp add: u32len_def ld)
  obtain a b c e r where four: "drop (unat off) p = a # b # c # e # r" "m = be32 a b c e"
    using m(2) by (cases "drop (unat off) p" rule: netnox_ssh_read_u32_be.cases) auto
  have r: "r = drop (unat off + 4) p"
    using arg_cong [OF four(1), of "drop 4"] by (simp add: add.commute)
  have "drop (unat off) p = netnox_ssh_write_u32_be m @ r" by (simp add: four write_be32)
  also have rd: "r = d @ drop (unat m) r" by (simp only: d_def r append_take_drop_id)
  finally have split: "drop (unat off) p = ssh_string d @ drop (unat m) r" by (simp add: ssh_string_def um)
  have p: "p = take (unat off) p @ ssh_string d @ drop (unat m) r" using split by (metis append_take_drop_id)
  have lp: "length (take (unat off) p) = unat off" using le assms(2) by simp
  show thesis
  proof (rule that [OF p lp])
    have "v = (r, m)" using m(4) off4 r by simp
    then show "v = (d @ drop (unat m) r, u32len d)" by (simp only: um rd [symmetric])
    show "off' = u32len (take (unat off) p @ ssh_string d)"
      using m(5) lp um by (simp add: u32len_append u32len_def ld ssh_string_def add.assoc)
    show "length (take (unat off) p @ ssh_string d) \<le> unat n" using le lp ld by simp
  qed
qed

lemma view_at_next: "view_at v off = Ok (u, off') \<Longrightarrow> off' = off + 4 + snd u"
  by (auto simp: view_at_def netnox_ssh_payload_read_string_view_def netnox_ssh_payload_read_u32_def res_iff split: if_splits)

lemma view_eq_True: "view_eq (d @ post, u32len d) tok = Ok True \<Longrightarrow> length d < 2 ^ 31 \<Longrightarrow> length tok < 2 ^ 31 \<Longrightarrow> d = tok"
proof -
  assume a: "view_eq (d @ post, u32len d) tok = Ok True" "length d < 2 ^ 31" "length tok < 2 ^ 31"
  then have "u32len d = u32len tok" by (auto simp: view_eq_def split: if_splits)
  then have "length d = length tok" using a(2,3) unat_u32len [of d] unat_u32len [of tok] by simp
  then show ?thesis using a(1) by (auto simp: view_eq_def res_iff split: if_splits)
qed

lemma view_eq_same [simp]: "view_eq (d @ post, u32len d) d = Ok True"
  by (simp add: view_eq_def fetch_def)

text \<open>The message of RFC 4252, section 7, without its signature, and what the signature covers.\<close>

definition userauth_head :: "bytes \<Rightarrow> bytes \<Rightarrow> bytes" where
  "userauth_head user auth_method = 50 # ssh_string user @ ssh_string service_connection @ ssh_string auth_method"

definition publickey_request :: "byte \<Rightarrow> bytes \<Rightarrow> bytes \<Rightarrow> bytes" where
  "publickey_request flag user pk = userauth_head user (ascii ''publickey'') @ [flag] @
     ssh_string keyalg_ed25519 @ ssh_string (ed25519_blob pk)"


lemma views_eq_True: "views_eq (a @ x, u32len a) (b @ y, u32len b) = Ok True \<Longrightarrow> length a < 2 ^ 31 \<Longrightarrow> length b < 2 ^ 31 \<Longrightarrow> a = b"
proof -
  assume r: "views_eq (a @ x, u32len a) (b @ y, u32len b) = Ok True" "length a < 2 ^ 31" "length b < 2 ^ 31"
  then have "u32len a = u32len b" by (auto simp: views_eq_def split: if_splits)
  then have "length a = length b" "unat (u32len b) = length b" using r(2,3) unat_u32len [of a] unat_u32len [of b] by simp_all
  then show ?thesis using r(1) by (auto simp: views_eq_def res_iff split: if_splits)
qed

lemma view_eq_bound: "view_eq v tok = Ok True \<Longrightarrow> length tok < 2 ^ 31 \<Longrightarrow> unat (snd v) < 2 ^ 31"
  by (auto simp: view_eq_def unat_u32len split: if_splits)

lemma length_keyalg [simp]: "length keyalg_ed25519 = 11"
  by (simp add: keyalg_ed25519_def)

lemma view_at_prefix:
  assumes "view_at (pre @ rest, n) (u32len pre) = Ok (v, off')" and "unat n \<le> length (pre @ rest)"
    and "length (pre @ rest) < 2 ^ 31" and "unat (snd v) < 2 ^ 31"
  obtains d post where "rest = ssh_string d @ post" "v = (d @ post, u32len d)" "off' = u32len (pre @ ssh_string d)"
    "length (pre @ ssh_string d) \<le> unat n"
proof -
  have u: "unat (u32len pre) = length pre" using assms(3) by (simp add: unat_u32len)
  obtain q d post where q: "pre @ rest = q @ ssh_string d @ post" "length q = unat (u32len pre)" "v = (d @ post, u32len d)"
    "off' = u32len (q @ ssh_string d)" "length (q @ ssh_string d) \<le> unat n"
    by (rule view_at_Ok [OF assms(1-3)]) (use assms(3,4) u in auto)
  have "q = pre" "rest = ssh_string d @ post" using q(1,2) u by auto
  with q that show ?thesis by blast
qed

lemma view_at_token:
  assumes "view_at (pre @ rest, n) (u32len pre) = Ok (v, off')" and "view_eq v tok = Ok True"
    and "unat n \<le> length (pre @ rest)" and "length (pre @ rest) < 2 ^ 31" and "length tok < 2 ^ 31"
  obtains post where "rest = ssh_string tok @ post" "v = (tok @ post, u32len tok)" "off' = u32len (pre @ ssh_string tok)"
    "length (pre @ ssh_string tok) \<le> unat n"
proof -
  obtain d post where d: "rest = ssh_string d @ post" "v = (d @ post, u32len d)" "off' = u32len (pre @ ssh_string d)"
    "length (pre @ ssh_string d) \<le> unat n"
    by (rule view_at_prefix [OF assms(1,3,4) view_eq_bound [OF assms(2,5)]])
  have "d = tok" using assms(2,4,5) d(1) by (intro view_eq_True [of d post]) (simp_all add: d(2))
  with d that show ?thesis by blast
qed

text \<open>A key blob of the wire format inside a longer buffer.\<close>

lemma key_blob_Ok:
  assumes "view_at (blob @ post, u32len blob) 0 = Ok (blob_alg, b1)"
    and "view_at (blob @ post, u32len blob) b1 = Ok (key, u32len blob)"
    and "views_eq blob_alg (keyalg_ed25519 @ r, u32len keyalg_ed25519) = Ok True" and "snd key = u32len k0"
    and "length (blob @ post) < 2 ^ 31" and "length k0 < 2 ^ 31"
  obtains k where "blob = ed25519_blob k" "length k = length k0" "key = (k @ post, u32len k)"
proof -
  have ub: "unat (u32len blob) = length blob" using assms(5) by (simp add: unat_u32len)
  have sa: "unat (snd blob_alg) < 2 ^ 31"
    using assms(3) by (auto simp: views_eq_def unat_u32len split: if_splits)
  obtain a post1 where a: "blob @ post = ssh_string a @ post1" "blob_alg = (a @ post1, u32len a)" "b1 = u32len (ssh_string a)"
    "length (ssh_string a) \<le> length blob"
    using view_at_prefix [of "[]" "blob @ post" "u32len blob" blob_alg b1] assms(1,5) sa ub by auto
  have "length a < 2 ^ 31" using a(1) assms(5) arg_cong [OF a(1), of length] by simp
  then have aa: "a = keyalg_ed25519" using assms(3) a(2) by (intro views_eq_True [of a post1 _ r]) simp_all
  have v2: "view_at (ssh_string a @ post1, u32len blob) (u32len (ssh_string a)) = Ok (key, u32len blob)"
    using assms(2) a(1,3) by simp
  have sk: "unat (snd key) < 2 ^ 31" using assms(4,6) by (simp add: unat_u32len)
  obtain k post2 where k: "post1 = ssh_string k @ post2" "key = (k @ post2, u32len k)"
    "u32len blob = u32len (ssh_string a @ ssh_string k)" "length (ssh_string a @ ssh_string k) \<le> unat (u32len blob)"
    by (rule view_at_prefix [OF v2 _ _ sk]) (use a(1) [symmetric] assms(5) ub in auto)
  have "length (ssh_string a @ ssh_string k) < 2 ^ 32" using k(4) ub assms(5) by simp
  then have lb: "length blob = length (ssh_string a @ ssh_string k)"
    using k(3) ub unat_u32len [of "ssh_string a @ ssh_string k"] by simp
  have "blob @ post = (ssh_string a @ ssh_string k) @ post2" using a(1) k(1) by simp
  then have "blob = ssh_string a @ ssh_string k \<and> post = post2"
    by (rule append_eq_append_conv [THEN iffD1, OF disjI1 [OF lb]])
  moreover have "length k = length k0"
    using assms(4,6) k(2) lb assms(5) unat_u32len [of k] unat_u32len [of k0] by simp
  ultimately show ?thesis using that [of k] k(2) aa by (simp add: ed25519_blob_def keyalg_ed25519_def)
qed


lemma publickey_fields_Ok:
  assumes "publickey_fields (pre @ rest) (u32len pre) = Ok (flag, alg, key_blob, key, req_len)"
    and "length (pre @ rest) < 2 ^ 31"
  obtains pk post where "rest = [flag] @ ssh_string keyalg_ed25519 @ ssh_string (ed25519_blob pk) @ post"
    "length pk = 32" "key = (pk @ post, 32)" "\<exists>r. alg = (keyalg_ed25519 @ r, u32len keyalg_ed25519)"
    "req_len = u32len (pre @ [flag] @ ssh_string keyalg_ed25519 @ ssh_string (ed25519_blob pk))" "flag \<le> 1"
proof -
  let ?p = "pre @ rest"
  obtain o1 blob_alg b1 where f: "u32len pre < u32len ?p" "fetch1 ?p (unat (u32len pre)) = Ok flag" "\<not> flag > 1"
    "view_at (?p, u32len ?p) (u32len pre + 1) = Ok (alg, o1)" "view_at (?p, u32len ?p) o1 = Ok (key_blob, req_len)"
    "view_eq alg keyalg_ed25519 = Ok True" "view_at key_blob 0 = Ok (blob_alg, b1)"
    "view_at key_blob b1 = Ok (key, snd key_blob)" "views_eq blob_alg alg = Ok True" "snd key = 32"
    using assms(1) by (auto simp: publickey_fields_def bindR_Ok split: if_splits)
  have up: "unat (u32len ?p) = length ?p" "unat (u32len pre) = length pre" using assms(2) by (simp_all add: unat_u32len)
  obtain rest1 where r1: "rest = flag # rest1"
    using f(2) up by (cases rest) (auto simp: fetch1_def nth_append split: if_splits)
  let ?q = "pre @ [flag]"
  have p: "?p = ?q @ rest1" by (simp add: r1)
  have o: "u32len pre + 1 = u32len ?q" by (simp add: u32len_append u32len_def)
  obtain post1 where a: "rest1 = ssh_string keyalg_ed25519 @ post1" "alg = (keyalg_ed25519 @ post1, u32len keyalg_ed25519)"
    "o1 = u32len (?q @ ssh_string keyalg_ed25519)"
    by (rule view_at_token [OF f(4) [unfolded p o] f(6)]) (use assms(2) up(1) r1 in simp_all)
  let ?q2 = "?q @ ssh_string keyalg_ed25519"
  have p2: "?p = ?q2 @ post1" by (simp add: r1 a(1))
  have "snd blob_alg = 11" using f(9) by (auto simp: views_eq_def a(2) u32len_def split: if_splits)
  then have "snd key_blob = 51"
    using view_at_next [OF f(7)] view_at_next [OF f(8)] f(10) by simp
  then have sb: "unat (snd key_blob) < 2 ^ 31" by simp
  obtain blob post where b: "post1 = ssh_string blob @ post" "key_blob = (blob @ post, u32len blob)"
    "req_len = u32len (?q2 @ ssh_string blob)"
    by (rule view_at_prefix [OF f(5) [unfolded p2 a(3)] _ _ sb]) (use assms(2) up(1) r1 a(1) in simp_all)
  have lb: "length (blob @ post) < 2 ^ 31" using assms(2) by (simp add: p2 b(1))
  obtain k where k: "blob = ed25519_blob k" "length k = 32" "key = (k @ post, u32len k)"
    by (rule key_blob_Ok [of blob post blob_alg b1 key post1 "replicate 32 0"])
      (use f(7-10) lb in \<open>simp_all add: b(2) a(2) u32len_32\<close>)
  show thesis
    using that [of k post] r1 a b k f(3) by (simp add: u32len_32)
qed


lemma signature_field_Ok:
  assumes "signature_field (pre @ rest) (u32len pre) (keyalg_ed25519 @ r, u32len keyalg_ed25519) = Ok sig"
    and "length (pre @ rest) < 2 ^ 31"
  obtains sg where "rest = ssh_string (ed25519_blob sg)" "length sg = 64" "sig = (sg, 64)"
proof -
  let ?p = "pre @ rest"
  obtain sig_blob sig_alg s1 where f: "view_at (?p, u32len ?p) (u32len pre) = Ok (sig_blob, u32len ?p)"
    "view_at sig_blob 0 = Ok (sig_alg, s1)" "view_at sig_blob s1 = Ok (sig, snd sig_blob)"
    "views_eq sig_alg (keyalg_ed25519 @ r, u32len keyalg_ed25519) = Ok True" "snd sig = 64"
    using assms(1) by (auto simp: signature_field_def bindR_Ok split: if_splits)
  have up: "unat (u32len ?p) = length ?p" using assms(2) by (simp add: unat_u32len)
  have "snd sig_alg = 11" using f(4) by (auto simp: views_eq_def u32len_def split: if_splits)
  then have "snd sig_blob = 83" using view_at_next [OF f(2)] view_at_next [OF f(3)] f(5) by simp
  then have sb: "unat (snd sig_blob) < 2 ^ 31" by simp
  obtain blob post where b: "rest = ssh_string blob @ post" "sig_blob = (blob @ post, u32len blob)"
    "u32len ?p = u32len (pre @ ssh_string blob)" "length (pre @ ssh_string blob) \<le> unat (u32len ?p)"
    by (rule view_at_prefix [OF f(1) _ _ sb]) (use assms(2) up in simp_all)
  have "length ?p = length (pre @ ssh_string blob)"
    using b(3) up unat_u32len [of "pre @ ssh_string blob"] b(4) assms(2) by simp
  then have post: "post = []" using b(1) by simp
  have lb: "length (blob @ post) < 2 ^ 31" using assms(2) by (simp add: b(1))
  obtain k where k: "blob = ed25519_blob k" "length k = 64" "sig = (k @ post, u32len k)"
    by (rule key_blob_Ok [of blob post sig_alg s1 sig r "replicate 64 0"])
      (use f(2-5) lb in \<open>simp_all add: b(2) u32len_def\<close>)
  show thesis using that [of k] b(1) k post by (simp add: u32len_def)
qed

lemma ucast_byte_u32: "(word_of_nat (unat (b :: byte)) :: u32) = ucast b"
  by transfer simp

lemma signed_data_Ok:
  assumes "signed_data (req @ rest) (u32len req) s = Ok d" and "length req < 2 ^ 32"
  shows "d = ssh_string (take (unat (session_id_len s)) (session_id s)) @ req"
proof -
  have u: "unat (u32len req) = length req" using assms(2) by (rule unat_u32len)
  have "unat (session_id_len s) \<le> length (session_id s)"
    and d: "d = netnox_ssh_write_u32_be (ucast (session_id_len s)) @ take (unat (session_id_len s)) (session_id s) @ req"
    using assms(1) u by (auto simp: signed_data_def res_iff)
  then have "u32len (take (unat (session_id_len s)) (session_id s)) = ucast (session_id_len s)"
    by (simp add: u32len_def min_absorb2 ucast_byte_u32)
  with d show ?thesis by (simp add: ssh_string_def)
qed

text \<open>What the fields of a signed publickey request determine.\<close>

lemma login_message:
  assumes "fetch1 p 0 = Ok 50" and "length p < 2 ^ 31"
    and user: "view_at (p, u32len p) 1 = Ok (user, o1)" "\<not> 65 \<le> snd user" "fetch (fst user) (unat (snd user)) = Ok uname"
    and service: "view_at (p, u32len p) o1 = Ok (service, o2)" "view_eq service service_connection = Ok True"
    and auth: "view_at (p, u32len p) o2 = Ok (auth_method, o3)" "view_eq auth_method (ascii ''publickey'') = Ok True"
    and key: "publickey_fields p o3 = Ok (flag, alg, key_blob, key, req_len)" "fetch (fst key) 32 = Ok pk"
  obtains post where "p = publickey_request flag uname pk @ post" "length pk = 32" "flag \<le> 1"
    "req_len = u32len (publickey_request flag uname pk)" "\<exists>r. alg = (keyalg_ed25519 @ r, u32len keyalg_ed25519)"
proof -
  obtain p1 where p1: "p = [50] @ p1" using assms(1) by (cases p) (auto simp: fetch1_def split: if_splits)
  have up: "unat (u32len p) = length p" using assms(2) by (simp add: unat_u32len)
  have su: "unat (snd user) < 2 ^ 31" using user(2) by (simp add: word_le_nat_alt)
  have v1: "view_at ([50] @ p1, u32len p) (u32len [50]) = Ok (user, o1)" using user(1) p1 by (simp add: u32len_def)
  obtain d p2 where u: "p1 = ssh_string d @ p2" "user = (d @ p2, u32len d)" "o1 = u32len ([50] @ ssh_string d)"
    by (rule view_at_prefix [OF v1 _ _ su]) (use assms(2) up p1 in simp_all)
  have ld: "unat (u32len d) = length d" using assms(2) by (intro unat_u32len) (simp add: p1 u(1))
  then have du: "d = uname" using user(3) by (simp add: u(2) fetch_def)
  let ?q1 = "[50] @ ssh_string uname"
  have v2: "view_at (?q1 @ p2, u32len p) (u32len ?q1) = Ok (service, o2)" using service(1) p1 u du by simp
  obtain p3 where sv: "p2 = ssh_string service_connection @ p3" "o2 = u32len (?q1 @ ssh_string service_connection)"
    by (rule view_at_token [OF v2 service(2)]) (use assms(2) up p1 u du in \<open>simp_all add: service_connection_def\<close>)
  let ?q2 = "?q1 @ ssh_string service_connection"
  have v3: "view_at (?q2 @ p3, u32len p) (u32len ?q2) = Ok (auth_method, o3)" using auth(1) p1 u du sv by simp
  obtain p4 where m: "p3 = ssh_string (ascii ''publickey'') @ p4" "o3 = u32len (?q2 @ ssh_string (ascii ''publickey''))"
    by (rule view_at_token [OF v3 auth(2)]) (use assms(2) up p1 u du sv in simp_all)
  let ?q3 = "?q2 @ ssh_string (ascii ''publickey'')"
  have p: "p = ?q3 @ p4" using p1 u du sv m by simp
  obtain k post where k: "p4 = [flag] @ ssh_string keyalg_ed25519 @ ssh_string (ed25519_blob k) @ post"
    "length k = 32" "key = (k @ post, 32)" "\<exists>r. alg = (keyalg_ed25519 @ r, u32len keyalg_ed25519)"
    "req_len = u32len (?q3 @ [flag] @ ssh_string keyalg_ed25519 @ ssh_string (ed25519_blob k))" "flag \<le> 1"
    by (rule publickey_fields_Ok [OF key(1) [unfolded p m(2)]]) (use assms(2) p in auto)
  have "pk = k" using key(2) k(2,3) by (simp add: fetch_def)
  then show thesis using that [of post] p k by (simp add: publickey_request_def userauth_head_def)
qed

section \<open>What proves a login\<close>

text \<open>The callback allowed this key for this user, and the key signed the request bound to this session.\<close>

definition proven_login :: "noxtls \<Rightarrow> netnox_ssh_server_t \<Rightarrow> bytes \<Rightarrow> bool" where
  "proven_login C s user \<longleftrightarrow> (\<exists>pk sig allowed. publickey_allowed_cb s = Some allowed \<and> allowed user pk \<and> length pk = 32 \<and>
     noxtls_ed25519_verify C pk (ssh_string (take (unat (session_id_len s)) (session_id s)) @ publickey_request 1 user pk) sig)"

text \<open>The part of a server that packets, the clock and a running session leave alone.\<close>

definition login_part where
  "login_part (s :: netnox_ssh_server_t) = (connected s, kexinit_exchanged s, key_exchange_complete s,
     userauth_service_ready s, connection_service_ready s, authenticated s, authenticated_user s, auth_attempts s,
     (session_id s, session_id_len s), publickey_allowed_cb s, local_channel_id s, remote_channel_id s,
     spawned (io_user_data s))"

definition in_session :: "netnox_ssh_server_t \<Rightarrow> netnox_ssh_server_t \<Rightarrow> bool" where
  "in_session s t \<longleftrightarrow> login_part t = login_part s \<and> (channel_open t \<longrightarrow> channel_open s)"

interpretation iss: server_steps in_session
proof unfold_locales
  show "always in_session (srv_send_packet C p)" for C p
    by (rule always_mono [OF ss_send_packet], erule srv_sendsE) (auto simp: in_session_def login_part_def only_sends_def os_same_def)
  show "always in_session (srv_recv_packet C m)" for C m
    by (rule always_mono [OF sr_recv_packet], erule srv_recvsE) (auto simp: in_session_def login_part_def only_recvs_def os_same_def)
  show "always in_session srv_nowM"
    by (rule alwaysI) (auto simp: srv_nowM_def ioM_def srv_now_ms_def in_session_def login_part_def)
  show "always in_session (ioM (\<lambda>w. (Ok (), w\<lparr>child_input := child_input w @ d\<rparr>)))" for d
    by (rule alwaysI) (auto simp: ioM_def in_session_def login_part_def)
qed (auto simp: in_session_def login_part_def)

lemma proven_login_cong: "login_part t = login_part s \<Longrightarrow> proven_login C t u = proven_login C s u"
  by (simp add: proven_login_def login_part_def)

text \<open>
  The order of the states of a connection, at most \<open>n\<close> authentication requests, at most one child, and a child only
  for the user whose login was proven.
\<close>

definition serve_inv :: "noxtls \<Rightarrow> nat \<Rightarrow> netnox_ssh_server_t \<Rightarrow> bool" where
  "serve_inv C n s \<longleftrightarrow> (userauth_service_ready s \<longrightarrow> key_exchange_complete s) \<and> (channel_open s \<longrightarrow> connection_service_ready s) \<and>
     (connection_service_ready s \<longrightarrow> authenticated s) \<and>
     (authenticated s \<longrightarrow> userauth_service_ready s \<and> authenticated_user s \<noteq> [] \<and> proven_login C s (authenticated_user s)) \<and>
     unat (auth_attempts s) \<le> n \<and> length (spawned (io_user_data s)) \<le> 1 \<and>
     (\<forall>sp \<in> set (spawned (io_user_data s)). authenticated s \<and> fst sp = authenticated_user s)"

definition serve_ready :: "noxtls \<Rightarrow> netnox_ssh_server_t \<Rightarrow> bool" where
  "serve_ready C s \<longleftrightarrow> serve_inv C 6 s \<and> key_exchange_complete s"

text \<open>Between two messages: once a child has run, the channel is closed and the deadline set.\<close>

definition serve_at :: "noxtls \<Rightarrow> u64 \<Rightarrow> netnox_ssh_server_t \<Rightarrow> bool" where
  "serve_at C d s \<longleftrightarrow> serve_ready C s \<and> (spawned (io_user_data s) = [] \<or> d \<noteq> 0 \<and> \<not> channel_open s)"

lemma serve_inv_step: "in_session s t \<Longrightarrow> serve_inv C n s \<Longrightarrow> serve_inv C n t"
  using proven_login_cong [of t s C] by (auto simp: in_session_def serve_inv_def login_part_def)

lemma serve_ready_step: "in_session s t \<Longrightarrow> serve_ready C s \<Longrightarrow> serve_ready C t"
  using serve_inv_step [of s t C 6] by (auto simp: serve_ready_def in_session_def login_part_def)

lemma serve_at_step: "in_session s t \<Longrightarrow> serve_at C d s \<Longrightarrow> serve_at C d t"
  using serve_ready_step [of s t C] by (auto simp: serve_at_def in_session_def login_part_def)

lemma keeps_inv: "always in_session m \<Longrightarrow> serve_at C d s \<Longrightarrow> wp m (\<lambda>_. serve_at C d) (serve_at C d) s"
  by (erule wp_always) (auto intro: serve_at_step)

lemma flag_one: "(b :: byte) \<le> 1 \<Longrightarrow> b \<noteq> 0 \<Longrightarrow> b = 1"
  by (simp add: word_le_nat_alt word_unat_eq_iff)

lemma wp_or_refuse:
  "(\<And>a. r = Ok a \<Longrightarrow> wp (f a) Q E s) \<Longrightarrow> wp (srv_send_userauth_failure C False) Q E s \<Longrightarrow> E s \<Longrightarrow> wp (or_refuse C r f) Q E s"
  unfolding or_refuse_def by (cases r) (simp_all add: wp_def bindM_def tryM_def liftM_def)

lemma wp_refuse: "serve_at C d0 s \<Longrightarrow> wp (srv_send_userauth_failure C b) (\<lambda>_. serve_at C d0) (serve_at C d0) s"
  by (intro keeps_inv iss.always_userauth_failure)

lemma wp_built: "serve_at C d0 s \<Longrightarrow> wp (srv_send_built C n fs) (\<lambda>_. serve_at C d0) (serve_at C d0) s"
  by (intro keeps_inv iss.always_built)

lemma wp_check_signature:
  assumes inv: "serve_at C d0 s" "userauth_service_ready s" "\<not> authenticated s"
    and "publickey_allowed_cb s = Some allowed" "allowed uname pk" "length pk = 32" "uname \<noteq> []"
    and p: "p = publickey_request 1 uname pk @ post" "req_len = u32len (publickey_request 1 uname pk)" "length p < 2 ^ 31"
  shows "wp (check_signature C uname p pk req_len sig) (\<lambda>_. serve_at C d0) (serve_at C d0) s"
  unfolding check_signature_def srv_send_userauth_success_def
proof (intro wp_bind wp_lift wp_dep wp_if wp_set wp_refuse inv keeps_inv iss.sends)
  fix sig64 d
  assume d: "signed_data p req_len s = Ok d" and v: "\<not> \<not> noxtls_ed25519_verify C pk d sig64"
  have "d = ssh_string (take (unat (session_id_len s)) (session_id s)) @ publickey_request 1 uname pk"
    using d p by (intro signed_data_Ok [of _ post]) simp_all
  then have "proven_login C s uname" using assms(4-6) v by (auto simp: proven_login_def)
  then have "proven_login C (s\<lparr>authenticated_user := uname, authenticated := True, connection_service_ready := True\<rparr>) uname"
    by (simp add: proven_login_def)
  then show "serve_at C d0 (s\<lparr>authenticated_user := uname, authenticated := True, connection_service_ready := True\<rparr>)"
    using inv assms(7) by (auto simp: serve_inv_def serve_ready_def serve_at_def)
qed

lemma wp_publickey:
  assumes inv: "serve_at C d0 s" "userauth_service_ready s" "\<not> authenticated s"
    and m: "fetch1 p 0 = Ok 50" "length p < 2 ^ 31" "view_at (p, u32len p) 1 = Ok (user, o1)"
      "view_at (p, u32len p) o1 = Ok (service, o2)" "view_eq service service_connection = Ok True"
      "view_at (p, u32len p) o2 = Ok (auth_method, o3)" "view_eq auth_method (ascii ''publickey'') = Ok True"
  shows "wp (userauth_publickey C p user o3) (\<lambda>_. serve_at C d0) (serve_at C d0) s"
  unfolding userauth_publickey_def srv_send_userauth_pk_ok_def case_prod_beta
proof (intro wp_bind wp_lift wp_if wp_get wp_refuse wp_or_refuse inv wp_built)
  fix uname x pk sig
  assume u: "\<not> (snd user = 0 \<or> 65 \<le> snd user)" "fetch (fst user) (unat (snd user)) = Ok uname"
    "\<not> (0 \<in> set uname \<or> publickey_allowed_cb s = None)"
    and x: "publickey_fields p o3 = Ok x" "fetch (fst (fst (snd (snd (snd x))))) 32 = Ok pk"
    "\<not> \<not> the (publickey_allowed_cb s) uname pk" "fst x \<noteq> 0"
  obtain flag alg key_blob key req_len where xx: "x = (flag, alg, key_blob, key, req_len)" by (cases x)
  have nz: "uname \<noteq> []" using u(1,2) by (auto simp: fetch_def unat_eq_zero split: if_splits)
  obtain post where post: "p = publickey_request flag uname pk @ post" "length pk = 32" "flag \<le> 1"
    "req_len = u32len (publickey_request flag uname pk)"
    by (rule login_message [OF m(1-3) _ u(2) m(4-7) x(1) [unfolded xx]]) (use u(1) x(2) xx in auto)
  have "flag = 1" using post(3) x(4) xx by (intro flag_one) auto
  then show "wp (check_signature C uname p pk (snd (snd (snd (snd x)))) sig) (\<lambda>_. serve_at C d0) (serve_at C d0) s"
    using u(3) x(3) post nz m(2) xx by (intro wp_check_signature [OF inv, of "the (publickey_allowed_cb s)" _ _ _ post]) auto
qed


lemma wp_userauth:
  assumes "serve_at C d0 s" "userauth_service_ready s" "\<not> authenticated s" "length p < 2 ^ 31"
  shows "wp (srv_handle_userauth_request C p) (\<lambda>_. serve_at C d0) (serve_at C d0) s"
  unfolding srv_handle_userauth_request_def case_prod_beta
  by (intro wp_bind wp_fail wp_lift wp_if wp_refuse assms(1))
    (use assms in \<open>auto intro!: wp_publickey simp: prod_eq_iff\<close>)

section \<open>The handlers\<close>

lemma serve_at_inv: "serve_at C d s \<Longrightarrow> serve_inv C 7 s"
  by (auto simp: serve_at_def serve_ready_def serve_inv_def)

lemma wp_served: "wp m Q (serve_at C d) s \<Longrightarrow> wp m Q (serve_inv C 7) s"
  by (erule wp_mono) (auto intro: serve_at_inv)

lemma wp_kept: "always in_session m \<Longrightarrow> serve_at C d s \<Longrightarrow> wp m (\<lambda>_. serve_at C d) (serve_inv C 7) s"
  by (intro wp_served [where d = d] keeps_inv)

lemma wp_service_request:
  "serve_at C d s \<Longrightarrow> wp (serve_service_request C p) (\<lambda>_. serve_at C d) (serve_inv C 7) s"
  unfolding serve_service_request_def srv_send_service_accept_def case_prod_beta
  by (intro wp_bind wp_lift wp_if wp_ifM wp_set wp_throw wp_checked wp_kept iss.always_built)
    (auto simp: serve_at_def serve_ready_def serve_inv_def proven_login_def)

lemma next_attempt: "unat (b :: byte) \<le> 6 \<Longrightarrow> unat (b + 1) = Suc (unat b)"
  by (subst unat_add_lem [THEN iffD1]) simp_all

lemma wp_userauth_request:
  "serve_at C d s \<Longrightarrow> length p < 2 ^ 31 \<Longrightarrow>
   wp (serve_userauth_request C p) (\<lambda>_. serve_at C d) (serve_inv C 7) s"
  unfolding serve_userauth_request_def
  by (intro wp_bind wp_ifM wp_set wp_throw wp_ret wp_checked wp_served [where d = d] wp_userauth)
    (auto simp: serve_at_def serve_ready_def serve_inv_def proven_login_def next_attempt word_less_nat_alt)

lemma wp_channel_open:
  "serve_at C d s \<Longrightarrow> wp (serve_channel_open C d p) (\<lambda>_. serve_at C d) (serve_inv C 7) s"
  unfolding serve_channel_open_def srv_send_channel_open_confirmation_def case_prod_beta
  by (intro wp_bind wp_fail wp_ifM wp_lift wp_set wp_throw wp_ret wp_checked wp_always [OF iss.always_built])
    (auto simp: serve_at_def serve_ready_def serve_inv_def proven_login_def in_session_def login_part_def)

subsection \<open>A session of a child\<close>

text \<open>A session that is done has closed its channel.\<close>

definition closing :: "(netnox_ssh_server_t, 'a flow) prog \<Rightarrow> bool" where
  "closing m \<longleftrightarrow> (\<forall>s t. m s = (Ok Done, t) \<longrightarrow> \<not> channel_open t)"

lemma closing_bind: "(\<And>a. closing (f a)) \<Longrightarrow> closing (bindM m f)"
  unfolding closing_def bindM_Ok by blast

lemma closing_ifM: "closing m \<Longrightarrow> closing m' \<Longrightarrow> closing (ifM b m m')"
  by (simp add: closing_def ifM_def)

lemma closing_if: "closing m \<Longrightarrow> closing m' \<Longrightarrow> closing (if b then m else m')"
  by simp

lemma closing_ret: "closing (retM (Go a))" "closing (retM (Stop b))"
  by (simp_all add: closing_def retM_def)

lemma closing_stop_if: "closing m \<Longrightarrow> closing (stop_if b m)"
  unfolding stop_if_def by (intro closing_ifM closing_ret)

lemma closing_or_stop: "(\<And>a. closing (f a)) \<Longrightarrow> closing (or_stop m f)"
  unfolding or_stop_def by (intro closing_bind) (auto split: res.split intro: closing_ret)

lemma closing_flow: "closing m \<Longrightarrow> (\<And>a. closing (f a)) \<Longrightarrow> closing (bind_flow m f)"
proof -
  assume m: "closing m" and f: "\<And>a. closing (f a)"
  have "\<not> channel_open t" if "bind_flow m f s = (Ok Done, t)" for s t
  proof -
    obtain x s1 where x: "m s = (Ok x, s1)" "(case x of Go a \<Rightarrow> f a | Stop b \<Rightarrow> retM (Stop b) | Done \<Rightarrow> retM Done) s1 = (Ok Done, t)"
      using \<open>bind_flow m f s = (Ok Done, t)\<close> unfolding bind_flow_def bindM_Ok by blast
    show ?thesis
    proof (cases x)
      case (Go a)
      then show ?thesis using x(2) f [of a] by (simp add: closing_def)
    next
      case Done
      then show ?thesis using x m by (auto simp: closing_def retM_def)
    qed (use x(2) in \<open>simp add: retM_def\<close>)
  qed
  then show ?thesis by (simp add: closing_def)
qed

lemmas closing_rules = closing_bind closing_ifM closing_if closing_ret closing_stop_if closing_or_stop closing_flow

lemma closing_packet: "closing (session_packet C ws p)"
  unfolding session_packet_def session_data_def session_window_adjust_def session_request_def case_prod_beta
  by (intro closing_rules)

lemma closing_output: "closing (session_output C r)"
  unfolding session_output_def Let_def by (cases r) (simp_all add: closing_rules)

lemma closing_finish: "closing (session_finish C st)"
  unfolding session_finish_def
  by (intro closing_or_stop) (auto simp: closing_def res_iff)

lemma closing_round: "closing (session_round_step C r eof st)"
  unfolding session_round_step_def Let_def case_prod_beta
  by (intro closing_rules closing_packet closing_output)
    (auto split: bool.split option.split intro: closing_rules closing_finish)

lemma closing_loop: "closing (session_loop C rs eof st)"
  by (induction rs arbitrary: eof st) (auto intro!: closing_rules closing_round)

lemma flow_Go: "bind_flow m f s = (Ok (Go b), t) \<Longrightarrow> \<exists>a s1. f a s1 = (Ok (Go b), t)"
proof -
  assume "bind_flow m f s = (Ok (Go b), t)"
  then obtain x s1 where "(case x of Go a \<Rightarrow> f a | Stop b \<Rightarrow> retM (Stop b) | Done \<Rightarrow> retM Done) s1 = (Ok (Go b), t)"
    unfolding bind_flow_def bindM_Ok by blast
  then show ?thesis by (cases x) (auto simp: retM_def)
qed

lemma loop_ends: "session_loop C rs eof st s \<noteq> (Ok (Go ()), t)"
proof (induction rs arbitrary: eof st s)
  case (Cons r rs)
  show ?case
  proof
    assume "session_loop C (r # rs) eof st s = (Ok (Go ()), t)"
    from flow_Go [OF this [unfolded session_loop.simps]] show False using Cons by auto
  qed
qed (simp add: retM_def)

lemma wp_session_loop:
  "serve_ready C s \<Longrightarrow>
   wp (session_loop C rs eof st) (\<lambda>r t. serve_ready C t \<and> (r = Done \<and> \<not> channel_open t \<or> (\<exists>b. r = Stop b))) (serve_ready C) s"
proof -
  assume inv: "serve_ready C s"
  obtain r t where run: "session_loop C rs eof st s = (r, t)" by (cases "session_loop C rs eof st s")
  have "serve_ready C t" using alwaysD [OF iss.always_session_loop run] inv by (rule serve_ready_step)
  moreover have "\<not> channel_open t" if "r = Ok Done" using closing_loop run that unfolding closing_def by blast
  moreover have "r \<noteq> Ok (Go ())" using loop_ends run by metis
  moreover have "r = Ok x \<Longrightarrow> x = Go () \<or> x = Done \<or> (\<exists>b. x = Stop b)" for x by (cases x) simp_all
  ultimately show ?thesis using run by (cases r) (auto simp: wp_def)
qed

lemma wp_close_wait:
  assumes inv: "serve_ready C s" "\<not> channel_open s"
  shows "wp (srv_begin_close_wait d) (\<lambda>d'. serve_at C d') (serve_inv C 7) s"
proof -
  have at: "serve_at C d' t" if "in_session s t" "d' \<noteq> 0" for d' t
    using serve_ready_step [OF that(1) inv(1)] that inv(2) by (auto simp: serve_at_def in_session_def)
  have nz: "now \<noteq> -1 \<Longrightarrow> \<not> - 10001 < now \<Longrightarrow> now + 10000 \<noteq> 0" for now :: u64
  proof
    assume "\<not> - 10001 < now" and "now + 10000 = 0"
    moreover from this(2) have "now = - 10000" by (simp only: eq_neg_iff_add_eq_0)
    ultimately show False by simp
  qed
  have fine: "serve_inv C 7 t" if "in_session s t" for t
    using serve_at_inv [OF at [OF that, of 1]] by simp
  show ?thesis
    unfolding srv_begin_close_wait_def
    by (intro wp_bind wp_if wp_ret wp_throw wp_always [OF iss.reads_clock]) (auto intro!: fine at iss.refl dest: nz)
qed

lemma wp_next_child:
  "(\<And>t cs. in_session (s\<lparr>io_user_data := (io_user_data s)\<lparr>spawned := spawned (io_user_data s) @ [g s]\<rparr>\<rparr>) t \<Longrightarrow> Q cs t) \<Longrightarrow>
   (\<And>t. in_session s t \<Longrightarrow> E t) \<Longrightarrow> wp (\<lambda>s. next_child (g s) s) Q E s"
  by (auto simp: wp_def next_child_def ioM_def in_session_def login_part_def split: list.splits option.splits prod.splits)

lemma wp_run_unix:
  assumes inv: "serve_ready C s" "spawned (io_user_data s) = []" "authenticated s"
  shows "wp (srv_run_session_unix C cmd sh) (\<lambda>_ t. serve_ready C t \<and> \<not> channel_open t) (serve_ready C) s"
proof -
  let ?s = "s\<lparr>session_started := True\<rparr>"
  let ?g = "\<lambda>s. (authenticated_user s, if sh then None else Some cmd, want_pty s)"
  have s1: "serve_ready C ?s" using inv(1) by (rule serve_ready_step [rotated]) (simp add: in_session_def login_part_def)
  have "serve_ready C (?s\<lparr>io_user_data := (io_user_data ?s)\<lparr>spawned := spawned (io_user_data ?s) @ [?g ?s]\<rparr>\<rparr>)"
    using inv by (auto simp: serve_ready_def serve_inv_def proven_login_def)
  note child = serve_ready_step [OF _ this]
  have ends: "wp (case r of Stop closed \<Rightarrow> bindM (setM (channel_open_update (\<lambda>_. False))) (\<lambda>_. failM (\<not> closed) NETNOX_RETURN_FAILED)
      | _ \<Rightarrow> retM ()) (\<lambda>_ t. serve_ready C t \<and> \<not> channel_open t) (serve_ready C) t"
    if "serve_ready C t \<and> (r = Done \<and> \<not> channel_open t \<or> (\<exists>b. r = Stop b))" for r :: "unit flow" and t
    using that serve_ready_step [OF iss.closes_channel, of C t] by (auto intro!: wp_rules)
  show ?thesis
    unfolding srv_run_session_unix_def
    by (intro wp_bind wp_ifM wp_throw wp_ret wp_set wp_next_child inv(1) wp_mono [OF wp_session_loop [OF child] ends])
      (auto intro: serve_ready_step [OF _ s1])
qed

lemma wp_run_session:
  assumes inv: "serve_at C d s" "channel_open s"
  shows "wp (run_session C cmd sh d w) (\<lambda>d'. serve_at C d') (serve_inv C 7) s"
proof -
  have s: "serve_ready C s" "spawned (io_user_data s) = []" "authenticated s"
    using inv by (auto simp: serve_at_def serve_ready_def serve_inv_def)
  have accepted: "serve_ready C t \<and> spawned (io_user_data t) = [] \<and> authenticated t" if "in_session s t" for t
    using serve_ready_step [OF that s(1)] that s(2,3) by (auto simp: in_session_def login_part_def)
  have weaker: "serve_ready C t \<Longrightarrow> serve_inv C 7 t" for t by (auto simp: serve_ready_def serve_inv_def)
  show ?thesis
    unfolding run_session_def
    by (intro wp_bind wp_checked wp_always [OF iss.always_requests(2)])
      (auto dest!: accepted intro: weaker intro!: wp_mono [OF wp_run_unix] wp_close_wait wp_checked)
qed

lemma wp_requests:
  "serve_at C d s \<Longrightarrow> wp (refuse_request C w) (\<lambda>_. serve_at C d) (serve_inv C 7) s"
  "serve_at C d s \<Longrightarrow> wp (accept_request C w) (\<lambda>_. serve_at C d) (serve_inv C 7) s"
  by (simp_all add: wp_kept iss.always_requests)

lemma wp_pty_request: "serve_at C d s \<Longrightarrow> wp (serve_pty_request C p off w) (\<lambda>_. serve_at C d) (serve_inv C 7) s"
  unfolding serve_pty_request_def
  by (intro wp_ifM wp_bind wp_try wp_lift wp_requests)
    (auto split: res.split intro!: wp_rules wp_requests intro: serve_at_inv elim!: serve_at_step [rotated]
      simp: in_session_def login_part_def)

lemma wp_same: "wp m (\<lambda>_. serve_at C d) E s \<Longrightarrow> wp (bindM m (\<lambda>_. retM d)) (\<lambda>d'. serve_at C d') E s"
  by (intro wp_bind) (auto elim!: wp_mono intro: wp_ret)

lemma wp_named_request:
  assumes inv: "serve_at C d s" "channel_open s"
  shows "wp (serve_named_request C d p req off w) (\<lambda>d'. serve_at C d') (serve_inv C 7) s"
proof -
  have err: "serve_inv C 7 s" using inv(1) by (rule serve_at_inv)
  have refuse: "wp (bindM (refuse_request C w) (\<lambda>_. retM d)) (\<lambda>d'. serve_at C d') (serve_inv C 7) s"
    by (intro wp_same wp_requests inv)
  have pty: "wp (bindM (serve_pty_request C p off w) (\<lambda>_. retM d)) (\<lambda>d'. serve_at C d') (serve_inv C 7) s"
    by (intro wp_same wp_pty_request inv)
  have exec: "wp (bindM (tryM (liftM r)) (\<lambda>r. case r of Ok cmd \<Rightarrow> run_session C cmd False d w
      | _ \<Rightarrow> bindM (refuse_request C w) (\<lambda>_. retM d))) (\<lambda>d'. serve_at C d') (serve_inv C 7) s" for r
    by (intro wp_bind wp_try wp_lift) (simp_all add: wp_run_session inv refuse err)
  show ?thesis
    unfolding serve_named_request_def
    by (rule wp_bind, rule wp_lift, rule wp_if, rule pty, rule wp_bind, rule wp_lift, rule wp_if, rule exec, rule wp_bind,
        rule wp_lift) (auto intro: err refuse wp_run_session inv)
qed

lemma wp_channel_request: "serve_at C d s \<Longrightarrow> wp (serve_channel_request C d p) (\<lambda>d'. serve_at C d') (serve_inv C 7) s"
  unfolding serve_channel_request_def case_prod_beta
  by (intro wp_ifM wp_bind wp_lift wp_fail wp_ret wp_named_request) (auto intro: serve_at_inv)

lemma wp_close_at:
  assumes inv: "serve_at C d s"
  shows "wp (srv_begin_close_wait d) (\<lambda>d'. serve_at C d') (serve_inv C 7) s"
proof -
  have at: "serve_at C d t" if "in_session s t" for t using that inv by (rule serve_at_step)
  have new: "serve_at C d' t" if "in_session s t" "d = 0" for d' t using at [OF that(1)] that(2) by (simp add: serve_at_def)
  show ?thesis
    unfolding srv_begin_close_wait_def
    by (intro wp_bind wp_if wp_ret wp_throw wp_always [OF iss.reads_clock])
      (auto intro: inv new serve_at_inv [OF at])
qed

lemma wp_channel_end: "serve_at C d s \<Longrightarrow> wp (serve_channel_end C d p) (\<lambda>d'. serve_at C d') (serve_inv C 7) s"
  unfolding serve_channel_end_def
  by (intro wp_bind wp_checked wp_if wp_close_at wp_ret wp_always [OF iss.always_channel_end])
    (auto dest: serve_at_step intro: serve_at_inv)

definition goes_on :: "noxtls \<Rightarrow> u64 option \<Rightarrow> netnox_ssh_server_t \<Rightarrow> bool" where
  "goes_on C r s \<longleftrightarrow> (case r of Some d \<Rightarrow> serve_at C d s | None \<Rightarrow> serve_inv C 7 s)"

lemma wp_message:
  assumes inv: "serve_at C d s" and p: "length p < 2 ^ 31"
  shows "wp (serve_message C d p) (goes_on C) (serve_inv C 7) s"
proof -
  have same: "wp (bindM m (\<lambda>_. retM (Some d))) (goes_on C) (serve_inv C 7) s"
    if "wp m (\<lambda>_. serve_at C d) (serve_inv C 7) s" for m :: "(netnox_ssh_server_t, unit) prog"
    using that by (intro wp_bind) (auto elim!: wp_mono intro: wp_ret simp: goes_on_def)
  have moved: "wp (bindM m (\<lambda>d. retM (Some d))) (goes_on C) (serve_inv C 7) s"
    if "wp m (\<lambda>d. serve_at C d) (serve_inv C 7) s" for m
    using that by (intro wp_bind) (auto elim!: wp_mono intro: wp_ret simp: goes_on_def)
  show ?thesis
    unfolding serve_message_def Let_def
    by (intro wp_if same moved wp_ret wp_checked wp_kept [OF iss.always_global] wp_service_request wp_userauth_request
        wp_channel_open wp_channel_request wp_kept [OF iss.always_channel_data] wp_channel_end inv p)
      (simp_all add: goes_on_def inv serve_at_inv [OF inv])
qed

lemma wp_packet: "serve_at C d s \<Longrightarrow> length p < 2 ^ 31 \<Longrightarrow> wp (serve_packet C d p) (goes_on C) (serve_inv C 7) s"
  unfolding serve_packet_def
  by (intro wp_if wp_ifM wp_ret wp_throw wp_message) (auto simp: goes_on_def intro: serve_at_inv)

section \<open>The loop\<close>

lemma srv_recv_within: "srv_recv_packet C m s = (Ok p, t) \<Longrightarrow> length p \<le> unat m"
  by (auto simp: srv_recv_packet_def srv_recv_body_def recv_plain_packet_def res_iff dest: packet_payload_within split: if_splits)

lemma in_session_wait: "always in_session (srv_wait_close_packet d)"
proof -
  have "always in_session next_poll"
    by (rule alwaysI) (auto simp: next_poll_def ioM_def in_session_def login_part_def split: list.splits prod.splits)
  then show ?thesis unfolding srv_wait_close_packet_def by (intro iss.srv_rules)
qed

lemma wp_serve_loop: "serve_at C d s \<Longrightarrow> wp (serve_loop C d) (\<lambda>_. serve_inv C 7) (serve_inv C 7) s"
proof (induction C d s rule: serve_loop.induct)
  case (1 C d s)
  have waits: "always in_session (if d \<noteq> 0 then srv_wait_close_packet d else retM Readable)"
    by (intro iss.srv_rules in_session_wait)
  have serve: "wp (bindM (tryM (srv_recv_packet C 35000)) (\<lambda>r s2. case r of
      Ok p \<Rightarrow> bindM (serve_packet C d p) (\<lambda>g s3. case g of None \<Rightarrow> (Ok (), s3) | Some d \<Rightarrow> serve_loop C d s3) s2
    | _ \<Rightarrow> (Ok (), s2))) (\<lambda>_. serve_inv C 7) (serve_inv C 7) s1"
    if ready: "(if d \<noteq> 0 then srv_wait_close_packet d else retM Readable) s = (Ok Readable, s1)" and at: "serve_at C d s1" for s1
  proof (rule wp_step, rule wp_kept, rule always_try, rule iss.recvs, rule at)
    fix r s2
    assume recv: "tryM (srv_recv_packet C 35000) s1 = (Ok r, s2)" and at2: "serve_at C d s2"
    show "wp (\<lambda>s2. case r of
      Ok p \<Rightarrow> bindM (serve_packet C d p) (\<lambda>g s3. case g of None \<Rightarrow> (Ok (), s3) | Some d \<Rightarrow> serve_loop C d s3) s2
    | _ \<Rightarrow> (Ok (), s2)) (\<lambda>_. serve_inv C 7) (serve_inv C 7) s2"
    proof (cases r)
      case (Ok p)
      have "length p < 2 ^ 31" using recv Ok srv_recv_within [of C 35000 s1 p s2] by (simp add: res_iff)
      note packet = wp_packet [OF at2 this]
      have "wp (bindM (serve_packet C d p) (\<lambda>g s3. case g of None \<Rightarrow> (Ok (), s3) | Some d \<Rightarrow> serve_loop C d s3))
        (\<lambda>_. serve_inv C 7) (serve_inv C 7) s2"
      proof (rule wp_step [OF packet])
        fix g s3
        assume "serve_packet C d p s2 = (Ok g, s3)" "goes_on C g s3"
        then show "wp (\<lambda>s3. case g of None \<Rightarrow> (Ok (), s3) | Some d \<Rightarrow> serve_loop C d s3) (\<lambda>_. serve_inv C 7) (serve_inv C 7) s3"
          using "1.IH"(1) [OF ready refl recv Ok] by (cases g) (simp_all add: goes_on_def wp_def)
      qed
      then show ?thesis by (simp add: Ok wp_def)
    qed (use serve_at_inv [OF at2] in \<open>simp_all add: wp_def\<close>)
  qed
  show ?case
  proof (rule wp_cong [OF serve_loop.simps], rule wp_step, rule wp_kept, rule waits, rule "1.prems")
    fix ready s1
    assume run: "(if d \<noteq> 0 then srv_wait_close_packet d else retM Readable) s = (Ok ready, s1)" and at: "serve_at C d s1"
    show "wp (\<lambda>s1. case ready of Readable \<Rightarrow>
         bindM (tryM (srv_recv_packet C 35000)) (\<lambda>r s2.
         case r of
           Ok payload \<Rightarrow>
             bindM (serve_packet C d payload) (\<lambda>goes_on s3.
             case goes_on of None \<Rightarrow> (Ok (), s3) | Some d \<Rightarrow> serve_loop C d s3) s2
         | _ \<Rightarrow> (Ok (), s2)) s1 | Retry \<Rightarrow> serve_loop C d s1 | Over \<Rightarrow> (Ok (), s1) | Wait_failed \<Rightarrow> (Err NETNOX_RETURN_FAILED, s1))
      (\<lambda>_. serve_inv C 7) (serve_inv C 7) s1"
    proof (cases ready)
      case Readable
      then show ?thesis using serve [OF run [unfolded Readable] at] by simp
    next
      case Retry
      then show ?thesis using "1.IH"(2) [OF run Retry at] by simp
    qed (use serve_at_inv [OF at] in \<open>simp_all add: wp_def\<close>)
  qed
qed

section \<open>The whole connection\<close>

text \<open>The handshake does not touch what belongs to the login.\<close>

definition before_login :: "netnox_ssh_server_t \<Rightarrow> netnox_ssh_server_t \<Rightarrow> bool" where
  "before_login s t \<longleftrightarrow> userauth_service_ready t = userauth_service_ready s \<and>
     connection_service_ready t = connection_service_ready s \<and> authenticated t = authenticated s \<and>
     auth_attempts t = auth_attempts s \<and> channel_open t = channel_open s \<and>
     spawned (io_user_data t) = spawned (io_user_data s) \<and> publickey_allowed_cb t = publickey_allowed_cb s"

interpretation bl: step_rel before_login
  by unfold_locales (auto simp: before_login_def)

lemma bl_io: "always os_same f \<Longrightarrow> always before_login (ioM f)"
  by (erule always_ioM_rel) (simp add: before_login_def os_same_def)

lemma bl_os: "always only_recvs f \<Longrightarrow> always os_same f" "always only_sends f' \<Longrightarrow> always os_same f'"
  by (erule always_mono, simp add: only_recvs_def only_sends_def)+

lemma bl_packets: "always before_login (srv_send_packet C p)" "always before_login (srv_recv_packet C m)"
  by (rule always_mono [OF ss_send_packet], erule srv_sendsE, simp add: before_login_def only_sends_def os_same_def,
      rule always_mono [OF sr_recv_packet], erule srv_recvsE, simp add: before_login_def only_recvs_def os_same_def)

lemma bl_dep: "always before_login (\<lambda>s. liftM (f s) s)"
  by (simp add: always_def liftM_def bl.refl)

lemma bl_set: "(\<And>s. before_login s (f s)) \<Longrightarrow> always before_login (setM f)"
  by (rule always_set)

lemma bl_lines: "always before_login (srv_recv_line n)" "always before_login (\<lambda>s. srv_send_all (f s) s)"
proof -
  show "always before_login (srv_recv_line n)"
    using bl_io [OF bl_os(1) [OF orv.recv_line_rel]]
    by (simp add: always_def srv_recv_line_def ifM_def throwM_def bl.refl)
  show "always before_login (\<lambda>s. srv_send_all (f s) s)"
    using bl_io [OF bl_os(2) [OF os.send_loop_rel]]
    by (simp add: always_def srv_send_all_def ifM_def throwM_def bl.refl)
qed

lemma bl_random: "always before_login (ioM (srv_fill_random n))"
  by (intro bl_io bl_os(2) sends_random)

lemmas bl_rules = bl.always_rules bl_dep bl_packets bl_random bl_lines bl_set

lemma bl_ident_loop: "always before_login (ident_loop n)"
proof (induction n)
  case (Suc n)
  show ?case
    unfolding ident_loop.simps by (intro bl_rules Suc.IH) (simp add: before_login_def)
qed (simp add: bl.always_rules)

lemma bl_handshake: "always before_login (srv_handshake_to_encrypted C)"
  unfolding srv_handshake_to_encrypted_def srv_exchange_kexinit_def srv_build_kexinit_payload_def
    srv_perform_curve25519_kex_def srv_derive_transport_keys_def netnox_ssh_derive_transport_keys_def derive_into_def
    requireM_def Let_def
  by (intro bl_rules bl_ident_loop) (simp_all add: before_login_def)

lemma handshake_keyed: "srv_handshake_to_encrypted C s = (Ok u, t) \<Longrightarrow> key_exchange_complete t"
  unfolding srv_handshake_to_encrypted_def srv_perform_curve25519_kex_def Let_def
  by (auto simp: res_iff)

definition fresh_server :: "netnox_ssh_server_t \<Rightarrow> bool" where
  "fresh_server s \<longleftrightarrow> \<not> userauth_service_ready s \<and> \<not> connection_service_ready s \<and> \<not> authenticated s \<and>
     \<not> channel_open s \<and> auth_attempts s = 0 \<and> spawned (io_user_data s) = []"

lemma fresh_inv: "fresh_server s \<Longrightarrow> serve_inv C n s"
  by (simp add: fresh_server_def serve_inv_def)

lemma fresh_step: "before_login s t \<Longrightarrow> fresh_server s \<Longrightarrow> fresh_server t"
  by (simp add: fresh_server_def before_login_def)

lemma wp_serve_one:
  assumes fresh: "fresh_server s"
  shows "wp (netnox_ssh_server_serve_one C) (\<lambda>_. serve_inv C 7) (serve_inv C 7) s"
proof -
  have clock: "wp srv_nowM (\<lambda>_. fresh_server) fresh_server s"
    using fresh by (intro wp_always [OF iss.reads_clock]) (auto simp: fresh_server_def in_session_def login_part_def)
  have shake: "wp (srv_handshake_to_encrypted C) (\<lambda>_ t. serve_at C 0 t) (serve_inv C 7) t" if "fresh_server t" for t
  proof -
    obtain r t' where run: "srv_handshake_to_encrypted C t = (r, t')" by (cases "srv_handshake_to_encrypted C t")
    have "fresh_server t'" using alwaysD [OF bl_handshake run] that by (rule fresh_step)
    then show ?thesis using run handshake_keyed [of C t _ t']
      by (cases r) (auto simp: wp_def serve_at_def serve_ready_def fresh_inv, simp add: fresh_server_def)
  qed
  show ?thesis
    unfolding netnox_ssh_server_serve_one_def
    apply (rule wp_guard, rule wp_seq, rule clock, rule wp_bind, rule wp_set, rule wp_bind, rule wp_checked, rule wp_mono, rule shake)
    apply (auto intro: wp_serve_loop fresh_inv fresh)
    apply (auto simp: fresh_server_def)
    done
qed

text \<open>The callback stays the one that was set.\<close>

definition same_callback :: "netnox_ssh_server_t \<Rightarrow> netnox_ssh_server_t \<Rightarrow> bool" where
  "same_callback s t \<longleftrightarrow> publickey_allowed_cb t = publickey_allowed_cb s"

lemma in_session_callback: "in_session s t \<Longrightarrow> same_callback s t"
  by (simp add: in_session_def login_part_def same_callback_def)

interpretation sc: serve_steps same_callback
proof unfold_locales
  show "always same_callback (\<lambda>s. next_child (g s) s)" for g
    by (rule alwaysI) (auto simp: next_child_def ioM_def same_callback_def split: list.splits option.splits prod.splits)
  show "always same_callback next_poll"
    by (rule alwaysI) (auto simp: next_poll_def ioM_def same_callback_def split: list.splits prod.splits)
qed (auto simp: same_callback_def intro: always_mono [OF iss.sends] always_mono [OF iss.recvs]
      always_mono [OF iss.reads_clock] always_mono [OF iss.feeds_child] in_session_callback)

lemma serve_one_callback: "always same_callback (netnox_ssh_server_serve_one C)"
  unfolding netnox_ssh_server_serve_one_def
  by (intro sc.srv_rules always_set always_mono [OF bl_handshake] sc.always_serve_loop)
    (simp_all add: same_callback_def before_login_def)

section \<open>Properties\<close>

text \<open>C7: A connection of a fresh server, whatever the peer sends and however it ends, has started at most one child
  process, and only for the user it has authenticated; and that user's login was proven: the callback allows an
  Ed25519 key for the user, and this key has signed the user's publickey request prefixed by the session identifier.\<close>

theorem server_runs_only_proven_users:
  assumes "fresh_server s" and "netnox_ssh_server_serve_one C s = (r, s')"
  shows "spawned (io_user_data s') = [] \<or>
    (\<exists>cmd pty pk sig allowed. spawned (io_user_data s') = [(authenticated_user s', cmd, pty)] \<and> authenticated s' \<and>
       authenticated_user s' \<noteq> [] \<and> publickey_allowed_cb s' = Some allowed \<and> allowed (authenticated_user s') pk \<and>
       noxtls_ed25519_verify C pk (ssh_string (take (unat (session_id_len s')) (session_id s')) @
         publickey_request 1 (authenticated_user s') pk) sig)"
proof -
  have inv: "serve_inv C 7 s'" using wp_serve_one [OF assms(1)] assms(2) by (rule wp_any)
  show ?thesis
  proof (cases "spawned (io_user_data s')")
    case (Cons sp sps)
    then have "sps = []" "authenticated s'" "fst sp = authenticated_user s'" using inv by (auto simp: serve_inv_def)
    then show ?thesis using inv Cons by (cases sp) (auto simp: serve_inv_def proven_login_def)
  qed simp
qed

lemma sample_fresh: "fresh_server sample_server"
  by (simp add: fresh_server_def sample_server_eq zero_server_def ssh_context.defs netnox_ssh_server_t.defs sample_world_def no_world_def zero_context_def)

theorem server_runs_only_proven_users_witness:
  "spawned (io_user_data (snd (netnox_ssh_server_serve_one toy_noxtls sample_server))) = [] \<or>
    authenticated (snd (netnox_ssh_server_serve_one toy_noxtls sample_server))"
  using server_runs_only_proven_users [OF sample_fresh prod.collapse [symmetric], of toy_noxtls] by auto

text \<open>C11: After a connection of a fresh server, a channel is open only if the connection service is, that service only
  after authentication, and authentication only after the userauth service and the key exchange; no more than seven
  authentication requests have been counted.\<close>

theorem server_session_order:
  assumes "fresh_server s" and "netnox_ssh_server_serve_one C s = (r, s')"
  shows "(channel_open s' \<longrightarrow> connection_service_ready s') \<and> (connection_service_ready s' \<longrightarrow> authenticated s') \<and>
    (authenticated s' \<longrightarrow> userauth_service_ready s') \<and> (userauth_service_ready s' \<longrightarrow> key_exchange_complete s') \<and>
    unat (auth_attempts s') \<le> 7"
  using wp_any [OF wp_serve_one [OF assms(1)] assms(2)] by (simp add: serve_inv_def)

theorem server_session_order_witness:
  "unat (auth_attempts (snd (netnox_ssh_server_serve_one toy_noxtls sample_server))) \<le> 7"
  using server_session_order [OF sample_fresh prod.collapse [symmetric], of toy_noxtls] by blast

end
