(* ===== verification/Nox_Session.thy ===== *)
theory Nox_Session
  imports Nox_Login
begin

text \<open>
  Client and server together: the messages of login, of a command and of its output, from the call that sends them
  to what they do at the other end, and the child process on the server.
\<close>

section \<open>Login\<close>

text \<open>What the Ed25519 routines write into their arrays.\<close>

definition sign_sizes :: "noxtls \<Rightarrow> bool" where
  "sign_sizes C \<longleftrightarrow> (\<forall>sk m sig. noxtls_ed25519_sign C sk m = Some sig \<longrightarrow> length sig = 64)"

definition login_payload :: "bytes \<Rightarrow> bytes \<Rightarrow> bytes \<Rightarrow> bytes" where
  "login_payload user pk sig = publickey_request 1 user pk @ ssh_string (ed25519_blob sig)"

lemma view_next:
  assumes "length (pre @ ssh_string d @ post) < 2 ^ 32"
  shows "view_at (pre @ ssh_string d @ post, u32len (pre @ ssh_string d @ post)) (u32len pre) =
    Ok ((d @ post, u32len d), u32len (pre @ ssh_string d))"
  using assms by (rule view_at_string) simp

lemma key_views:
  assumes "length (ed25519_blob k @ post) < 2 ^ 32"
  shows "view_at (ed25519_blob k @ post, u32len (ed25519_blob k)) 0 =
      Ok ((keyalg_ed25519 @ ssh_string k @ post, u32len keyalg_ed25519), u32len (ssh_string keyalg_ed25519))"
    "view_at (ed25519_blob k @ post, u32len (ed25519_blob k)) (u32len (ssh_string keyalg_ed25519)) =
      Ok ((k @ post, u32len k), u32len (ed25519_blob k))"
  using view_at_pair [of keyalg_ed25519 k post] assms by (simp_all add: ed25519_blob_def keyalg_ed25519_def)

lemma views_same: "length a < 2 ^ 32 \<Longrightarrow> views_eq (a @ x, u32len a) (a @ y, u32len a) = Ok True"
  by (simp add: views_eq_def fetch_def unat_u32len)

lemma publickey_fields_read:
  assumes "length (pre @ rest) < 2 ^ 31" "length k = 32"
    and rest: "rest = [flag] @ ssh_string keyalg_ed25519 @ ssh_string (ed25519_blob k) @ post" and "flag \<le> 1"
  shows "publickey_fields (pre @ rest) (u32len pre) =
    Ok (flag, (keyalg_ed25519 @ ssh_string (ed25519_blob k) @ post, u32len keyalg_ed25519),
      (ed25519_blob k @ post, u32len (ed25519_blob k)), (k @ post, 32),
      u32len (pre @ [flag] @ ssh_string keyalg_ed25519 @ ssh_string (ed25519_blob k)))"
proof -
  let ?q = "pre @ [flag]" and ?q2 = "pre @ flag # ssh_string keyalg_ed25519"
  let ?p = "pre @ rest"
  have u: "unat (u32len ?p) = length ?p" "unat (u32len pre) = length pre"
    using assms(1) by (simp_all add: unat_u32len)
  have f1: "fetch1 ?p (unat (u32len pre)) = Ok flag" by (simp add: u fetch1_def rest)
  have o: "u32len pre + 1 = u32len ?q" by (simp add: u32len_append u32len_def)
  have in_range: "\<not> u32len ?p \<le> u32len pre" using u rest by (simp add: u32_le_iff)
  have v1: "view_at (?p, u32len ?p) (u32len ?q) =
      Ok ((keyalg_ed25519 @ ssh_string (ed25519_blob k) @ post, u32len keyalg_ed25519), u32len ?q2)"
    using view_next [of ?q keyalg_ed25519 "ssh_string (ed25519_blob k) @ post"] assms(1) rest by simp
  have v2: "view_at (?p, u32len ?p) (u32len ?q2) =
      Ok ((ed25519_blob k @ post, u32len (ed25519_blob k)), u32len (?q2 @ ssh_string (ed25519_blob k)))"
    using view_next [of ?q2 "ed25519_blob k" post] assms(1) rest by simp
  have lk: "length (ed25519_blob k @ post) < 2 ^ 32" using assms(1) rest by simp
  have k32: "u32len k = 32" using assms(2) by (simp add: u32len_def)
  have same: "views_eq (keyalg_ed25519 @ ssh_string k @ post, u32len keyalg_ed25519)
      (keyalg_ed25519 @ ssh_string (ed25519_blob k) @ post, u32len keyalg_ed25519) = Ok True"
    by (rule views_same) simp
  show ?thesis
    unfolding publickey_fields_def
    using assms(4) in_range f1 by (simp add: o v1 v2 key_views [OF lk] same k32 not_less)
qed

lemma signature_field_read:
  assumes "length (pre @ ssh_string (ed25519_blob sg)) < 2 ^ 31" "length sg = 64"
  shows "signature_field (pre @ ssh_string (ed25519_blob sg)) (u32len pre) (keyalg_ed25519 @ x, u32len keyalg_ed25519) =
    Ok (sg, 64)"
proof -
  have v: "view_at (pre @ ssh_string (ed25519_blob sg), u32len (pre @ ssh_string (ed25519_blob sg))) (u32len pre) =
      Ok ((ed25519_blob sg, u32len (ed25519_blob sg)), u32len (pre @ ssh_string (ed25519_blob sg)))"
    using view_next [of pre "ed25519_blob sg" "[]"] assms by simp
  have lk: "length (ed25519_blob sg @ []) < 2 ^ 32" using assms by simp
  have k64: "u32len sg = 64" using assms(2) by (simp add: u32len_def)
  have same: "views_eq (keyalg_ed25519 @ ssh_string sg, u32len keyalg_ed25519)
      (keyalg_ed25519 @ x, u32len keyalg_ed25519) = Ok True"
    by (rule views_same) simp
  show ?thesis
    unfolding signature_field_def using key_views [OF lk] by (simp add: v same k64)
qed

lemma length_blob [simp]: "length (ed25519_blob k) = 19 + length k"
  by (simp add: ed25519_blob_def)

lemma u32len_take: "unat (n :: byte) \<le> length d \<Longrightarrow> u32len (take (unat n) d) = ucast n"
  by (simp add: u32len_def min_absorb2 ucast_byte_u32)

lemma signed_data_read:
  assumes "unat (session_id_len s) \<le> length (session_id s)" "length req < 2 ^ 32"
  shows "signed_data (req @ rest) (u32len req) s = Ok (ssh_string (take (unat (session_id_len s)) (session_id s)) @ req)"
  using assms by (simp add: signed_data_def fetch_def unat_u32len ssh_string_def u32len_take)

lemma login_accepted:
  assumes user: "user \<noteq> []" "length user \<le> 64" "0 \<notin> set user" and len: "length pk = 32" "length sg = 64"
    and allowed: "publickey_allowed_cb s = Some allowed" "allowed user pk" and sid: "unat (session_id_len s) \<le> length (session_id s)"
    and ok: "noxtls_ed25519_verify C pk (ssh_string (take (unat (session_id_len s)) (session_id s)) @ publickey_request 1 user pk) sg"
  shows "srv_handle_userauth_request C (login_payload user pk sg) s =
    srv_send_userauth_success C (s\<lparr>authenticated_user := user, authenticated := True, connection_service_ready := True\<rparr>)"
proof -
  define p where "p = login_payload user pk sg"
  define q1 where "q1 = [50] @ ssh_string user"
  define q2 where "q2 = q1 @ ssh_string service_connection"
  define q3 where "q3 = q2 @ ssh_string (ascii ''publickey'')"
  define r3 where "r3 = [1] @ ssh_string keyalg_ed25519 @ ssh_string (ed25519_blob pk) @ ssh_string (ed25519_blob sg)"
  define r2 where "r2 = ssh_string (ascii ''publickey'') @ r3"
  define r1 where "r1 = ssh_string service_connection @ r2"
  have p3: "p = q3 @ r3"
    by (simp add: p_def q3_def q2_def q1_def r3_def login_payload_def publickey_request_def userauth_head_def)
  have p2: "p = q2 @ ssh_string (ascii ''publickey'') @ r3" and p1: "p = q1 @ ssh_string service_connection @ r2"
    and p0: "p = [50] @ ssh_string user @ r1" by (simp_all add: p3 q3_def q2_def q1_def r1_def r2_def)
  have lp: "length p < 2 ^ 31" using user(2) len by (simp add: p0 r1_def r2_def r3_def service_connection_def)
  have up: "unat (u32len p) = length p" using lp by (simp add: unat_u32len)
  have v1: "view_at (p, u32len p) 1 = Ok ((user @ r1, u32len user), u32len q1)"
    using view_at_string [of "[50]" user r1 1] lp unfolding p0 q1_def by (simp add: u32len_def)
  have v2: "view_at (p, u32len p) (u32len q1) = Ok ((service_connection @ r2, u32len service_connection), u32len q2)"
    using view_next [of q1 service_connection r2] lp unfolding p1 q2_def by simp
  have v3: "view_at (p, u32len p) (u32len q2) = Ok ((ascii ''publickey'' @ r3, u32len (ascii ''publickey'')), u32len q3)"
    using view_next [of q2 "ascii ''publickey''" r3] lp unfolding p2 q3_def by simp
  have f: "publickey_fields p (u32len q3) = Ok (1,
      (keyalg_ed25519 @ ssh_string (ed25519_blob pk) @ ssh_string (ed25519_blob sg), u32len keyalg_ed25519),
      (ed25519_blob pk @ ssh_string (ed25519_blob sg), u32len (ed25519_blob pk)), (pk @ ssh_string (ed25519_blob sg), 32),
      u32len (publickey_request 1 user pk))"
    using publickey_fields_read [OF lp [unfolded p3] len(1) r3_def] unfolding p3
    by (simp add: q3_def q2_def q1_def publickey_request_def userauth_head_def)
  have sf: "signature_field p (u32len (publickey_request 1 user pk)) (keyalg_ed25519 @ x, u32len keyalg_ed25519) = Ok (sg, 64)" for x
    unfolding p_def login_payload_def using lp len(2)
    by (intro signature_field_read) (simp_all add: p_def login_payload_def)
  have uu: "unat (u32len user) = length user" using user(2) by (intro unat_u32len) simp
  have un: "u32len user \<noteq> 0" "\<not> 65 \<le> u32len user" using uu user by (auto simp: u32_le_iff)
  have fu: "fetch (user @ r1) (unat (u32len user)) = Ok user" by (simp add: fetch_def uu)
  have sd: "signed_data p (u32len (publickey_request 1 user pk)) s =
      Ok (ssh_string (take (unat (session_id_len s)) (session_id s)) @ publickey_request 1 user pk)"
    unfolding p_def login_payload_def using lp sid
    by (intro signed_data_read) (simp_all add: p_def login_payload_def)
  have head: "\<not> u32len p < 2" "fetch1 p 0 = Ok 50" using up by (simp_all add: p0 u32_less_iff fetch1_def)
  have fpk: "fetch (pk @ x) 32 = Ok pk" and fsg: "fetch sg 64 = Ok sg" for x using len by (simp_all add: fetch_def)
  have fin: "userauth_publickey C p (user @ r1, u32len user) (u32len q3) s =
      srv_send_userauth_success C (s\<lparr>authenticated_user := user, authenticated := True, connection_service_ready := True\<rparr>)"
    using un user(3) allowed ok len
    by (simp add: userauth_publickey_def fu f sf sd fpk fsg or_refuse_def check_signature_def prog_defs)
  show ?thesis
    unfolding p_def [symmetric] srv_handle_userauth_request_def
    by (simp add: head v1 v2 v3 fin prog_defs)
qed


lemma unat_ucast_byte32: "unat (ucast (b :: byte) :: u32) = unat b"
  by transfer (simp add: take_bit_eq_mod)

lemma fetch_take: "n \<le> length d \<Longrightarrow> fetch (take n d) n = fetch d n"
  by (simp add: fetch_def)

lemma append_string_take:
  "unat n \<le> length d \<Longrightarrow> netnox_ssh_payload_append_string d n = append_bytes (take (unat n) d)"
  using fetch_take [of "unat n" d] by (simp add: netnox_ssh_payload_append_string_def fun_eq_iff u32len_def min_absorb2 cong: if_cong)

lemma login_sent:
  assumes run: "netnox_ssh_send_userauth_publickey_ed25519 C c = (Ok u, c')"
    and len: "length (ed25519_public_key c) = 32" "length (username c) < 2 ^ 30" "sign_sizes C"
    and sid: "unat (session_id_len c) \<le> length (session_id c)"
  obtains sig where "netnox_ssh_send_packet C (login_payload (username c) (ed25519_public_key c) sig) c = (Ok u, c')"
    "noxtls_ed25519_sign C (ed25519_private_key c)
       (ssh_string (take (unat (session_id_len c)) (session_id c)) @ publickey_request 1 (username c) (ed25519_public_key c)) = Some sig"
    "length sig = 64"
proof -
  let ?pk = "ed25519_public_key c" and ?sid = "take (unat (session_id_len c)) (session_id c)"
  obtain blob req sid sig sblob payload where b:
    "build 256 [append_bytes keyalg_ed25519, netnox_ssh_payload_append_string ?pk 32] = Ok blob"
    "build 1024 [netnox_ssh_payload_append_u8 50, append_bytes (username c),
              append_bytes service_connection, append_bytes (ascii ''publickey''),
              netnox_ssh_payload_append_u8 1, append_bytes keyalg_ed25519, append_bytes blob] = Ok req"
    "build 1400 [netnox_ssh_payload_append_string (session_id c) (ucast (session_id_len c))] = Ok sid"
    "noxtls_ed25519_sign C (ed25519_private_key c) (sid @ req) = Some sig"
    "build 256 [append_bytes keyalg_ed25519, netnox_ssh_payload_append_string sig 64] = Ok sblob"
    "append_all 1024 [append_bytes sblob] req = Ok payload"
    "netnox_ssh_send_packet C payload c = (Ok u, c')"
    using run unfolding netnox_ssh_send_userauth_publickey_ed25519_def
    by (auto simp: bindM_Ok liftM_Ok failM_Ok requireM_run split: if_splits option.splits simp del: append_all.simps)
  have blob: "blob = ed25519_blob ?pk"
    using b(1) append_all_spec [of "[append_bytes keyalg_ed25519, netnox_ssh_payload_append_string ?pk 32]"
        "[ssh_string keyalg_ed25519, ssh_string ?pk]" "[]" 256] len
    by (simp add: appender_axioms appender_32 ed25519_blob_def keyalg_ed25519_def del: append_all.simps)
  have req: "req = publickey_request 1 (username c) ?pk \<and> length req \<le> 1024"
    using b(2) append_all_spec [of "[netnox_ssh_payload_append_u8 50, append_bytes (username c),
              append_bytes service_connection, append_bytes (ascii ''publickey''),
              netnox_ssh_payload_append_u8 1, append_bytes keyalg_ed25519, append_bytes blob]"
        "[[50], ssh_string (username c), ssh_string service_connection, ssh_string (ascii ''publickey''), [1],
          ssh_string keyalg_ed25519, ssh_string blob]" "[]" 1024] len
    by (simp add: appender_axioms blob publickey_request_def userauth_head_def service_connection_def del: append_all.simps split: if_splits)
  have ssid: "sid = ssh_string ?sid"
    using b(3) sid append_all_spec [of "[append_bytes ?sid]" "[ssh_string ?sid]" "[]" 1400] unsigned_less [of "session_id_len c", where 'a = nat]
    by (simp add: append_string_take unat_ucast_byte32 appender_axioms min_absorb2 del: append_all.simps)
  have l64: "length sig = 64" using b(4) len(3) by (auto simp: sign_sizes_def)
  have sblob: "sblob = ed25519_blob sig"
    using b(5) append_all_spec [of "[append_bytes keyalg_ed25519, netnox_ssh_payload_append_string sig 64]"
        "[ssh_string keyalg_ed25519, ssh_string sig]" "[]" 256] l64
    by (simp add: appender_axioms appender_64 ed25519_blob_def keyalg_ed25519_def del: append_all.simps)
  have "payload = login_payload (username c) ?pk sig"
    using b(6) append_all_spec [of "[append_bytes sblob]" "[ssh_string sblob]" req 1024] l64 req
    by (auto simp: appender_axioms sblob login_payload_def simp del: append_all.simps split: if_splits)
  then show ?thesis using that [of sig] b(4,7) l64 ssid req by simp
qed

text \<open>C8: The publickey request that the client sends lets the user in: a server of the same session whose callback
  allows the client's key for the user, given the payload of that packet, marks the user authenticated, opens the
  connection service and answers with USERAUTH_SUCCESS. That signatures verify and have 64 bytes is what the library
  documents.\<close>

theorem publickey_login:
  assumes C: "sign_ok C" "sign_sizes C"
    and key: "noxtls_ed25519_public_key C (ed25519_private_key c) = Some (ed25519_public_key c)"
      "length (ed25519_public_key c) = 32"
    and user: "username c \<noteq> []" "length (username c) \<le> 64" "0 \<notin> set (username c)"
    and sent: "netnox_ssh_send_userauth_publickey_ed25519 C c = (Ok u, c')"
    and session: "session_id s = session_id c" "session_id_len s = session_id_len c"
      "unat (session_id_len c) \<le> length (session_id c)"
    and allowed: "publickey_allowed_cb s = Some allowed" "allowed (username c) (ed25519_public_key c)"
  shows "\<exists>payload. netnox_ssh_send_packet C payload c = (Ok u, c') \<and>
    srv_handle_userauth_request C payload s = srv_send_userauth_success C
      (s\<lparr>authenticated_user := username c, authenticated := True, connection_service_ready := True\<rparr>)"
proof -
  have "length (username c) < 2 ^ 30" using user(2) by simp
  from login_sent [OF sent key(2) this C(2) session(3)] obtain sig where
    sig: "netnox_ssh_send_packet C (login_payload (username c) (ed25519_public_key c) sig) c = (Ok u, c')"
    "noxtls_ed25519_sign C (ed25519_private_key c)
       (ssh_string (take (unat (session_id_len c)) (session_id c)) @ publickey_request 1 (username c) (ed25519_public_key c)) = Some sig"
    "length sig = 64" .
  have "noxtls_ed25519_verify C (ed25519_public_key c)
       (ssh_string (take (unat (session_id_len c)) (session_id c)) @ publickey_request 1 (username c) (ed25519_public_key c)) sig"
    using C(1) key(1) sig(2) unfolding sign_ok_def by blast
  then show ?thesis
    using login_accepted [OF user key(2) sig(3) allowed, of C] session sig(1) by auto
qed

definition login_client :: netnox_ssh_client_t where
  "login_client = (keyed sample_client)\<lparr>session_id := replicate 32 7, session_id_len := 32, username := ascii ''root'',
     has_ed25519_key := True, ed25519_private_key := replicate 32 9, ed25519_public_key := replicate 32 9\<rparr>"

definition login_server :: netnox_ssh_server_t where
  "login_server = (keyed sample_server)\<lparr>session_id := replicate 32 7, session_id_len := 32,
     publickey_allowed_cb := Some (\<lambda>user pk. user = ascii ''root'' \<and> pk = replicate 32 9)\<rparr>"

lemma toy_sign_sizes: "sign_sizes toy_noxtls"
  by (auto simp: sign_sizes_def toy_noxtls_def)

theorem publickey_login_witness:
  "\<exists>payload u c'. netnox_ssh_send_packet toy_noxtls payload login_client = (Ok u, c') \<and>
    authenticated_user (snd (srv_handle_userauth_request toy_noxtls payload login_server)) = ascii ''root''"
proof -
  have "is_Ok (fst (netnox_ssh_send_userauth_publickey_ed25519 toy_noxtls login_client))" by code_simp
  then obtain u c' where run: "netnox_ssh_send_userauth_publickey_ed25519 toy_noxtls login_client = (Ok u, c')"
    by (rule is_OkE)
  have user: "username login_client = ascii ''root''" "0 \<notin> set (ascii ''root'')" by code_simp+
  have key: "noxtls_ed25519_public_key toy_noxtls (ed25519_private_key login_client) = Some (ed25519_public_key login_client)"
    "length (ed25519_public_key login_client) = 32" by code_simp+
  have session: "session_id login_server = session_id login_client" "session_id_len login_server = session_id_len login_client"
    "unat (session_id_len login_client) \<le> length (session_id login_client)" by code_simp+
  have allowed: "publickey_allowed_cb login_server = Some (\<lambda>user pk. user = ascii ''root'' \<and> pk = replicate 32 9)"
    "ed25519_public_key login_client = replicate 32 9"
    by (simp_all add: login_server_def login_client_def)
  obtain payload where p: "netnox_ssh_send_packet toy_noxtls payload login_client = (Ok u, c')"
    "srv_handle_userauth_request toy_noxtls payload login_server = srv_send_userauth_success toy_noxtls
      (login_server\<lparr>authenticated_user := username login_client, authenticated := True, connection_service_ready := True\<rparr>)"
    using publickey_login [OF toy_sign_ok toy_sign_sizes key _ _ _ run session allowed(1)] user allowed(2) by (auto simp: ascii_def)
  have "authenticated_user (snd (srv_send_userauth_success toy_noxtls t)) = authenticated_user t" for t
    using alwaysD [OF iss.sends [of toy_noxtls "[52]"] prod.collapse [symmetric], of t]
    by (simp add: srv_send_userauth_success_def in_session_def login_part_def)
  then show ?thesis using p user(1) by auto
qed

section \<open>Commands\<close>

definition exec_payload :: "u32 \<Rightarrow> bytes \<Rightarrow> bytes" where
  "exec_payload chan cmd = [98] @ netnox_ssh_write_u32_be chan @ ssh_string (ascii ''exec'') @ [1] @ ssh_string cmd"

lemma exec_sent:
  assumes "netnox_ssh_client_exec C wait command c = (Ok u, c')"
  shows "\<exists>c1. netnox_ssh_send_packet C (exec_payload (remote_channel_id c) (cstr command)) c = (Ok (), c1)"
    "length (cstr command) \<le> 512"
proof -
  let ?fs = "[netnox_ssh_payload_append_u8 98, netnox_ssh_payload_append_u32 (remote_channel_id c),
    append_bytes (ascii ''exec''), netnox_ssh_payload_append_u8 1, append_bytes (cstr command)]"
  obtain payload c1 where r: "length (cstr command) \<le> 512" "build 1024 ?fs = Ok payload"
    "netnox_ssh_send_packet C payload c = (Ok (), c1)"
    using assms unfolding netnox_ssh_client_exec_def send_built_def
    by (auto simp: bindM_Ok liftM_Ok failM_Ok checkedM_Ok requireM_run simp del: append_all.simps split: if_splits)
  have "payload = exec_payload (remote_channel_id c) (cstr command)"
    using r(1,2) append_all_spec [of ?fs "[[98], netnox_ssh_write_u32_be (remote_channel_id c), ssh_string (ascii ''exec''), [1],
        ssh_string (cstr command)]" "[]" 1024]
    by (simp add: appender_axioms exec_payload_def del: append_all.simps)
  with r show "\<exists>c1. netnox_ssh_send_packet C (exec_payload (remote_channel_id c) (cstr command)) c = (Ok (), c1)"
    "length (cstr command) \<le> 512" by blast+
qed

lemma exec_dispatched:
  assumes "channel_open s" "chan = local_channel_id s" "length cmd \<le> 512" "0 \<notin> set cmd"
  shows "serve_channel_request C d (exec_payload chan cmd) s = run_session C cmd False d 1 s"
proof -
  define p where "p = exec_payload chan cmd"
  define q1 where "q1 = [98] @ netnox_ssh_write_u32_be chan"
  define q2 where "q2 = q1 @ ssh_string (ascii ''exec'')"
  define r where "r = [1] @ ssh_string cmd"
  have p1: "p = q1 @ ssh_string (ascii ''exec'') @ r" by (simp add: p_def q1_def r_def exec_payload_def)
  have p3: "p = (q2 @ [1]) @ ssh_string cmd @ []" by (simp add: p1 q2_def r_def)
  have lp: "length p < 2 ^ 32" using assms(3) by (simp add: p_def exec_payload_def)
  have up: "unat (u32len p) = length p" "unat (u32len q2) = length q2"
    using lp p3 by (simp_all add: unat_u32len)
  have chan: "u32_at p 1 = Ok (chan, u32len q1)"
    using read_u32_at [of "[98]" "u32len p" chan "ssh_string (ascii ''exec'') @ r"] up(1)
    by (simp add: u32_at_def p1 q1_def u32len_def)
  have req: "view_at (p, u32len p) (u32len q1) = Ok ((ascii ''exec'' @ r, u32len (ascii ''exec'')), u32len q2)"
    using view_next [of q1 "ascii ''exec''" r] lp unfolding p1 q2_def by simp
  have more: "\<not> u32len p \<le> u32len q2" "fetch1 p (unat (u32len q2)) = Ok 1"
    using up by (simp_all add: u32_le_iff fetch1_def p3)
  have o3: "u32len q2 + 1 = u32len (q2 @ [1])" by (simp add: u32len_append u32len_def)
  have v: "view_at (p, u32len p) (u32len (q2 @ [1])) = Ok ((cmd, u32len cmd), u32len p)"
    using view_next [of "q2 @ [1]" cmd "[]"] lp unfolding p3 by simp
  have uc: "unat (u32len cmd) = length cmd" using assms(3) by (intro unat_u32len) simp
  have ex: "exec_field p (u32len (q2 @ [1])) = Ok cmd"
    using assms(3,4) uc by (simp add: exec_field_def v fetch_def u32_less_iff del: append_assoc)
  have names: "view_eq (ascii ''exec'' @ r, u32len (ascii ''exec'')) (ascii ''pty-req'') = Ok False"
    by (simp add: view_eq_def u32len_def)
  have dispatch: "serve_named_request C d p (ascii ''exec'' @ r, u32len (ascii ''exec'')) (u32len (q2 @ [1])) 1 s =
      run_session C cmd False d 1 s"
    by (simp add: serve_named_request_def names ex bindM_def liftM_def tryM_def)
  show ?thesis
    unfolding p_def [symmetric] serve_channel_request_def
    using assms(1,2) by (simp add: ifM_def bindM_def liftM_def failM_def retM_def chan req more o3 dispatch del: u32len_append)
qed

lemma wp_bind_run: "m s = (Ok a, t) \<Longrightarrow> wp (f a) Q E t \<Longrightarrow> wp (bindM m f) Q E s"
  by (simp add: wp_def bindM_def)

text \<open>The log of the children that were started.\<close>

definition started :: "spawn list \<Rightarrow> netnox_ssh_server_t \<Rightarrow> bool" where
  "started sps t \<longleftrightarrow> spawned (io_user_data t) = sps"

lemma wp_started: "always in_session m \<Longrightarrow> started sps s \<Longrightarrow> wp m (\<lambda>_. started sps) (started sps) s"
  by (erule wp_always) (auto simp: started_def in_session_def login_part_def)

lemma child_started:
  assumes "0 \<le> transport_fd s" "authenticated_user s \<noteq> []" "children (io_user_data s) = Some rounds # cs"
    and sps: "sps = spawned (io_user_data s) @ [(authenticated_user s, if sh then None else Some cmd, want_pty s)]"
  shows "wp (srv_run_session_unix C cmd sh) (\<lambda>_. started sps) (started sps) s"
proof -
  define s1 where "s1 = s\<lparr>session_started := True\<rparr>"
  define s2 where "s2 = s1\<lparr>io_user_data := (io_user_data s1)\<lparr>children := cs, spawned := sps\<rparr>\<rparr>"
  have guard: "ifM (\<lambda>s. transport_fd s < 0 \<or> authenticated_user s = []) (throwM NETNOX_RETURN_FAILED) (retM ()) s = (Ok (), s)"
    using assms by (simp add: ifM_def retM_def)
  have set: "setM (\<lambda>s. s\<lparr>session_started := True\<rparr>) s = (Ok (), s1)" by (simp add: setM_def s1_def)
  have child: "(\<lambda>s. next_child (authenticated_user s, if sh then None else Some cmd, want_pty s) s) s1 = (Ok rounds, s2)"
    using assms(3) by (simp add: next_child_def ioM_def s1_def s2_def sps)
  have "started sps s2" by (simp add: started_def s2_def)
  note loop = wp_started [OF iss.always_session_loop this]
  have ends: "wp (case r of Stop closed \<Rightarrow> bindM (setM (\<lambda>s. s\<lparr>channel_open := False\<rparr>)) (\<lambda>_. failM (\<not> closed) NETNOX_RETURN_FAILED)
      | _ \<Rightarrow> retM ()) (\<lambda>_. started sps) (started sps) t" if "started sps t" for r :: "unit flow" and t
    using that by (cases r) (auto intro!: wp_rules simp: started_def)
  show ?thesis
    unfolding srv_run_session_unix_def
    by (rule wp_bind_run, rule guard, rule wp_bind_run, rule set, rule wp_bind_run, rule child, rule wp_seq [OF loop ends])
qed

text \<open>C9: A command that the client's exec hands on is the one that the server runs: given the payload of the packet the
  client sent, a server with an open channel of the client's number, once its CHANNEL_SUCCESS is out, starts exactly
  one child, for the authenticated user and with exactly the bytes of the command, however the session then ends.\<close>

theorem exec_runs_command:
  assumes sent: "netnox_ssh_client_exec C wait command c = (Ok u, c')"
    and chan: "channel_open s" "remote_channel_id c = local_channel_id s"
    and accepted: "srv_send_channel_success C s = (Ok (), s1)"
    and child: "0 \<le> transport_fd s" "authenticated_user s \<noteq> []" "children (io_user_data s) = Some rounds # cs"
  shows "\<exists>payload c1. netnox_ssh_send_packet C payload c = (Ok (), c1) \<and>
    spawned (io_user_data (snd (serve_channel_request C d payload s))) =
      spawned (io_user_data s) @ [(authenticated_user s, Some (cstr command), want_pty s)]"
proof -
  have nz: "0 \<notin> set (cstr command)" by (auto simp: cstr_def dest: set_takeWhileD)
  obtain c1 where c1: "netnox_ssh_send_packet C (exec_payload (remote_channel_id c) (cstr command)) c = (Ok (), c1)"
    using exec_sent(1) [OF sent] by blast
  have run: "serve_channel_request C d (exec_payload (remote_channel_id c) (cstr command)) s = run_session C (cstr command) False d 1 s"
    using chan exec_sent(2) [OF sent] nz by (intro exec_dispatched)
  have same: "transport_fd s1 = transport_fd s" "authenticated_user s1 = authenticated_user s" "want_pty s1 = want_pty s"
    "children (io_user_data s1) = children (io_user_data s)" "spawned (io_user_data s1) = spawned (io_user_data s)"
    using accepted unfolding srv_send_channel_success_def srv_send_built_def
    by (auto simp: bindM_Ok liftM_Ok elim!: srv_sendsE dest!: alwaysD [OF ss_send_packet] simp: only_sends_def os_same_def)
  define sps where "sps = spawned (io_user_data s1) @ [(authenticated_user s1, Some (cstr command), want_pty s1)]"
  have acc: "accept_request C 1 s = (Ok (), s1)" using accepted by (simp add: accept_request_def checkedM_def)
  have "wp (run_session C (cstr command) False d 1) (\<lambda>_. started sps) (started sps) s"
    unfolding run_session_def
    by (rule wp_bind_run, rule acc, rule wp_seq, rule wp_checked, rule child_started [where sh = False])
      (use child same in \<open>auto simp: sps_def intro!: wp_checked wp_started iss.always_close_wait\<close>)
  then have "started sps (snd (run_session C (cstr command) False d 1 s))"
    by (rule wp_any) (rule prod.collapse [symmetric])
  then show ?thesis using c1 run same by (auto simp: started_def sps_def)
qed

definition exec_server :: netnox_ssh_server_t where
  "exec_server = (keyed sample_server)\<lparr>transport_fd := 4, authenticated_user := ascii ''root'', authenticated := True,
     channel_open := True, io_user_data := sample_world\<lparr>children := [Some []]\<rparr>\<rparr>"

definition exec_client :: netnox_ssh_client_t where
  "exec_client = feed (tx_of (snd (srv_send_channel_success toy_noxtls exec_server)))
     ((keyed sample_client)\<lparr>connected := True, kexinit_exchanged := True, channel_open := True\<rparr>)"

theorem exec_runs_command_witness:
  "\<exists>payload c1. netnox_ssh_send_packet toy_noxtls payload exec_client = (Ok (), c1) \<and>
    spawned (io_user_data (snd (serve_channel_request toy_noxtls 0 payload exec_server))) = [(ascii ''root'', Some (ascii ''id''), False)]"
proof -
  have "is_Ok (fst (netnox_ssh_client_exec toy_noxtls (direct_wait toy_noxtls) (ascii ''id'') exec_client))" by code_simp
  then obtain u c' where run: "netnox_ssh_client_exec toy_noxtls (direct_wait toy_noxtls) (ascii ''id'') exec_client = (Ok u, c')"
    by (rule is_OkE)
  have "is_Ok (fst (srv_send_channel_success toy_noxtls exec_server))" by code_simp
  then obtain v s1 where acc: "srv_send_channel_success toy_noxtls exec_server = (Ok v, s1)" by (rule is_OkE)
  have s: "channel_open exec_server" "remote_channel_id exec_client = local_channel_id exec_server" "0 \<le> transport_fd exec_server"
    "authenticated_user exec_server = ascii ''root''" "want_pty exec_server = False" "spawned (io_user_data exec_server) = []"
    "cstr (ascii ''id'') = ascii ''id''" "ascii ''root'' \<noteq> []" by code_simp+
  have ch: "children (io_user_data exec_server) = Some [] # []" by (simp add: exec_server_def)
  show ?thesis
    using exec_runs_command [OF run s(1,2) _ s(3) _ ch, of s1 0] acc s by simp
qed

section \<open>Output of the child\<close>

definition data_payload :: "u32 \<Rightarrow> bytes \<Rightarrow> bytes" where
  "data_payload chan d = [94] @ netnox_ssh_write_u32_be chan @ ssh_string d"

lemma read_cap_bounds: "read_cap s \<le> remote_window_size s" "read_cap s \<le> 4096" "read_cap s \<le> srv_max_chunk s"
  by (auto simp: read_cap_def srv_max_chunk_def Let_def u32_le_iff u32_less_iff)

lemma chunk_sent:
  assumes "srv_send_channel_data_chunk C d (u32len d) s = (Ok u, s')" "length d \<le> unat (read_cap s)" "d \<noteq> []"
  shows "\<exists>s1. srv_send_packet C (data_payload (remote_channel_id s) d) s1 = (Ok (), s') \<and>
    s1 = s\<lparr>remote_window_size := remote_window_size s - u32len d\<rparr>"
proof -
  let ?fs = "[netnox_ssh_payload_append_u8 94, netnox_ssh_payload_append_u32 (remote_channel_id s), append_bytes d]"
  have cap: "length d \<le> 4096" "length d \<le> unat (srv_max_chunk s)"
    using read_cap_bounds [of s] assms(2) by (auto simp: u32_le_iff)
  have ud: "unat (u32len d) = length d" using cap(1) by (intro unat_u32len) simp
  have whole: "\<not> srv_max_chunk s < u32len d" using cap(2) ud by (simp add: u32_less_iff)
  have "build 4109 ?fs = Ok (data_payload (remote_channel_id s) d)"
    using append_all_spec [of ?fs "[[94], netnox_ssh_write_u32_be (remote_channel_id s), ssh_string d]" "[]" 4109] cap(1)
    by (simp add: appender_axioms data_payload_def del: append_all.simps)
  then show ?thesis
    using assms(1) whole unfolding srv_send_channel_data_chunk_def
    by (auto simp: bindM_Ok liftM_Ok failM_Ok getM_Ok setM_Ok ifM_Ok retM_Ok throwM_Ok simp del: append_all.simps split: if_splits)
qed

lemma data_delivered:
  assumes "local_channel_id c = chan" "length d \<le> unat len" "length d \<le> 4096"
  shows "recv_data_packet C wait len (data_payload chan d) c = (Ok (Some d), c)"
proof -
  define q where "q = [94] @ netnox_ssh_write_u32_be chan"
  have p: "data_payload chan d = q @ ssh_string d @ []" by (simp add: data_payload_def q_def)
  have lp: "length (data_payload chan d) < 2 ^ 32" using assms(3) by (simp add: data_payload_def)
  have ud: "unat (u32len d) = length d" using assms(3) by (intro unat_u32len) simp
  have chan: "u32_at (data_payload chan d) 1 = Ok (chan, u32len q)"
    using read_u32_at [of "[94]" "u32len (data_payload chan d)" chan "ssh_string d"] unat_u32len [OF lp]
    by (simp add: u32_at_def data_payload_def q_def u32len_def)
  have v: "view_at (data_payload chan d, u32len (data_payload chan d)) (u32len q) = Ok ((d, u32len d), u32len (data_payload chan d))"
    using view_next [of q d "[]"] lp unfolding p by simp
  have "\<not> len < u32len d" using assms(2) ud by (simp add: u32_less_iff)
  then have "deliver_data (data_payload chan d) (u32len q) len = Ok (Some d)"
    by (simp add: deliver_data_def v fetch_def ud)
  moreover have "hd (data_payload chan d) = 94" by (simp add: data_payload_def)
  ultimately show ?thesis
    using assms(1) by (simp add: recv_data_packet_def own_channelM_def prog_defs ifM_def chan)
qed

lemma or_stop_Go: "or_stop m f s = (Ok (Go b), t) \<Longrightarrow> \<exists>a s1. m s = (Ok a, s1) \<and> f a s1 = (Ok (Go b), t)"
proof -
  assume "or_stop m f s = (Ok (Go b), t)"
  then obtain r s1 where "tryM m s = (Ok r, s1)" "(case r of Ok a \<Rightarrow> f a | _ \<Rightarrow> retM (Stop False)) s1 = (Ok (Go b), t)"
    unfolding or_stop_def bindM_Ok by blast
  then show ?thesis by (cases r) (auto simp: tryM_Ok retM_def)
qed

text \<open>C10: What the server reads from the child reaches the caller of the client's recv_data unchanged and within the
  client's window: of a read that the code's limit allows, every byte is in the one CHANNEL_DATA packet that is sent,
  the window shrinks by exactly these bytes without wrapping, and recv_data with a buffer that is large enough
  returns them.\<close>

theorem child_output_delivered:
  assumes d: "d \<noteq> []" "length d \<le> unat (read_cap s)"
    and sent: "session_output C (Read d) s = (Ok (Go False), s')"
    and client: "local_channel_id c = remote_channel_id s" "length d \<le> unat len"
  shows "\<exists>payload s1. srv_send_packet C payload s1 = (Ok (), s') \<and>
    recv_data_packet C wait len payload c = (Ok (Some d), c) \<and>
    length d \<le> unat (remote_window_size s) \<and> unat (remote_window_size s') = unat (remote_window_size s) - length d"
proof -
  have cap: "length d \<le> 4096" "length d \<le> unat (remote_window_size s)"
    using read_cap_bounds [of s] d(2) by (auto simp: u32_le_iff)
  have "srv_send_channel_data_chunk C d (u32len d) s = (Ok (), s')"
    using sent d unfolding session_output_def Let_def
    by (auto simp: bindM_Ok getM_Ok dest!: or_stop_Go simp: retM_Ok)
  from chunk_sent [OF this d(2,1)] obtain s1 where s1: "srv_send_packet C (data_payload (remote_channel_id s) d) s1 = (Ok (), s')"
    "s1 = s\<lparr>remote_window_size := remote_window_size s - u32len d\<rparr>" by blast
  have "remote_window_size s' = remote_window_size s1"
    using alwaysD [OF ss_send_packet s1(1)] by (auto elim!: srv_sendsE)
  moreover have "unat (remote_window_size s - u32len d) = unat (remote_window_size s) - length d"
    using cap by (subst unat_sub) (simp_all add: u32_le_iff unat_u32len)
  ultimately show ?thesis using s1 data_delivered [OF client cap(1)] cap(2) by auto
qed

theorem child_output_delivered_witness:
  "\<exists>payload. recv_data_packet toy_noxtls (direct_wait toy_noxtls) 4096 payload exec_client = (Ok (Some [104, 105]), exec_client)"
proof -
  let ?s = "exec_server\<lparr>remote_window_size := 100, remote_max_packet_size := 32768\<rparr>"
  have ok: "(case fst (session_output toy_noxtls (Read [104, 105]) ?s) of Ok r \<Rightarrow> r = Go False | _ \<Rightarrow> False)" by code_simp
  then obtain s' where run: "session_output toy_noxtls (Read [104, 105]) ?s = (Ok (Go False), s')"
    by (cases "session_output toy_noxtls (Read [104, 105]) ?s") (auto split: res.splits)
  have "length [104, 105 :: byte] \<le> unat (read_cap ?s)" "local_channel_id exec_client = remote_channel_id ?s" by code_simp+
  from child_output_delivered [OF _ this(1) run this(2), of 4096 "direct_wait toy_noxtls"] show ?thesis by auto
qed

section \<open>The child process\<close>

text \<open>Whatever \<open>write\<close> and \<open>poll\<close> return, the data written to the child is a prefix of the client's data, and the
  write is reported complete exactly when all of it was written.\<close>

theorem write_child_correct:
  "case srv_write_child ws data of (ok, written, rest) \<Rightarrow> prefix written data \<and> (ok \<longleftrightarrow> written = data) \<and> suffix rest ws"
proof (induction ws arbitrary: data)
  case Nil
  then show ?case by (simp add: srv_write_child.simps)
next
  case (Cons w ws)
  show ?case
  proof (cases "data = []")
    case True
    then show ?thesis by (simp add: srv_write_child.simps)
  next
    case False
    obtain ok d r where again: "srv_write_child ws data = (ok, d, r)" by (cases "srv_write_child ws data")
    show ?thesis
    proof (cases w)
      case (Wrote n)
      obtain ok' d' r' where rec: "srv_write_child ws (drop n data) = (ok', d', r')" by (cases "srv_write_child ws (drop n data)")
      have "prefix (take n data @ d') data \<longleftrightarrow> prefix d' (drop n data)" "take n data @ d' = data \<longleftrightarrow> d' = drop n data"
        by (metis append_take_drop_id same_prefix_prefix) (metis append_take_drop_id same_append_eq)
      moreover have "srv_write_child (w # ws) data = (if n = 0 then (False, [], ws) else (ok', take n data @ d', r'))"
        using False Wrote rec by (simp add: srv_write_child.simps [of "x # ws" data for x])
      ultimately show ?thesis using Cons [of "drop n data"] rec False by (simp add: suffix_ConsI)
    qed (use Cons [of data] again False in \<open>simp_all add: srv_write_child.simps [of "x # ws" data for x] suffix_ConsI\<close>)
  qed
qed

text \<open>C17: A child that gets as far as \<open>execl\<close> runs the login shell of the authenticated user's account with that
  account's user and group, also when the server does not run as root; a root server has changed all three of
  supplementary groups, group and user before.\<close>

theorem child_runs_as_user:
  assumes "srv_child_exec passwd sys euid egid s cmd shell = Some p"
  shows "\<exists>pw. passwd (authenticated_user s) = Some pw \<and> run_uid p = pw_uid pw \<and> run_gid p = pw_gid pw \<and>
    (euid = 0 \<longrightarrow> sys_initgroups sys \<and> sys_setgid sys \<and> sys_setuid sys) \<and> pw_shell pw \<noteq> [] \<and>
    run_argv p = pw_shell pw # (if shell then [ascii ''-i''] else [ascii ''-c'', cmd])"
  using assms by (auto simp: srv_child_exec_def split: option.splits if_splits)

definition sample_account :: passwd_entry where
  "sample_account = \<lparr>pw_name = ascii ''root'', pw_uid = 1000, pw_gid = 100, pw_dir = ascii ''/home/root'', pw_shell = ascii ''/bin/sh''\<rparr>"

definition all_calls :: child_calls where
  "all_calls = \<lparr>sys_redirect = True, sys_initgroups = True, sys_setgid = True, sys_setuid = True, sys_chdir = True, sys_environment = True\<rparr>"

theorem child_runs_as_user_witness:
  "\<exists>p. srv_child_exec (\<lambda>_. Some sample_account) all_calls 0 0 exec_server (ascii ''id'') False = Some p \<and> run_uid p = 1000 \<and>
    run_argv p = [ascii ''/bin/sh'', ascii ''-c'', ascii ''id'']"
proof -
  obtain p where p: "srv_child_exec (\<lambda>_. Some sample_account) all_calls 0 0 exec_server (ascii ''id'') False = Some p"
    by (simp add: srv_child_exec_def sample_account_def all_calls_def ascii_def)
  from child_runs_as_user [OF p] p show ?thesis by (auto simp: sample_account_def)
qed

end
