(* ===== verification/Nox_Text.thy ===== *)
theory Nox_Text
  imports Nox_Wire
begin

text \<open>
  The text routines of the client program (\<open>client/main.c\<close>): hex and base64, comparisons without case, trimming, and
  the host patterns of a configuration file. A C string is the list of its characters before the NUL.
\<close>

section \<open>Definitions\<close>

subsection \<open>Hex\<close>

definition hex_digit :: "byte \<Rightarrow> byte" where
  "hex_digit n = ascii ''0123456789abcdef'' ! unat n"

text \<open>\<open>None\<close>: the output buffer is too small and stays as it was.\<close>

definition noxssh_bytes_to_hex :: "bytes \<Rightarrow> u32 \<Rightarrow> bytes option" where
  "noxssh_bytes_to_hex d out_len =
     (if out_len = 0 \<or> out_len < u32len d * 2 + 1 then None
      else Some (concat (map (\<lambda>b. [hex_digit (drop_bit 4 b AND 0x0F), hex_digit (b AND 0x0F)]) d)))"

definition noxssh_hex_nibble :: "byte \<Rightarrow> byte option" where
  "noxssh_hex_nibble c =
     (if c \<ge> 48 \<and> c \<le> 57 then Some (c - 48)
      else if c \<ge> 97 \<and> c \<le> 102 then Some (c - 97 + 10)
      else if c \<ge> 65 \<and> c \<le> 70 then Some (c - 65 + 10)
      else None)"

fun hex_pairs :: "bytes \<Rightarrow> bytes option" where
  "hex_pairs (c # d # r) =
     Option.bind (noxssh_hex_nibble c) (\<lambda>hi. Option.bind (noxssh_hex_nibble d) (\<lambda>lo.
     map_option (\<lambda>t. (push_bit 4 hi OR lo) # t) (hex_pairs r)))"
| "hex_pairs r = Some []"

definition noxssh_hex_to_bytes :: "bytes \<Rightarrow> u32 \<Rightarrow> bytes option" where
  "noxssh_hex_to_bytes hex out_len =
     (if length hex \<noteq> unat (out_len * 2) then None else hex_pairs hex)"

subsection \<open>Base64\<close>

definition noxssh_base64_val :: "byte \<Rightarrow> byte option" where
  "noxssh_base64_val c =
     (if c \<ge> 65 \<and> c \<le> 90 then Some (c - 65)
      else if c \<ge> 97 \<and> c \<le> 122 then Some (c - 97 + 26)
      else if c \<ge> 48 \<and> c \<le> 57 then Some (c - 48 + 52)
      else if c = 43 then Some 62
      else if c = 47 then Some 63
      else None)"

text \<open>The third and fourth character of a group; a padding character stands for \<open>-1\<close>.\<close>

definition base64_tail :: "byte \<Rightarrow> byte option" where
  "base64_tail c = (if c = 61 then Some (- 1) else noxssh_base64_val c)"

definition put_byte :: "u32 \<Rightarrow> byte \<Rightarrow> bytes \<Rightarrow> bytes option" where
  "put_byte out_max b out = (if u32len out + 1 > out_max then None else Some (out @ [b]))"

definition octet1 :: "byte \<Rightarrow> byte \<Rightarrow> byte" where
  "octet1 v0 v1 = push_bit 2 v0 OR drop_bit 4 v1"

definition octet2 :: "byte \<Rightarrow> byte \<Rightarrow> byte" where
  "octet2 v1 v2 = push_bit 4 (v1 AND 0x0F) OR drop_bit 2 v2"

definition octet3 :: "byte \<Rightarrow> byte \<Rightarrow> byte" where
  "octet3 v2 v3 = push_bit 6 (v2 AND 0x03) OR v3"

fun base64_groups :: "u32 \<Rightarrow> bytes \<Rightarrow> bytes \<Rightarrow> bytes option" where
  "base64_groups out_max (c0 # c1 # c2 # c3 # r) out =
     Option.bind (noxssh_base64_val c0) (\<lambda>v0. Option.bind (noxssh_base64_val c1) (\<lambda>v1.
     Option.bind (base64_tail c2) (\<lambda>v2. Option.bind (base64_tail c3) (\<lambda>v3.
     Option.bind (put_byte out_max (octet1 v0 v1) out) (\<lambda>o1.
     Option.bind (if c2 \<noteq> 61 then put_byte out_max (octet2 v1 v2) o1 else Some o1) (\<lambda>o2.
     Option.bind (if c3 \<noteq> 61 then put_byte out_max (octet3 v2 v3) o2 else Some o2) (\<lambda>o3.
     base64_groups out_max r o3)))))))"
| "base64_groups out_max r out = Some out"

definition noxssh_base64_decode :: "bytes \<Rightarrow> u32 \<Rightarrow> bytes option" where
  "noxssh_base64_decode inp out_max =
     (if u32len inp mod 4 \<noteq> 0 then None else base64_groups out_max inp [])"

subsection \<open>Words of a line\<close>

definition tolower :: "byte \<Rightarrow> byte" where
  "tolower c = (if c \<ge> 65 \<and> c \<le> 90 then c + 32 else c)"

fun noxssh_ascii_equals_ignore_case :: "bytes \<Rightarrow> bytes \<Rightarrow> bool" where
  "noxssh_ascii_equals_ignore_case (x # a) (y # b) =
     (if tolower x \<noteq> tolower y then False else noxssh_ascii_equals_ignore_case a b)"
| "noxssh_ascii_equals_ignore_case a b \<longleftrightarrow> a = [] \<and> b = []"

definition is_space :: "byte \<Rightarrow> bool" where
  "is_space c \<longleftrightarrow> c = 32 \<or> (9 \<le> c \<and> c \<le> 13)"

definition noxssh_ltrim :: "bytes \<Rightarrow> bytes" where
  "noxssh_ltrim s = dropWhile is_space s"

definition noxssh_rtrim :: "bytes \<Rightarrow> bytes" where
  "noxssh_rtrim s = rev (dropWhile is_space (rev s))"

text \<open>\<open>strtok\<close>: the non-empty pieces between characters of \<open>seps\<close>.\<close>

fun tokens :: "(byte \<Rightarrow> bool) \<Rightarrow> bytes \<Rightarrow> bytes \<Rightarrow> bytes list" where
  "tokens sep cur [] = (if cur = [] then [] else [cur])"
| "tokens sep cur (c # s) =
     (if sep c then (if cur = [] then tokens sep [] s else cur # tokens sep [] s)
      else tokens sep (cur @ [c]) s)"

subsection \<open>Host patterns\<close>

function noxssh_host_pattern_match :: "bytes \<Rightarrow> bytes \<Rightarrow> bool" where
  "noxssh_host_pattern_match pattern host =
     (case pattern of
        [] \<Rightarrow> host = []
      | c # p \<Rightarrow>
          if c = 42
          then noxssh_host_pattern_match p host \<or>
               (case host of [] \<Rightarrow> False | h # t \<Rightarrow> noxssh_host_pattern_match pattern t)
          else (case host of
              [] \<Rightarrow> False
            | h # t \<Rightarrow>
                if c = 63 then noxssh_host_pattern_match p t
                else if tolower c \<noteq> tolower h then False
                else noxssh_host_pattern_match p t))"
  by pat_completeness auto
termination
  by (relation "measure (\<lambda>(p, h). length p + length h)") auto

declare noxssh_host_pattern_match.simps [simp del]

text \<open>The tokens in order, with \<open>matched\<close> and \<open>has_positive\<close>; a negated match ends the search.\<close>

fun host_tokens :: "bytes \<Rightarrow> bool \<Rightarrow> bool \<Rightarrow> bytes list \<Rightarrow> bool" where
  "host_tokens host matched has_positive [] \<longleftrightarrow> has_positive \<and> matched"
| "host_tokens host matched has_positive (tok # ts) =
     (let negate = (tok \<noteq> [] \<and> hd tok = 33); t = (if negate then tl tok else tok)
      in if t = [] then host_tokens host matched has_positive ts
         else if noxssh_host_pattern_match t host
         then (if negate then False else host_tokens host True True ts)
         else host_tokens host matched (has_positive \<or> \<not> negate) ts)"

definition noxssh_host_list_matches :: "bytes \<Rightarrow> bytes \<Rightarrow> bool" where
  "noxssh_host_list_matches patterns host =
     host_tokens host False False (tokens (\<lambda>c. c = 32 \<or> c = 9) [] (take 1023 patterns))"

section \<open>Base64 of RFC 4648\<close>

definition b64_alphabet :: bytes where
  "b64_alphabet = ascii ''ABCDEFGHIJKLMNOPQRSTUVWXYZabcdefghijklmnopqrstuvwxyz0123456789+/''"

definition b64_char :: "byte \<Rightarrow> byte" where
  "b64_char v = b64_alphabet ! unat v"

text \<open>The four groups of six bits in three bytes.\<close>

definition sextet1 :: "byte \<Rightarrow> byte" where
  "sextet1 a = drop_bit 2 a AND 63"

definition sextet2 :: "byte \<Rightarrow> byte \<Rightarrow> byte" where
  "sextet2 a b = (push_bit 4 a OR drop_bit 4 b) AND 63"

definition sextet3 :: "byte \<Rightarrow> byte \<Rightarrow> byte" where
  "sextet3 b c = (push_bit 2 b OR drop_bit 6 c) AND 63"

definition sextet4 :: "byte \<Rightarrow> byte" where
  "sextet4 c = c AND 63"

lemmas sextet_defs = sextet1_def sextet2_def sextet3_def sextet4_def

fun b64_encode :: "bytes \<Rightarrow> bytes" where
  "b64_encode (a # b # c # r) =
     b64_char (sextet1 a) # b64_char (sextet2 a b) # b64_char (sextet3 b c) # b64_char (sextet4 c) # b64_encode r"
| "b64_encode [a, b] = [b64_char (sextet1 a), b64_char (sextet2 a b), b64_char (sextet3 b 0), 61]"
| "b64_encode [a] = [b64_char (sextet1 a), b64_char (sextet2 a 0), 61, 61]"
| "b64_encode [] = []"

lemma b64_values: "list_all (\<lambda>n. noxssh_base64_val (b64_alphabet ! n) = Some (word_of_nat n) \<and> b64_alphabet ! n \<noteq> 61) [0..<64]"
  by code_simp

lemma sextet_less: "unat (sextet1 a) < 64" "unat (sextet2 a b) < 64" "unat (sextet3 a b) < 64" "unat (sextet4 a) < 64"
proof -
  have "unat (v AND 63 :: byte) < 64" for v
    using word_and_le1 [of v 63] by (simp add: word_le_nat_alt)
  then show "unat (sextet1 a) < 64" "unat (sextet2 a b) < 64" "unat (sextet3 a b) < 64" "unat (sextet4 a) < 64"
    unfolding sextet_defs by blast+
qed

lemma b64_char: "unat v < 64 \<Longrightarrow> noxssh_base64_val (b64_char v) = Some v \<and> b64_char v \<noteq> 61"
  using b64_values by (auto simp: list_all_iff b64_char_def)

lemmas b64_chars [simp] = b64_char [OF sextet_less(1)] b64_char [OF sextet_less(2)] b64_char [OF sextet_less(3)]
  b64_char [OF sextet_less(4)]

lemma byte_eqI:
  fixes a b :: byte
  assumes "bit a 0 = bit b 0" "bit a 1 = bit b 1" "bit a 2 = bit b 2" "bit a 3 = bit b 3"
    "bit a 4 = bit b 4" "bit a 5 = bit b 5" "bit a 6 = bit b 6" "bit a 7 = bit b 7"
  shows "a = b"
proof (rule bit_word_eqI)
  fix n assume "n < LENGTH(8)"
  then have "n \<in> {0, 1, 2, 3, 4, 5, 6, 7}" by auto
  then show "bit a n = bit b n" using assms by auto
qed

lemma masks: "(63 :: byte) = mask 6" "(15 :: byte) = mask 4" "(3 :: byte) = mask 2"
  by (simp_all add: mask_eq_exp_minus_1)

lemma octets [simp]: "octet1 (sextet1 a) (sextet2 a b) = a" "octet2 (sextet2 a b) (sextet3 b c) = b"
  "octet3 (sextet3 b c) (sextet4 c) = c"
  unfolding octet1_def octet2_def octet3_def sextet_defs masks by (rule byte_eqI; auto simp: bit_simps)+

lemma put_byte_eq: "length out < 2 ^ 31 \<Longrightarrow> put_byte m b out = (if length out < unat m then Some (out @ [b]) else None)"
  using unat_u32_add [of "u32len out" 1] by (simp add: put_byte_def u32_less_iff unat_u32len)

lemma base64_groups_encode:
  "length out + length d < 2 ^ 31 \<Longrightarrow> length out \<le> unat m \<Longrightarrow>
   base64_groups m (b64_encode d) out = (if length out + length d \<le> unat m then Some (out @ d) else None)"
proof (induction d arbitrary: out rule: b64_encode.induct)
  case (1 a b c r)
  have "base64_groups m (b64_encode (a # b # c # r)) out =
    (if length out + 3 \<le> unat m then base64_groups m (b64_encode r) (out @ [a, b, c]) else None)"
    using 1(2) by (simp add: base64_tail_def put_byte_eq)
  then show ?case using 1(1) [of "out @ [a, b, c]"] 1(2) by auto
qed (simp_all add: base64_tail_def put_byte_eq)

lemma length_b64 [simp]: "length (b64_encode d) = 4 * ((length d + 2) div 3)"
proof (induction d rule: b64_encode.induct)
  case (1 a b c r)
  then show ?case by simp presburger
qed simp_all

lemma decode_encode:
  assumes "length d < 2 ^ 30"
  shows "noxssh_base64_decode (b64_encode d) out_max = (if length d \<le> unat out_max then Some d else None)"
proof -
  have "length (b64_encode d) < 2 ^ 32" using assms by simp
  then have "unat (u32len (b64_encode d) mod 4) = 0" by (simp add: unat_mod unat_u32len)
  then show ?thesis using base64_groups_encode [of "[]" d out_max] assms
    by (simp add: noxssh_base64_decode_def unat_eq_zero)
qed

section \<open>Hex\<close>

definition hex_of :: "bytes \<Rightarrow> bytes" where
  "hex_of d = concat (map (\<lambda>b. [hex_digit (drop_bit 4 b AND 0x0F), hex_digit (b AND 0x0F)]) d)"

lemma length_hex_of [simp]: "length (hex_of d) = 2 * length d"
  by (induction d) (simp_all add: hex_of_def)

lemma hex_values: "list_all (\<lambda>n. noxssh_hex_nibble (hex_digit (word_of_nat n)) = Some (word_of_nat n)) [0..<16]"
  by code_simp

lemma hex_digit_nibble: "noxssh_hex_nibble (hex_digit (v AND 0x0F)) = Some (v AND 0x0F)"
proof -
  have "unat (v AND 15 :: byte) < 16" using word_and_le1 [of v 15] by (simp add: word_le_nat_alt)
  then show ?thesis using hex_values by (auto simp: list_all_iff dest!: bspec [of _ _ "unat (v AND 15)"])
qed

lemma nibbles: "push_bit 4 (drop_bit 4 b AND 0x0F) OR (b AND 0x0F) = (b :: byte)"
  unfolding masks by (rule byte_eqI; auto simp: bit_simps)

lemma hex_pairs_of: "hex_pairs (hex_of d) = Some d"
proof (induction d)
  case (Cons b d)
  have "hex_of (b # d) = hex_digit (drop_bit 4 b AND 0x0F) # hex_digit (b AND 0x0F) # hex_of d" by (simp add: hex_of_def)
  then show ?case
    by (simp only: hex_pairs.simps hex_digit_nibble bind.bind_lunit Cons option.map nibbles)
qed (simp add: hex_of_def)

section \<open>Patterns\<close>

text \<open>What a pattern stands for: \<open>*\<close> any string, \<open>?\<close> any character, anything else itself up to case.\<close>

inductive glob :: "bytes \<Rightarrow> bytes \<Rightarrow> bool" where
  glob_end: "glob [] []"
| glob_any: "glob p h \<Longrightarrow> glob (42 # p) (skipped @ h)"
| glob_one: "glob p h \<Longrightarrow> glob (63 # p) (c # h)"
| glob_char: "glob p h \<Longrightarrow> c \<noteq> 42 \<Longrightarrow> c \<noteq> 63 \<Longrightarrow> tolower c = tolower d \<Longrightarrow> glob (c # p) (d # h)"

inductive_cases glob_NilE: "glob [] h"
inductive_cases glob_ConsE: "glob (c # p) h"

lemma glob_star_skip: "glob (42 # p) t \<Longrightarrow> glob (42 # p) (h # t)"
  by (erule glob_ConsE) (auto intro: glob_any [of p _ "h # _", simplified])

lemma pattern_match_glob: "noxssh_host_pattern_match p h = glob p h"
proof (induction p h rule: noxssh_host_pattern_match.induct)
  case (1 p h)
  show ?case
  proof (cases p)
    case Nil
    then show ?thesis by (subst noxssh_host_pattern_match.simps) (auto intro: glob_end elim: glob_NilE)
  next
    case (Cons c q)
    show ?thesis
    proof (cases "c = 42")
      case True
      then have rest: "noxssh_host_pattern_match q h = glob q h" using 1(1) Cons by blast
      have "noxssh_host_pattern_match p h \<longleftrightarrow> glob q h \<or> (\<exists>x t. h = x # t \<and> glob p t)"
        using 1(2) [OF Cons True] rest True Cons by (subst noxssh_host_pattern_match.simps) (auto split: list.splits)
      also have "\<dots> \<longleftrightarrow> glob p h"
      proof
        assume "glob q h \<or> (\<exists>x t. h = x # t \<and> glob p t)"
        then show "glob p h" using True Cons glob_any [of q h "[]"] glob_star_skip by auto
      next
        assume "glob p h"
        then obtain sk t where "h = sk @ t" "glob q t" using True Cons by (auto elim: glob_ConsE)
        then show "glob q h \<or> (\<exists>x t. h = x # t \<and> glob p t)" using True Cons by (cases sk) (auto intro: glob_any)
      qed
      finally show ?thesis .
    next
      case False
      show ?thesis
      proof (cases h)
        case Nil
        then show ?thesis using False Cons
          by (subst noxssh_host_pattern_match.simps) (auto elim!: glob_ConsE)
      next
        case (Cons x t)
        then show ?thesis using False \<open>p = c # q\<close> 1(3) [OF \<open>p = c # q\<close> False Cons] 1(4) [OF \<open>p = c # q\<close> False Cons]
          by (subst noxssh_host_pattern_match.simps) (cases "c = 63"; auto intro: glob_one glob_char elim!: glob_ConsE)
      qed
    qed
  qed
qed

lemma host_tokens_iff:
  "(matched \<longrightarrow> pos) \<Longrightarrow> host_tokens h matched pos ts \<longleftrightarrow>
    (matched \<or> (\<exists>t \<in> set ts. t \<noteq> [] \<and> hd t \<noteq> 33 \<and> glob t h)) \<and> \<not> (\<exists>t. 33 # t \<in> set ts \<and> t \<noteq> [] \<and> glob t h)"
proof (induction ts arbitrary: matched pos)
  case (Cons tok ts)
  show ?case
  proof (cases "tok \<noteq> [] \<and> hd tok = 33")
    case True
    then obtain t where "tok = 33 # t" by (cases tok) auto
    then show ?thesis using Cons.IH [of matched pos] Cons.prems by (auto simp: Let_def pattern_match_glob)
  next
    case False
    then show ?thesis using Cons.IH [of matched pos] Cons.IH [of True True] Cons.IH [of matched True] Cons.prems
      by (auto simp: Let_def pattern_match_glob)
  qed
qed auto

section \<open>Properties\<close>

text \<open>C40: The host patterns of a configuration block apply to a host exactly when one of the patterns without \<open>!\<close>
  stands for it and none of those with \<open>!\<close> does, where \<open>*\<close> stands for any string, \<open>?\<close> for any character, and case is
  ignored.\<close>

theorem host_list_iff:
  "noxssh_host_list_matches patterns h \<longleftrightarrow>
    (let ts = set (tokens (\<lambda>c. c = 32 \<or> c = 9) [] (take 1023 patterns))
     in (\<exists>t \<in> ts. t \<noteq> [] \<and> hd t \<noteq> 33 \<and> glob t h) \<and> \<not> (\<exists>t. 33 # t \<in> ts \<and> t \<noteq> [] \<and> glob t h))"
  unfolding noxssh_host_list_matches_def Let_def by (subst host_tokens_iff) simp_all

end
