(* ===== verification/Nox_Hosts.thy ===== *)
theory Nox_Hosts
  imports Nox_Text
begin

text \<open>
  The client program's target argument and its trust in host keys (\<open>client/main.c\<close>): the file of known hosts, read
  with \<open>fgets\<close> and \<open>sscanf\<close> and extended with \<open>fprintf\<close>, and the policy that decides on a host key. Files are a map
  from paths to contents.
\<close>

section \<open>Definitions\<close>

subsection \<open>C input and output of text\<close>

text \<open>The lines that \<open>fgets(line, n + 1, f)\<close> returns one after the other.\<close>

function fgets_lines :: "nat \<Rightarrow> bytes \<Rightarrow> bytes list" where
  "fgets_lines n s =
     (if s = [] \<or> n = 0 then []
      else let k = min n (length (takeWhile (\<lambda>c. c \<noteq> 10) s) + 1)
           in take k s # fgets_lines n (drop k s))"
  by pat_completeness auto
termination
  by (relation "measure (\<lambda>(n, s). length s)") auto

declare fgets_lines.simps [simp del]

text \<open>One call: the line and what is left of the stream, \<open>None\<close> at its end.\<close>

definition fgets_next :: "nat \<Rightarrow> bytes \<Rightarrow> (bytes \<times> bytes) option" where
  "fgets_next n s = (case fgets_lines n s of [] \<Rightarrow> None | l # _ \<Rightarrow> Some (l, drop (length l) s))"

definition is_digit :: "byte \<Rightarrow> bool" where
  "is_digit c \<longleftrightarrow> 48 \<le> c \<and> c \<le> 57"

definition dec_value :: "bytes \<Rightarrow> nat" where
  "dec_value ds = foldl (\<lambda>v c. 10 * v + (unat c - 48)) 0 ds"

text \<open>\<open>strtoul(s, &end, 10)\<close>: the value and the rest, \<open>None\<close> where no number starts.\<close>

definition strtoul :: "bytes \<Rightarrow> (u64 \<times> bytes) option" where
  "strtoul s =
     (let t = dropWhile is_space s; neg = (t \<noteq> [] \<and> hd t = 45);
          u = (if t \<noteq> [] \<and> (hd t = 43 \<or> hd t = 45) then tl t else t); ds = takeWhile is_digit u
      in if ds = [] then None
         else Some (if dec_value ds \<ge> 2 ^ 64 then - 1
                    else if neg then - word_of_nat (dec_value ds) else word_of_nat (dec_value ds), drop (length ds) u))"

text \<open>\<open>%ns\<close> and \<open>%u\<close> of \<open>sscanf\<close>.\<close>

definition scan_word :: "nat \<Rightarrow> bytes \<Rightarrow> (bytes \<times> bytes) option" where
  "scan_word n s =
     (let t = dropWhile is_space s; w = take n (takeWhile (\<lambda>c. \<not> is_space c) t)
      in if w = [] then None else Some (w, drop (length w) t))"

definition scan_uint :: "bytes \<Rightarrow> (u32 \<times> bytes) option" where
  "scan_uint s = map_option (\<lambda>(v, r). (ucast v, r)) (strtoul s)"

text \<open>\<open>%u\<close> of \<open>fprintf\<close>.\<close>

fun dec :: "nat \<Rightarrow> bytes" where
  "dec n = (if n < 10 then [word_of_nat (48 + n)] else dec (n div 10) @ [word_of_nat (48 + n mod 10)])"

declare dec.simps [simp del]

subsection \<open>The target\<close>

definition noxssh_parse_target :: "bytes \<Rightarrow> u16 \<Rightarrow> u16 \<Rightarrow> (bytes \<times> bytes) res" where
  "noxssh_parse_target target username_out_len host_out_len =
     (if username_out_len = 0 \<or> host_out_len = 0 then Err NETNOX_RETURN_BAD_PARAM
      else if 64 \<notin> set target
      then (if 4 \<ge> unat username_out_len \<or> target = [] \<or> length target \<ge> unat host_out_len
            then Err NETNOX_RETURN_BAD_PARAM else Ok (ascii ''user'', target))
      else let user = takeWhile (\<lambda>c. c \<noteq> 64) target; hst = tl (dropWhile (\<lambda>c. c \<noteq> 64) target)
           in if user = [] \<or> hst = [] \<or> length user \<ge> unat username_out_len \<or> length hst \<ge> unat host_out_len
              then Err NETNOX_RETURN_BAD_PARAM else Ok (user, hst))"

subsection \<open>Host key checking\<close>

datatype hostkey_check = CHECK_ASK | CHECK_YES | CHECK_NO | CHECK_ACCEPT_NEW

definition noxssh_parse_strict_host_key_mode :: "bytes \<Rightarrow> hostkey_check option" where
  "noxssh_parse_strict_host_key_mode v =
     (if noxssh_ascii_equals_ignore_case v (ascii ''yes'') \<or> noxssh_ascii_equals_ignore_case v (ascii ''true'')
      then Some CHECK_YES
      else if noxssh_ascii_equals_ignore_case v (ascii ''no'') \<or> noxssh_ascii_equals_ignore_case v (ascii ''off'') \<or>
        noxssh_ascii_equals_ignore_case v (ascii ''false'')
      then Some CHECK_NO
      else if noxssh_ascii_equals_ignore_case v (ascii ''accept-new'') then Some CHECK_ACCEPT_NEW
      else if noxssh_ascii_equals_ignore_case v (ascii ''ask'') then Some CHECK_ASK
      else None)"

text \<open>What the system answers: the variable HOME, the files, whether a file can be opened for reading, whether a directory
  can be made or exists, whether a file can be opened for appending, how many bytes that are then written arrive in it
  (a full disk, a quota), and what is still to be read from the standard input.\<close>

record host_env =
  home_env :: "bytes option"
  files :: "bytes \<Rightarrow> bytes option"
  read_ok :: "bytes \<Rightarrow> bool"
  mkdir_ok :: "bytes \<Rightarrow> bool"
  append_ok :: "bytes \<Rightarrow> bool"
  append_room :: "bytes \<Rightarrow> nat"
  stdin_left :: bytes

text \<open>What \<open>fopen(path, "r")\<close> gives to read.\<close>

definition fopen_read :: "host_env \<Rightarrow> bytes \<Rightarrow> bytes option" where
  "fopen_read env path = (if read_ok env path then files env path else None)"

definition noxssh_get_known_hosts_path :: "bytes option \<Rightarrow> nat \<Rightarrow> bytes option" where
  "noxssh_get_known_hosts_path home out_path_len =
     (case home of
        None \<Rightarrow> None
      | Some h \<Rightarrow>
          let p = h @ ascii ''/.noxssh/known_hosts''
          in if h = [] \<or> length p \<ge> out_path_len then None else Some p)"

definition noxssh_ensure_known_hosts_dir :: "host_env \<Rightarrow> bytes \<Rightarrow> bool" where
  "noxssh_ensure_known_hosts_dir env path =
     (let dir_path = take 1023 path; d = rev (drop 1 (dropWhile (\<lambda>c. c \<noteq> 47) (rev dir_path)))
      in path \<noteq> [] \<and> 47 \<in> set dir_path \<and> d \<noteq> [] \<and> mkdir_ok env d)"

definition known_host_line :: "bytes \<Rightarrow> (bytes \<times> u32 \<times> bytes) option" where
  "known_host_line line =
     Option.bind (scan_word 255 line) (\<lambda>(h, r1). Option.bind (scan_uint r1) (\<lambda>(p, r2).
     Option.bind (scan_word 64 r2) (\<lambda>(hex, _). Some (h, p, hex))))"

fun lookup_lines :: "bytes \<Rightarrow> u16 \<Rightarrow> bytes list \<Rightarrow> bytes option" where
  "lookup_lines hst prt [] = None"
| "lookup_lines hst prt (l # ls) =
     (if l \<noteq> [] \<and> (hd l = 35 \<or> hd l = 10 \<or> hd l = 13) then lookup_lines hst prt ls
      else case known_host_line (cstr l) of
          Some (h, p, hex) \<Rightarrow> if h = hst \<and> p = ucast prt then Some hex else lookup_lines hst prt ls
        | None \<Rightarrow> lookup_lines hst prt ls)"

definition noxssh_lookup_known_host :: "bytes option \<Rightarrow> bytes \<Rightarrow> u16 \<Rightarrow> bytes option" where
  "noxssh_lookup_known_host content hst prt =
     (case content of None \<Rightarrow> None | Some s \<Rightarrow> map_option (take 64) (lookup_lines hst prt (fgets_lines 1399 s)))"

definition host_line :: "bytes \<Rightarrow> u16 \<Rightarrow> bytes \<Rightarrow> bytes" where
  "host_line hst prt hex = hst @ [32] @ dec (unat prt) @ [32] @ hex @ [10]"

text \<open>The results of \<open>fprintf\<close> and \<open>fclose\<close> are ignored: a line of which only a part arrives counts as saved.\<close>

definition noxssh_append_known_host :: "bytes \<Rightarrow> bytes \<Rightarrow> u16 \<Rightarrow> bytes \<Rightarrow> host_env \<Rightarrow> bool \<times> host_env" where
  "noxssh_append_known_host path hst prt hex env =
     (if \<not> noxssh_ensure_known_hosts_dir env path \<or> \<not> append_ok env path then (False, env)
      else (True, env\<lparr>files := (files env)(path \<mapsto>
        (case files env path of None \<Rightarrow> [] | Some s \<Rightarrow> s) @ take (append_room env path) (host_line hst prt hex))\<rparr>))"

definition known_hosts_path :: "host_env \<Rightarrow> bytes \<Rightarrow> bytes option" where
  "known_hosts_path env override =
     (if override \<noteq> [] then Some (take 1023 override) else noxssh_get_known_hosts_path (home_env env) 1024)"

text \<open>The answer to the question, as \<open>fgets(answer, 16, stdin)\<close> reads it, and the input after it.\<close>

definition answered_yes :: "host_env \<Rightarrow> bool" where
  "answered_yes env =
     (case fgets_next 15 (stdin_left env) of
        None \<Rightarrow> False
      | Some (a, _) \<Rightarrow> cstr a = ascii ''yes'' @ [10] \<or> cstr a = ascii ''yes'' @ [13, 10])"

definition after_answer :: "host_env \<Rightarrow> host_env" where
  "after_answer env = (case fgets_next 15 (stdin_left env) of None \<Rightarrow> env | Some (_, rest) \<Rightarrow> env\<lparr>stdin_left := rest\<rparr>)"

definition noxssh_verify_host_key ::
  "bytes \<Rightarrow> u16 \<Rightarrow> bytes \<Rightarrow> hostkey_check \<Rightarrow> bytes \<Rightarrow> bool \<Rightarrow> bytes \<Rightarrow> host_env \<Rightarrow> bool \<times> host_env" where
  "noxssh_verify_host_key hst prt fingerprint mode pinned batch_mode override env =
     (case (if length fingerprint \<noteq> 32 then None else noxssh_bytes_to_hex fingerprint 65) of
        None \<Rightarrow> (False, env)
      | Some actual_hex \<Rightarrow>
          if pinned \<noteq> [] then (actual_hex = pinned, env)
          else case known_hosts_path env override of
            None \<Rightarrow> (False, env)
          | Some path \<Rightarrow>
              case noxssh_lookup_known_host (fopen_read env path) hst prt of
                Some known_hex \<Rightarrow> (known_hex = actual_hex \<or> mode = CHECK_NO, env)
              | None \<Rightarrow>
                  if mode = CHECK_YES then (False, env)
                  else if mode = CHECK_NO then (True, env)
                  else if mode = CHECK_ACCEPT_NEW then noxssh_append_known_host path hst prt actual_hex env
                  else if batch_mode then (False, env)
                  else if \<not> answered_yes env then (False, after_answer env)
                  else noxssh_append_known_host path hst prt actual_hex (after_answer env))"

text \<open>The fingerprint given on the command line.\<close>

definition noxssh_is_valid_hex_fingerprint :: "bytes \<Rightarrow> bool" where
  "noxssh_is_valid_hex_fingerprint s \<longleftrightarrow> length s = 64 \<and>
     list_all (\<lambda>c. (48 \<le> c \<and> c \<le> 57) \<or> (97 \<le> c \<and> c \<le> 102) \<or> (65 \<le> c \<and> c \<le> 70)) s"

definition noxssh_ascii_tolower_inplace :: "bytes \<Rightarrow> bytes" where
  "noxssh_ascii_tolower_inplace s = map (\<lambda>c. if 65 \<le> c \<and> c \<le> 90 then c - 65 + 97 else c) s"

section \<open>Lines\<close>

lemma fgets_nothing [simp]: "fgets_lines n [] = []" "fgets_lines 0 s = []"
  by (simp_all add: fgets_lines.simps)

lemma fgets_next_shorter: "fgets_next n s = Some (l, r) \<Longrightarrow> length r < length s"
  by (subst (asm) fgets_next_def, subst (asm) fgets_lines.simps) (auto simp: Let_def min_def split: if_splits)

lemma fgets_lines_append: "a = [] \<or> last a = 10 \<Longrightarrow> fgets_lines n (a @ b) = fgets_lines n a @ fgets_lines n b"
proof (induction n a rule: fgets_lines.induct)
  case (1 n a)
  show ?case
  proof (cases "a = [] \<or> n = 0")
    case True
    then show ?thesis by auto
  next
    case False
    define k where "k = min n (length (takeWhile (\<lambda>c. c \<noteq> 10) a) + 1)"
    have "10 \<in> set a" using 1(2) False last_in_set by metis
    then have tw: "takeWhile (\<lambda>c. c \<noteq> 10) (a @ b) = takeWhile (\<lambda>c. c \<noteq> 10) a" by (simp add: takeWhile_append1)
    have "length (takeWhile (\<lambda>c. c \<noteq> 10) a) < length a"
      using \<open>10 \<in> set a\<close> by (induction a) auto
    then have k: "k \<le> length a" "0 < k" using False by (auto simp: k_def)
    have "drop k a = [] \<or> last (drop k a) = 10" using 1(2) False by (cases "k < length a") auto
    then have "fgets_lines n (drop k a @ b) = fgets_lines n (drop k a) @ fgets_lines n b"
      using 1(1) [OF False, of k] False by (simp add: k_def)
    moreover have "fgets_lines n (a @ b) = take k (a @ b) # fgets_lines n (drop k (a @ b))"
      using False tw by (subst fgets_lines.simps) (simp add: Let_def k_def)
    moreover have "fgets_lines n a = take k a # fgets_lines n (drop k a)"
      using False by (subst fgets_lines.simps) (simp add: Let_def k_def)
    ultimately show ?thesis using k by simp
  qed
qed

lemma fgets_one_line: "10 \<notin> set l \<Longrightarrow> length l < n \<Longrightarrow> fgets_lines n (l @ [10]) = [l @ [10]]"
proof -
  assume a: "10 \<notin> set l" "length l < n"
  then have "takeWhile (\<lambda>c. c \<noteq> 10) (l @ [10]) = l" by (induction l arbitrary: n) auto
  then show ?thesis using a(2) by (subst fgets_lines.simps) (auto simp: Let_def min_def)
qed

section \<open>Numbers\<close>

lemma dec_digits: "\<forall>c \<in> set (dec n). is_digit c"
proof (induction n rule: dec.induct)
  case (1 n)
  have "is_digit (word_of_nat (48 + m))" if "m < 10" for m
    using that by (simp add: is_digit_def word_le_nat_alt unat_of_nat del: of_nat_add)
  then show ?case using 1 by (subst dec.simps) auto
qed

lemma dec_not_Nil: "dec n \<noteq> []"
  by (subst dec.simps) simp

lemma dec_value_dec: "dec_value (dec n) = n"
proof (induction n rule: dec.induct)
  case (1 n)
  have d: "unat (word_of_nat (48 + m) :: byte) = 48 + m" if "m < 10" for m using that by (simp add: unat_of_nat del: of_nat_add)
  show ?case using 1 d [of n] d [of "n mod 10"] by (subst dec.simps) (auto simp: dec_value_def simp del: of_nat_add)
qed

lemma takeWhile_stop: "\<forall>c \<in> set w. P c \<Longrightarrow> \<not> P s \<Longrightarrow> takeWhile P (w @ s # r) = w"
  by (induction w) auto

lemma dropWhile_none: "w \<noteq> [] \<Longrightarrow> \<not> P (hd w) \<Longrightarrow> dropWhile P (w @ r) = w @ r"
  by (cases w) auto

lemma scan_word_next:
  assumes w: "w \<noteq> []" "length w \<le> n" "\<forall>c \<in> set w. \<not> is_space c" and s: "is_space s"
  shows "scan_word n (w @ s # r) = Some (w, s # r)" and "is_space t \<Longrightarrow> scan_word n (t # w @ s # r) = Some (w, s # r)"
proof -
  have "\<not> is_space (hd w)" using w by auto
  then have d: "dropWhile is_space (w @ s # r) = w @ s # r" using w(1) by (intro dropWhile_none)
  have t: "takeWhile (\<lambda>c. \<not> is_space c) (w @ s # r) = w" using w(3) s by (intro takeWhile_stop) auto
  have n: "take n w = w" using w(2) by simp
  show one: "scan_word n (w @ s # r) = Some (w, s # r)" using w(1) unfolding scan_word_def d Let_def t n by simp
  show "scan_word n (t # w @ s # r) = Some (w, s # r)" if "is_space t"
    using one that by (simp add: scan_word_def d)
qed

lemma digit_char: "is_digit c \<Longrightarrow> \<not> is_space c \<and> c \<noteq> 43 \<and> c \<noteq> 45 \<and> c \<noteq> 10 \<and> c \<noteq> 0"
  by (auto simp: is_digit_def is_space_def word_le_nat_alt)

lemma space_chars: "\<not> is_space c \<Longrightarrow> c \<noteq> 10 \<and> c \<noteq> 13 \<and> c \<noteq> 32"
  by (auto simp: is_space_def)

lemma strtoul_dec:
  assumes "n < 2 ^ 64" "is_space s" "\<not> is_digit t"
  shows "strtoul (s # dec n @ t # r) = Some (word_of_nat n, t # r)"
proof -
  have h: "is_digit (hd (dec n))" using dec_digits [of n] dec_not_Nil [of n] by auto
  have d: "dropWhile is_space (s # dec n @ t # r) = dec n @ t # r"
    using assms(2) digit_char [OF h] dec_not_Nil [of n] by (simp add: dropWhile_none)
  have t: "takeWhile is_digit (dec n @ t # r) = dec n" using dec_digits assms(3) by (intro takeWhile_stop) auto
  have "hd (dec n @ t # r) = hd (dec n)" using dec_not_Nil [of n] by simp
  then have u: "(if dec n @ t # r \<noteq> [] \<and> (hd (dec n @ t # r) = 43 \<or> hd (dec n @ t # r) = 45) then tl (dec n @ t # r)
      else dec n @ t # r) = dec n @ t # r" and m: "\<not> (dec n @ t # r \<noteq> [] \<and> hd (dec n @ t # r) = 45)"
    using digit_char [OF h] by simp_all
  show ?thesis unfolding strtoul_def Let_def d u t using assms(1) m dec_not_Nil [of n] by (simp add: dec_value_dec not_le)
qed

lemma length_dec: "n < 10 ^ Suc k \<Longrightarrow> length (dec n) \<le> Suc k"
proof (induction n arbitrary: k rule: dec.induct)
  case (1 n)
  show ?case
  proof (cases "n < 10")
    case False
    then obtain k' where k: "k = Suc k'" using 1(2) by (cases k) auto
    then have "n div 10 < 10 ^ Suc k'" using 1(2) by simp
    then show ?thesis using 1(1) [of k'] False k by (subst dec.simps) simp
  qed (subst dec.simps, simp)
qed

section \<open>Remembered keys\<close>

lemma hex_chars: "list_all (\<lambda>n. \<not> is_space (hex_digit (word_of_nat n)) \<and> hex_digit (word_of_nat n) \<noteq> 10 \<and>
    hex_digit (word_of_nat n) \<noteq> 0) [0..<16]"
  by code_simp

lemma hex_text: "\<forall>c \<in> set (hex_of d). \<not> is_space c \<and> c \<noteq> 10 \<and> c \<noteq> 0"
proof -
  have "\<not> is_space (hex_digit (v AND 0x0F)) \<and> hex_digit (v AND 0x0F) \<noteq> 10 \<and> hex_digit (v AND 0x0F) \<noteq> 0" for v
  proof -
    have "unat (v AND 0x0F) < 16" using word_and_le1 [of v 15] by (simp add: word_le_nat_alt)
    then show ?thesis using hex_chars by (auto simp: list_all_iff dest!: bspec [of _ _ "unat (v AND 0x0F)"])
  qed
  then show ?thesis by (auto simp: hex_of_def)
qed

definition plain_host :: "bytes \<Rightarrow> bool" where
  "plain_host hst \<longleftrightarrow> hst \<noteq> [] \<and> length hst \<le> 255 \<and> hd hst \<noteq> 35 \<and> (\<forall>c \<in> set hst. \<not> is_space c \<and> c \<noteq> 0)"

lemma ucast_port: "(ucast (ucast (p :: u16) :: u64) :: u32) = ucast p"
  by transfer (simp add: take_bit_take_bit)

lemma ucast_port_inj: "(ucast (p :: u16) :: u32) = ucast q \<Longrightarrow> p = q"
  by transfer (simp add: take_bit_take_bit)

lemma host_line_read:
  assumes "plain_host hst" "length d = 32"
  shows "lookup_lines hst' prt' (fgets_lines 1399 (host_line hst prt (hex_of d))) =
    (if hst' = hst \<and> prt' = prt then Some (hex_of d) else None)"
proof -
  let ?l = "hst @ [32] @ dec (unat prt) @ [32] @ hex_of d"
  have line: "host_line hst prt (hex_of d) = ?l @ [10]" by (simp add: host_line_def)
  have chars: "\<forall>c \<in> set hst. c \<noteq> 10" using assms(1) by (auto simp: plain_host_def is_space_def)
  have "unat prt < 10 ^ Suc 4" using unsigned_less [of prt, where 'a = nat] by simp
  then have "length (dec (unat prt)) \<le> 5" using length_dec [of "unat prt" 4] by simp
  then have "length ?l < 1399" using assms by (simp add: plain_host_def)
  moreover have "10 \<notin> set ?l" using chars hex_text [of d] dec_digits [of "unat prt"] digit_char by auto
  ultimately have one: "fgets_lines 1399 (?l @ [10]) = [?l @ [10]]" by (intro fgets_one_line)
  have c: "cstr (?l @ [10]) = ?l @ [10]"
    using assms(1) hex_text [of d] dec_digits [of "unat prt"] digit_char
    unfolding cstr_def by (auto simp: takeWhile_eq_all_conv plain_host_def)
  have w1: "scan_word 255 (?l @ [10]) = Some (hst, 32 # dec (unat prt) @ 32 # hex_of d @ [10])"
    using scan_word_next(1) [of hst 255 32] assms(1) by (simp add: plain_host_def is_space_def)
  have u: "scan_uint (32 # dec (unat prt) @ 32 # hex_of d @ [10]) = Some (ucast prt, 32 # hex_of d @ [10])"
    using strtoul_dec [of "unat prt" 32 32 "hex_of d @ [10]"] \<open>unat prt < 10 ^ Suc 4\<close>
    by (simp add: scan_uint_def is_space_def is_digit_def ucast_port)
  have w2: "scan_word 64 (32 # hex_of d @ [10]) = Some (hex_of d, [10])"
  proof (rule scan_word_next(2))
    show "hex_of d \<noteq> []" using assms(2) length_hex_of [of d] by force
  qed (use assms(2) hex_text [of d] in \<open>auto simp: is_space_def\<close>)
  have k: "known_host_line (?l @ [10]) = Some (hst, ucast prt, hex_of d)" by (simp add: known_host_line_def w1 [simplified] u w2)
  have "\<not> is_space (hd hst)" "hst \<noteq> []" using assms(1) hd_in_set [of hst] by (auto simp: plain_host_def)
  then have "hd hst \<noteq> 35 \<and> hd hst \<noteq> 10 \<and> hd hst \<noteq> 13" "hst \<noteq> []"
    using assms(1) space_chars [of "hd hst"] by (simp_all add: plain_host_def)
  moreover have "(ucast prt :: u32) = ucast prt' \<longleftrightarrow> prt = prt'" by (metis ucast_port_inj)
  ultimately show ?thesis unfolding line using one c k by (simp del: append_assoc)
qed

lemma lookup_lines_append:
  "lookup_lines hst prt (a @ b) = (case lookup_lines hst prt a of None \<Rightarrow> lookup_lines hst prt b | Some x \<Rightarrow> Some x)"
  by (induction a) (auto split: option.splits)

lemma bytes_to_hex_32: "length d = 32 \<Longrightarrow> noxssh_bytes_to_hex d 65 = Some (hex_of d)"
  by (simp add: noxssh_bytes_to_hex_def hex_of_def u32len_def)

lemma hex_of_inj: "hex_of d = hex_of e \<longleftrightarrow> d = e"
  by (metis hex_pairs_of option.inject)

definition file_lines_whole :: "bytes option \<Rightarrow> bool" where
  "file_lines_whole c \<longleftrightarrow> (case c of None \<Rightarrow> True | Some s \<Rightarrow> s = [] \<or> last s = 10)"

lemma lookup_after_append:
  assumes "plain_host hst" "length d = 32" "file_lines_whole c"
  shows "noxssh_lookup_known_host (Some ((case c of None \<Rightarrow> [] | Some s \<Rightarrow> s) @ host_line hst prt (hex_of d))) hst' prt' =
    (case noxssh_lookup_known_host c hst' prt' of
       Some x \<Rightarrow> Some x | None \<Rightarrow> if hst' = hst \<and> prt' = prt then Some (hex_of d) else None)"
  using assms fgets_lines_append [of "case c of None \<Rightarrow> [] | Some s \<Rightarrow> s" 1399]
  by (auto simp: noxssh_lookup_known_host_def file_lines_whole_def lookup_lines_append host_line_read split: option.splits)

text \<open>A host that is not plain is never found again.\<close>

lemma scanned_word: "scan_word n s = Some (w, r) \<Longrightarrow> w \<noteq> [] \<and> length w \<le> n \<and> (\<forall>c \<in> set w. \<not> is_space c) \<and> set w \<subseteq> set s"
  by (auto simp: scan_word_def Let_def split: if_splits dest!: in_set_takeD set_takeWhileD set_dropWhileD)

lemma lookup_finds_words:
  assumes "lookup_lines hst prt ls = Some x"
  shows "hst \<noteq> [] \<and> length hst \<le> 255 \<and> (\<forall>c \<in> set hst. \<not> is_space c \<and> c \<noteq> 0)"
proof -
  have word: "known_host_line (cstr l) = Some (h, q) \<Longrightarrow> h \<noteq> [] \<and> length h \<le> 255 \<and> (\<forall>c \<in> set h. \<not> is_space c \<and> c \<noteq> 0)" for l h q
    unfolding known_host_line_def cstr_def
    by (auto simp: bind_eq_Some_conv dest!: scanned_word set_takeWhileD dest: subsetD)
  show ?thesis
    using assms by (induction ls) (auto split: if_splits option.splits dest!: word)
qed

lemma comment_line_read:
  assumes "hst \<noteq> []" "hd hst = 35" "\<forall>c \<in> set hst. \<not> is_space c" "length hst \<le> 255" "length d = 32"
  shows "lookup_lines hst' prt' (fgets_lines 1399 (host_line hst prt (hex_of d))) = None"
proof -
  let ?l = "hst @ [32] @ dec (unat prt) @ [32] @ hex_of d"
  have "unat prt < 10 ^ Suc 4" using unsigned_less [of prt, where 'a = nat] by simp
  then have "length ?l < 1399" using length_dec [of "unat prt" 4] assms by simp
  moreover have chars: "\<forall>c \<in> set hst. c \<noteq> 10" using assms(3) by (auto simp: is_space_def)
  have "10 \<notin> set ?l" using chars hex_text [of d] dec_digits [of "unat prt"] digit_char by auto
  ultimately have "fgets_lines 1399 (?l @ [10]) = [?l @ [10]]" by (intro fgets_one_line)
  then show ?thesis using assms(1,2) by (simp add: host_line_def)
qed

lemma other_host_line_read:
  assumes "\<not> plain_host hst" "length d = 32"
  shows "lookup_lines hst prt' (fgets_lines 1399 (host_line hst prt (hex_of d))) = None"
proof (cases "hst \<noteq> [] \<and> length hst \<le> 255 \<and> (\<forall>c \<in> set hst. \<not> is_space c \<and> c \<noteq> 0)")
  case True
  then show ?thesis using assms comment_line_read by (auto simp: plain_host_def)
next
  case False
  then show ?thesis using lookup_finds_words by (metis not_Some_eq)
qed

lemma lookup_after_other:
  assumes "\<not> plain_host hst" "length d = 32" "file_lines_whole c" "noxssh_lookup_known_host c hst prt = None"
  shows "noxssh_lookup_known_host (Some ((case c of None \<Rightarrow> [] | Some s \<Rightarrow> s) @ host_line hst prt (hex_of d))) hst prt = None"
  using assms fgets_lines_append [of "case c of None \<Rightarrow> [] | Some s \<Rightarrow> s" 1399] other_host_line_read
  by (auto simp: noxssh_lookup_known_host_def file_lines_whole_def lookup_lines_append split: option.splits)

text \<open>What the decision adds to the file of known hosts: nothing, or one line for the host and the key.\<close>

lemma after_answer_same [simp]:
  "files (after_answer env) = files env" "read_ok (after_answer env) = read_ok env"
  "append_room (after_answer env) = append_room env" "home_env (after_answer env) = home_env env"
  by (simp_all add: after_answer_def split: option.split prod.split)

lemma known_hosts_path_same: "home_env e = home_env env \<Longrightarrow> known_hosts_path e ovr = known_hosts_path env ovr"
  by (simp add: known_hosts_path_def)

lemma append_saves:
  assumes "noxssh_append_known_host path hst prt hex env = (True, env')"
  shows "env' = env\<lparr>files := (files env)(path \<mapsto>
    (case files env path of None \<Rightarrow> [] | Some s \<Rightarrow> s) @ take (append_room env path) (host_line hst prt hex))\<rparr>"
  using assms by (auto simp: noxssh_append_known_host_def split: if_splits)

lemma first_use_saves:
  assumes "known_hosts_path env ovr = Some path" "noxssh_lookup_known_host (fopen_read env path) hst prt = None"
    "mode \<noteq> CHECK_NO" "noxssh_verify_host_key hst prt fp mode [] batch ovr env = (True, env')"
  shows "length fp = 32" "mode = CHECK_ACCEPT_NEW \<or> mode = CHECK_ASK \<and> \<not> batch \<and> answered_yes env"
    "noxssh_append_known_host path hst prt (hex_of fp) (if mode = CHECK_ASK then after_answer env else env) = (True, env')"
  using assms by (cases mode; auto simp: noxssh_verify_host_key_def bytes_to_hex_32 split: if_splits option.splits)+

lemma known_key_decides:
  assumes "known_hosts_path env ovr = Some path" "noxssh_lookup_known_host (fopen_read env path) hst prt = Some (hex_of fp)"
  shows "noxssh_verify_host_key hst prt fp' mode [] batch ovr env =
    (length fp' = 32 \<and> (fp' = fp \<or> mode = CHECK_NO), env)"
  using assms by (auto simp: noxssh_verify_host_key_def bytes_to_hex_32 hex_of_inj)

text \<open>Without a newline at the end of the file, or where only a part of the line arrives, the host is not found again, and the
  line that was there is spoilt.\<close>

lemma dec_22: "dec 22 = [50, 50]"
  by (simp add: dec.simps)

lemmas read_line_defs = noxssh_lookup_known_host_def host_line_def dec_22 fgets_lines.simps known_host_line_def scan_word_def
  scan_uint_def strtoul_def is_space_def is_digit_def dec_value_def cstr_def ascii_def word_le_nat_alt

lemma unfinished_line_merges:
  "noxssh_lookup_known_host (Some (ascii ''a 22 k'' @ host_line (ascii ''h'') 22 (ascii ''x''))) (ascii ''a'') 22 = Some (ascii ''kh'')"
  "noxssh_lookup_known_host (Some (ascii ''a 22 k'' @ host_line (ascii ''h'') 22 (ascii ''x''))) (ascii ''h'') 22 = None"
  by (simp_all add: read_line_defs Let_def)

lemma short_write_loses:
  "noxssh_lookup_known_host (Some (take 4 (host_line (ascii ''h'') 22 (ascii ''x'')))) (ascii ''h'') 22 = None"
  by (simp add: read_line_defs Let_def)

section \<open>Properties\<close>

text \<open>C12: Trust on first use. Where a key of a host that the file of known hosts does not list is accepted, the pin being
  empty and the mode not \<open>no\<close>, then the mode is \<open>accept-new\<close>, or it is \<open>ask\<close>, the program is not in batch mode and the
  user's answer is \<open>yes\<close>; and the line of the host, the port and the fingerprint is added to the end of the file, or as
  much of it as the system takes. Under three conditions (the whole line was taken, the file can be read, and what it had
  before ends with a newline) the file then lists the host with this key exactly if the host is plain: not empty, at most
  255 bytes, without white space and not starting with a hash sign. From then on a plain host is trusted with that
  key in every mode, and with no other key in a mode other than \<open>no\<close>, without a question and without
  another change, and what the file says of other hosts and ports is as before.\<close>

theorem first_use_pins_key:
  assumes "known_hosts_path env ovr = Some path" "noxssh_lookup_known_host (fopen_read env path) hst prt = None"
    "mode \<noteq> CHECK_NO" "noxssh_verify_host_key hst prt fp mode [] batch ovr env = (True, env')"
  shows "(mode = CHECK_ACCEPT_NEW \<or> mode = CHECK_ASK \<and> \<not> batch \<and> answered_yes env) \<and>
    files env' = (files env)(path \<mapsto> (case files env path of None \<Rightarrow> [] | Some s \<Rightarrow> s) @
      take (append_room env path) (host_line hst prt (hex_of fp))) \<and>
    (length (host_line hst prt (hex_of fp)) \<le> append_room env path \<and> read_ok env path \<and> file_lines_whole (files env path) \<longrightarrow>
      noxssh_lookup_known_host (fopen_read env' path) hst prt = (if plain_host hst then Some (hex_of fp) else None) \<and>
      (plain_host hst \<longrightarrow>
        noxssh_verify_host_key hst prt fp mode' [] batch' ovr env' = (True, env') \<and>
        (fp' \<noteq> fp \<and> mode' \<noteq> CHECK_NO \<longrightarrow> noxssh_verify_host_key hst prt fp' mode' [] batch' ovr env' = (False, env')) \<and>
        ((hst', prt') \<noteq> (hst, prt) \<longrightarrow>
          noxssh_lookup_known_host (fopen_read env' path) hst' prt' = noxssh_lookup_known_host (fopen_read env path) hst' prt')))"
proof -
  note saved = first_use_saves [OF assms]
  note env' = append_saves [OF saved(3)]
  have f: "files env' = (files env)(path \<mapsto> (case files env path of None \<Rightarrow> [] | Some s \<Rightarrow> s) @
      take (append_room env path) (host_line hst prt (hex_of fp)))"
    unfolding env' by simp
  have p: "known_hosts_path env' ovr = Some path"
    using assms(1) known_hosts_path_same [of env' env ovr] by (simp add: env')
  have r: "fopen_read env' path = Some ((case fopen_read env path of None \<Rightarrow> [] | Some s \<Rightarrow> s) @ host_line hst prt (hex_of fp))"
    if "length (host_line hst prt (hex_of fp)) \<le> append_room env path" "read_ok env path"
    using that by (simp add: fopen_read_def f, simp add: env')
  have plain: "noxssh_lookup_known_host (fopen_read env' path) a b =
      (case noxssh_lookup_known_host (fopen_read env path) a b of
         Some x \<Rightarrow> Some x | None \<Rightarrow> if a = hst \<and> b = prt then Some (hex_of fp) else None)"
    if "length (host_line hst prt (hex_of fp)) \<le> append_room env path" "read_ok env path" "file_lines_whole (files env path)"
      "plain_host hst" for a b
    using lookup_after_append [OF that(4) saved(1), of "fopen_read env path" prt a b] r [OF that(1,2)] that(2,3)
    by (simp add: fopen_read_def)
  have other: "noxssh_lookup_known_host (fopen_read env' path) hst prt = None"
    if "length (host_line hst prt (hex_of fp)) \<le> append_room env path" "read_ok env path" "file_lines_whole (files env path)"
      "\<not> plain_host hst"
    using lookup_after_other [OF that(4) saved(1) _ assms(2)] r [OF that(1,2)] that(2,3) by (simp add: fopen_read_def)
  show ?thesis
    using saved(2) f plain other assms(2) known_key_decides [OF p]
    by (auto simp: saved(1) split: option.split)
qed

definition sample_hosts :: host_env where
  "sample_hosts = \<lparr>home_env = Some (ascii ''/home/u''), files = (\<lambda>p. None), read_ok = (\<lambda>p. True), mkdir_ok = (\<lambda>p. True),
     append_ok = (\<lambda>p. True), append_room = (\<lambda>p. 4096), stdin_left = ascii ''yes'' @ [10]\<rparr>"

theorem first_use_pins_key_witness:
  "(let env' = snd (noxssh_verify_host_key (ascii ''h'') 22 (replicate 32 1) CHECK_ASK [] False [] sample_hosts)
    in fst (noxssh_verify_host_key (ascii ''h'') 22 (replicate 32 1) CHECK_YES [] True [] env') \<and>
      \<not> fst (noxssh_verify_host_key (ascii ''h'') 22 (replicate 32 2) CHECK_ASK [] False [] env'))"
proof -
  define env' where "env' = snd (noxssh_verify_host_key (ascii ''h'') 22 (replicate 32 1) CHECK_ASK [] False [] sample_hosts)"
  have a: "known_hosts_path sample_hosts [] = Some (ascii ''/home/u/.noxssh/known_hosts'')" by code_simp
  have y: "answered_yes sample_hosts" by code_simp
  have b: "noxssh_verify_host_key (ascii ''h'') 22 (replicate 32 1) CHECK_ASK [] False [] sample_hosts = (True, env')"
    using a y by (simp add: env'_def noxssh_verify_host_key_def bytes_to_hex_32 noxssh_lookup_known_host_def fopen_read_def
      noxssh_append_known_host_def noxssh_ensure_known_hosts_dir_def after_answer_def sample_hosts_def ascii_def
      split: option.split prod.split)
  have c: "plain_host (ascii ''h'')" by code_simp
  have n: "noxssh_lookup_known_host (fopen_read sample_hosts p) h q = None" for p h q
    by (simp add: fopen_read_def noxssh_lookup_known_host_def sample_hosts_def)
  have f: "length (host_line (ascii ''h'') 22 (hex_of (replicate 32 1))) \<le> append_room sample_hosts p" "read_ok sample_hosts p"
    "file_lines_whole (files sample_hosts p)" for p
    by (code_simp, simp_all add: sample_hosts_def file_lines_whole_def)
  note t = first_use_pins_key [OF a n hostkey_check.distinct(3) b]
  show ?thesis
    using t [where mode' = CHECK_YES and batch' = True] t [where mode' = CHECK_ASK and batch' = False and fp' = "replicate 32 2"] c f
    unfolding env'_def [symmetric] Let_def by simp
qed

end
