(* ===== verification/Nox_Account.thy ===== *)
theory Nox_Account
  imports Nox_Server Nox_Hosts
begin

text \<open>
  Who may log in (\<open>server/auth_posix.c\<close>): the account, the permissions of its directories and of its file of authorized
  keys, and the lines of that file; and the line with the host's public key that the daemon prints
  (\<open>server/main.c\<close>). Of the system, the account database and the files are parameters.
\<close>

section \<open>Definitions\<close>

subsection \<open>Base64 of a key blob\<close>

definition b64val :: "byte \<Rightarrow> u32 option" where
  "b64val c =
     (if c \<ge> 65 \<and> c \<le> 90 then Some (ucast c - 65)
      else if c \<ge> 97 \<and> c \<le> 122 then Some (ucast c - 97 + 26)
      else if c \<ge> 48 \<and> c \<le> 57 then Some (ucast c - 48 + 52)
      else if c = 43 then Some 62
      else if c = 47 then Some 63
      else None)"

definition blob_prefix :: bytes where
  "blob_prefix = [0, 0, 0, 11] @ ascii ''ssh-ed25519'' @ [0, 0, 0, 32]"

text \<open>Four characters, 24 bits, three bytes.\<close>

definition pack6 :: "u32 \<Rightarrow> u32 \<Rightarrow> u32 \<Rightarrow> u32 \<Rightarrow> u32" where
  "pack6 a b c d = push_bit 18 a OR push_bit 12 b OR push_bit 6 c OR d"

definition pack8 :: "byte \<Rightarrow> byte \<Rightarrow> byte \<Rightarrow> u32" where
  "pack8 a b c = push_bit 16 (ucast a) OR push_bit 8 (ucast b) OR ucast c"

definition octets_of :: "u32 \<Rightarrow> bytes" where
  "octets_of x = [ucast (drop_bit 16 x), ucast (drop_bit 8 x), ucast x]"

definition sextets_of :: "u32 \<Rightarrow> u32 list" where
  "sextets_of x = [drop_bit 18 x AND 63, drop_bit 12 x AND 63, drop_bit 6 x AND 63, x AND 63]"

fun decode_groups :: "bytes \<Rightarrow> bytes option" where
  "decode_groups (s0 # s1 # s2 # s3 # r) =
     (case (b64val s0, b64val s1, b64val s2, b64val s3) of
        (Some a, Some b, Some c, Some d) \<Rightarrow> map_option (\<lambda>t. octets_of (pack6 a b c d) @ t) (decode_groups r)
      | _ \<Rightarrow> None)"
| "decode_groups r = Some []"

definition decode_blob :: "bytes \<Rightarrow> bytes option" where
  "decode_blob src =
     (if length src \<noteq> 68 then None
      else case decode_groups src of
          None \<Rightarrow> None
        | Some out \<Rightarrow> if length out = 51 \<and> take 19 out = blob_prefix then Some out else None)"

fun encode_groups :: "bytes \<Rightarrow> bytes" where
  "encode_groups (a # b # c # r) = map (\<lambda>v. b64_alphabet ! unat v) (sextets_of (pack8 a b c)) @ encode_groups r"
| "encode_groups r = []"

definition print_host_public_key :: "noxtls \<Rightarrow> bytes \<Rightarrow> bytes option" where
  "print_host_public_key C seed =
     (case noxtls_ed25519_public_key C seed of
        None \<Rightarrow> None
      | Some pk \<Rightarrow> Some (ascii ''ssh-ed25519 '' @ encode_groups (blob_prefix @ pk) @ ascii '' noxsshd-host'' @ [10]))"

subsection \<open>Authorized keys\<close>

definition is_blank :: "byte \<Rightarrow> bool" where
  "is_blank c \<longleftrightarrow> c = 32 \<or> c = 9"

definition ends_word :: "byte \<Rightarrow> bool" where
  "ends_word c \<longleftrightarrow> c = 32 \<or> c = 9 \<or> c = 13 \<or> c = 10"

text \<open>The key of a line, as \<open>fgets\<close> delivered it.\<close>

definition line_blob :: "bytes \<Rightarrow> bytes option" where
  "line_blob line =
     (let alg = dropWhile is_blank (cstr line); rest = drop 11 alg; blob = dropWhile is_blank rest
      in if take 11 alg \<noteq> ascii ''ssh-ed25519'' \<or> rest = [] \<or> \<not> is_blank (hd rest) then None
         else decode_blob (takeWhile (\<lambda>c. \<not> ends_word c) blob))"

fun authorized_lines :: "bytes option \<Rightarrow> bytes list \<Rightarrow> bool" where
  "authorized_lines key [] = False"
| "authorized_lines key (l # ls) =
     (case line_blob l of
        None \<Rightarrow> authorized_lines key ls
      | Some decoded \<Rightarrow>
          if key = None \<or> take 32 (drop 19 decoded) = take 32 (the key) then True else authorized_lines key ls)"

fun strstr :: "bytes \<Rightarrow> bytes \<Rightarrow> bool" where
  "strstr [] needle \<longleftrightarrow> needle = []"
| "strstr (c # h) needle \<longleftrightarrow> take (length needle) (c # h) = needle \<or> strstr h needle"

record stat_t =
  st_isdir :: bool
  st_isreg :: bool
  st_mode :: u32
  st_uid :: u32
  st_size :: int

text \<open>
  The system: \<open>getpwnam_r\<close>, \<open>stat\<close>, \<open>lstat\<close>, and what \<open>open\<close> without following a link yields: the answer of \<open>fstat\<close>, and the
  content that can be read after \<open>fdopen\<close>.
\<close>

record posix =
  getpwnam :: "bytes \<Rightarrow> passwd_entry option"
  stat_path :: "bytes \<Rightarrow> stat_t option"
  lstat_path :: "bytes \<Rightarrow> stat_t option"
  open_nofollow :: "bytes \<Rightarrow> (stat_t option \<times> bytes option) option"

definition kept_safe :: "u32 \<Rightarrow> stat_t \<Rightarrow> bool" where
  "kept_safe uid st \<longleftrightarrow> st_mode st AND 18 = 0 \<and> (st_uid st = uid \<or> st_uid st = 0)"

definition safe_dir :: "u32 \<Rightarrow> stat_t option \<Rightarrow> bool" where
  "safe_dir uid r = (case r of None \<Rightarrow> False | Some st \<Rightarrow> st_isdir st \<and> kept_safe uid st)"

definition login_account :: "posix \<Rightarrow> bytes \<Rightarrow> passwd_entry option" where
  "login_account P user =
     (if user = [] \<or> 47 \<in> set user \<or> 92 \<in> set user then None
      else case getpwnam P user of
          None \<Rightarrow> None
        | Some pw \<Rightarrow>
            if pw_dir pw = [] \<or> pw_shell pw = [] \<or> strstr (pw_shell pw) (ascii ''nologin'') \<or>
              strstr (pw_shell pw) (ascii ''false'')
            then None else Some pw)"

definition authorized_user_key :: "posix \<Rightarrow> bytes \<Rightarrow> bytes option \<Rightarrow> bool" where
  "authorized_user_key P user key =
     (case login_account P user of
        None \<Rightarrow> False
      | Some pw \<Rightarrow>
          if length (pw_dir pw) + 22 > 4096 then False
          else if \<not> safe_dir (pw_uid pw) (stat_path P (pw_dir pw)) then False
          else if \<not> safe_dir (pw_uid pw) (lstat_path P (pw_dir pw @ ascii ''/.ssh'')) then False
          else case open_nofollow P (pw_dir pw @ ascii ''/.ssh/authorized_keys'') of
            Some (Some st, Some content) \<Rightarrow>
              if \<not> st_isreg st \<or> \<not> kept_safe (pw_uid pw) st \<or> st_size st > 65536 then False
              else authorized_lines key (fgets_lines 8191 content)
          | _ \<Rightarrow> False)"

definition noxsshd_authorized_ed25519 :: "posix \<Rightarrow> bytes \<Rightarrow> bytes \<Rightarrow> bool" where
  "noxsshd_authorized_ed25519 P user key = authorized_user_key P user (Some key)"

definition noxsshd_authorized_user_ready :: "posix \<Rightarrow> bytes \<Rightarrow> bool" where
  "noxsshd_authorized_user_ready P user = authorized_user_key P user None"

section \<open>The encoding\<close>

lemma masks32: "(63 :: u32) = mask 6"
  by (simp add: mask_eq_exp_minus_1)

lemma b64val_alphabet: "list_all (\<lambda>n. b64val (b64_alphabet ! n) = Some (word_of_nat n)) [0..<64]"
  by code_simp

lemma alphabet_ranges:
  "list_all (\<lambda>n. b64_alphabet ! n = word_of_nat (65 + n)) [0..<26]"
  "list_all (\<lambda>n. b64_alphabet ! (26 + n) = word_of_nat (97 + n)) [0..<26]"
  "list_all (\<lambda>n. b64_alphabet ! (52 + n) = word_of_nat (48 + n)) [0..<10]"
  "b64_alphabet ! 62 = 43" "b64_alphabet ! 63 = 47"
  by code_simp+

lemma unat_shift: "lo \<le> c \<Longrightarrow> unat (ucast (c :: byte) - ucast lo :: u32) = unat c - unat lo"
proof -
  have u: "unat (ucast b :: u32) = unat b" for b :: byte by transfer (simp add: take_bit_eq_mod)
  assume "lo \<le> c"
  then show ?thesis by (subst unat_sub) (simp_all add: word_le_nat_alt u)
qed

lemma unat_plus_small: "unat u < 64 \<Longrightarrow> unat k < 64 \<Longrightarrow> unat (u + k :: u32) = unat u + unat k"
  by (simp add: unat_word_ariths)

lemma b64val_Some:
  assumes "b64val c = Some v"
  shows "unat v < 64 \<and> b64_alphabet ! unat v = c"
proof -
  consider (upper) "65 \<le> c" "c \<le> 90" "v = ucast c - ucast (65 :: byte)"
    | (lower) "97 \<le> c" "c \<le> 122" "v = ucast c - ucast (97 :: byte) + 26"
    | (digit) "48 \<le> c" "c \<le> 57" "v = ucast c - ucast (48 :: byte) + 52"
    | (other) "c = 43 \<and> v = 62 \<or> c = 47 \<and> v = 63"
    using assms by (auto simp: b64val_def split: if_splits)
  then show ?thesis
  proof cases
    case upper
    have v: "unat v = unat c - 65" using unat_shift [OF upper(1)] upper(3) by simp
    then have "b64_alphabet ! unat v = word_of_nat (65 + (unat c - 65))"
      using alphabet_ranges(1) upper by (simp add: list_all_iff word_le_nat_alt)
    then show ?thesis using v upper by (simp add: word_le_nat_alt)
  next
    case lower
    have v: "unat v = 26 + (unat c - 97)"
      using unat_shift [OF lower(1)] lower unat_plus_small [of "ucast c - ucast (97 :: byte)" 26]
      by (simp add: word_le_nat_alt del: ucast_bintr)
    have "unat c - 97 \<in> set [0..<26]" using lower by (auto simp: word_le_nat_alt)
    then have "b64_alphabet ! unat v = word_of_nat (97 + (unat c - 97))"
      using alphabet_ranges(2) unfolding v list_all_iff by (rule bspec [rotated])
    then show ?thesis using v lower by (simp add: word_le_nat_alt)
  next
    case digit
    have v: "unat v = 52 + (unat c - 48)"
      using unat_shift [OF digit(1)] digit unat_plus_small [of "ucast c - ucast (48 :: byte)" 52]
      by (simp add: word_le_nat_alt del: ucast_bintr)
    have "unat c - 48 \<in> set [0..<10]" using digit by (auto simp: word_le_nat_alt)
    then have "b64_alphabet ! unat v = word_of_nat (48 + (unat c - 48))"
      using alphabet_ranges(3) unfolding v list_all_iff by (rule bspec [rotated])
    then show ?thesis using v digit by (simp add: word_le_nat_alt)
  qed (use alphabet_ranges(4,5) in auto)
qed

lemma b64val_char: "v < 64 \<Longrightarrow> b64val (b64_alphabet ! unat v) = Some v"
  using b64val_alphabet by (auto simp: list_all_iff word_less_nat_alt dest!: bspec [of _ _ "unat v"])

lemma sextets_less: "v \<in> set (sextets_of x) \<Longrightarrow> v < 64"
proof -
  have "w AND 63 < (64 :: u32)" for w using word_and_le1 [of w 63] by (simp add: word_le_nat_alt word_less_nat_alt)
  then show "v \<in> set (sextets_of x) \<Longrightarrow> v < 64" by (auto simp: sextets_of_def)
qed

lemma less_bits: "(v :: u32) < 2 ^ k \<Longrightarrow> bit v n \<Longrightarrow> n < k"
  by (metis bit_take_bit_iff less_mask_eq take_bit_eq_mask)

lemma byte_bits: "bit (b :: byte) n \<Longrightarrow> n < 8"
  using bit_imp_le_length [of b n] by simp

lemma pack8_bits: "bit (pack8 a b c) n \<Longrightarrow> n < 24"
  by (auto simp: pack8_def bit_simps dest!: byte_bits)

lemma octets_of_pack8: "octets_of (pack8 a b c) = [a, b, c]"
  by (auto simp: octets_of_def pack8_def bit_simps intro!: bit_eqI)

lemma pack6_sextets:
  assumes x: "\<And>n. bit x n \<Longrightarrow> n < 24"
  shows "pack6 (drop_bit 18 x AND 63) (drop_bit 12 x AND 63) (drop_bit 6 x AND 63) (x AND 63) = x"
proof (rule bit_word_eqI)
  fix n
  show "bit (pack6 (drop_bit 18 x AND 63) (drop_bit 12 x AND 63) (drop_bit 6 x AND 63) (x AND 63)) n = bit x n"
    unfolding pack6_def masks32
    by (cases "n < 6"; cases "n < 12"; cases "n < 18") (auto simp: bit_simps dest: x)
qed

lemma pack6_bits: "a < 64 \<Longrightarrow> b < 64 \<Longrightarrow> c < 64 \<Longrightarrow> d < 64 \<Longrightarrow> bit (pack6 a b c d) n \<Longrightarrow> n < 24"
  using less_bits [of _ 6] by (fastforce simp: pack6_def bit_simps)

lemma sextets_of_pack6:
  assumes "a < 64" "b < 64" "c < 64" "d < 64"
  shows "sextets_of (pack6 a b c d) = [a, b, c, d]"
proof -
  have m: "v = v AND 63" if "v < 64" for v :: u32 using that unfolding masks32 by (subst less_mask_eq) simp_all
  have "sextets_of (pack6 (a AND 63) (b AND 63) (c AND 63) (d AND 63)) = [a AND 63, b AND 63, c AND 63, d AND 63]"
    unfolding sextets_of_def pack6_def masks32 by (auto simp: bit_simps intro!: bit_word_eqI)
  then show ?thesis using m assms by simp
qed

lemma pack8_octets: "(\<And>n. bit x n \<Longrightarrow> n < 24) \<Longrightarrow> pack8 (ucast (drop_bit 16 x)) (ucast (drop_bit 8 x)) (ucast x) = x"
proof (rule bit_word_eqI)
  fix n
  assume x: "\<And>n. bit x n \<Longrightarrow> n < 24"
  show "bit (pack8 (ucast (drop_bit 16 x)) (ucast (drop_bit 8 x)) (ucast x)) n = bit x n"
    unfolding pack8_def by (cases "n < 8"; cases "n < 16") (auto simp: bit_simps dest: x)
qed

lemma decode_encode_groups: "length d mod 3 = 0 \<Longrightarrow> decode_groups (encode_groups d) = Some d"
proof (induction d rule: encode_groups.induct)
  case (1 a b c r)
  have "length r mod 3 = 0" using 1(2) by (simp add: mod_Suc split: if_splits)
  then show ?case
    using 1(1) sextets_less [of _ "pack8 a b c"] pack6_sextets [of "pack8 a b c", OF pack8_bits]
    by (simp add: sextets_of_def b64val_char octets_of_pack8)
qed auto

lemma encode_decode_groups: "length s mod 4 = 0 \<Longrightarrow> decode_groups s = Some d \<Longrightarrow> s = encode_groups d"
proof (induction s arbitrary: d rule: decode_groups.induct)
  case (1 s0 s1 s2 s3 r)
  obtain a b c e t where v: "b64val s0 = Some a" "b64val s1 = Some b" "b64val s2 = Some c" "b64val s3 = Some e"
    and t: "decode_groups r = Some t" "d = octets_of (pack6 a b c e) @ t"
    using 1(3) by (auto split: option.splits)
  have l: "a < 64" "b < 64" "c < 64" "e < 64" using v [THEN b64val_Some] by (simp_all add: word_less_nat_alt)
  have "length r mod 4 = 0" using 1(2) by (simp add: mod_Suc split: if_splits)
  then have "r = encode_groups t" using 1(1) v t(1) by simp
  moreover have "encode_groups d = map (\<lambda>v. b64_alphabet ! unat v) (sextets_of (pack6 a b c e)) @ encode_groups t"
    using pack8_octets [OF pack6_bits [OF l]] by (simp add: t(2) octets_of_def)
  ultimately show ?case using v [THEN b64val_Some] by (simp add: sextets_of_pack6 [OF l])
qed auto

lemma length_encode_groups: "length d mod 3 = 0 \<Longrightarrow> 3 * length (encode_groups d) = 4 * length d"
  by (induction d rule: encode_groups.induct) (auto simp: sextets_of_def mod_Suc split: if_splits)

text \<open>The text of a key is decoded, and nothing else is decoded to that key.\<close>

lemma decode_blob_iff:
  "decode_blob s = Some out \<longleftrightarrow> (\<exists>k. length k = 32 \<and> out = blob_prefix @ k \<and> s = encode_groups (blob_prefix @ k))"
proof
  assume a: "decode_blob s = Some out"
  then have "length s = 68" "decode_groups s = Some out" "length out = 51" "take 19 out = blob_prefix"
    by (auto simp: decode_blob_def split: if_splits option.splits)
  then show "\<exists>k. length k = 32 \<and> out = blob_prefix @ k \<and> s = encode_groups (blob_prefix @ k)"
    using encode_decode_groups [of s out] append_take_drop_id [of 19 out] by (intro exI [of _ "drop 19 out"]) simp
next
  have p: "length blob_prefix = 19" by code_simp
  assume "\<exists>k. length k = 32 \<and> out = blob_prefix @ k \<and> s = encode_groups (blob_prefix @ k)"
  then show "decode_blob s = Some out"
    using length_encode_groups [of out] decode_encode_groups [of out] p by (auto simp: decode_blob_def)
qed

section \<open>Lines\<close>

text \<open>A line for a key: the algorithm, blanks, the encoded key, and then the end or a separator.\<close>

definition key_line :: "bytes \<Rightarrow> bytes \<Rightarrow> bool" where
  "key_line k l \<longleftrightarrow> (\<exists>w w' r. cstr l = w @ ascii ''ssh-ed25519'' @ w' @ encode_groups (blob_prefix @ k) @ r \<and>
     list_all is_blank w \<and> list_all is_blank w' \<and> w' \<noteq> [] \<and> (r = [] \<or> ends_word (hd r)))"

lemma encoded_chars: "list_all P b64_alphabet \<Longrightarrow> list_all P (encode_groups d)"
proof -
  have len: "length b64_alphabet = 64" by code_simp
  assume "list_all P b64_alphabet"
  then have "P (b64_alphabet ! unat v)" if "v < 64" for v :: u32
    using that len by (simp add: list_all_length word_less_nat_alt)
  then show ?thesis
    by (induction d rule: encode_groups.induct) (auto simp: list_all_iff dest: sextets_less)
qed

lemma encoded_words: "list_all (\<lambda>c. \<not> ends_word c) (encode_groups d)"
  by (rule encoded_chars) code_simp

lemma encoded_nonzero: "list_all (\<lambda>c. c \<noteq> 0) (encode_groups d)"
  by (rule encoded_chars) code_simp

lemma blanks_end: "is_blank c \<Longrightarrow> ends_word c"
  by (auto simp: is_blank_def ends_word_def)

lemma dropWhile_span: "list_all P w \<Longrightarrow> \<not> P c \<Longrightarrow> dropWhile P (w @ c # r) = c # r"
  by (induction w) auto

lemma takeWhile_span: "list_all P w \<Longrightarrow> r = [] \<or> \<not> P (hd r) \<Longrightarrow> takeWhile P (w @ r) = w"
  by (induction w) (cases r; auto)+

lemma blob_prefix_length [simp]: "length blob_prefix = 19"
  by code_simp

lemma key_line_blob: "length k = 32 \<Longrightarrow> key_line k l \<Longrightarrow> line_blob l = Some (blob_prefix @ k)"
proof -
  assume k: "length k = 32" and "key_line k l"
  then obtain w w' r where l: "cstr l = w @ ascii ''ssh-ed25519'' @ w' @ encode_groups (blob_prefix @ k) @ r"
    and w: "list_all is_blank w" "list_all is_blank w'" "w' \<noteq> []" "r = [] \<or> ends_word (hd r)" unfolding key_line_def by blast
  define e where "e = encode_groups (blob_prefix @ k)"
  have e: "list_all (\<lambda>c. \<not> ends_word c) e" "length e = 68"
    using encoded_words length_encode_groups [of "blob_prefix @ k"] k by (simp_all add: e_def)
  then obtain c e' where c: "e = c # e'" "\<not> is_blank c" by (cases e) (auto dest: blanks_end)
  have a: "dropWhile is_blank (cstr l) = ascii ''ssh-ed25519'' @ w' @ e @ r"
    using dropWhile_span [OF w(1), of 115] unfolding l e_def [symmetric] by (simp add: ascii_def is_blank_def)
  have b: "dropWhile is_blank (w' @ e @ r) = e @ r" using dropWhile_span [OF w(2) c(2)] by (simp add: c(1))
  have t: "takeWhile (\<lambda>c. \<not> ends_word c) (e @ r) = e" using e(1) w(4) by (intro takeWhile_span) auto
  have "hd (w' @ e @ r) = hd w'" "is_blank (hd w')" using w by (auto simp: list_all_iff)
  then show ?thesis
    using k w(3) unfolding line_blob_def Let_def a
    by (simp add: ascii_def b t decode_blob_iff) (auto simp: e_def)
qed

lemma blob_key_line: "line_blob l = Some out \<Longrightarrow> \<exists>k. length k = 32 \<and> out = blob_prefix @ k \<and> key_line k l"
proof -
  define a where "a = dropWhile is_blank (cstr l)"
  define b where "b = dropWhile is_blank (drop 11 a)"
  assume "line_blob l = Some out"
  then have h: "take 11 a = ascii ''ssh-ed25519''" "drop 11 a \<noteq> []" "is_blank (hd (drop 11 a))"
    and d: "decode_blob (takeWhile (\<lambda>c. \<not> ends_word c) b) = Some out"
    by (auto simp: line_blob_def Let_def a_def b_def split: if_splits)
  obtain k where k: "length k = 32" "out = blob_prefix @ k" "takeWhile (\<lambda>c. \<not> ends_word c) b = encode_groups (blob_prefix @ k)"
    using d unfolding decode_blob_iff by blast
  have "cstr l = takeWhile is_blank (cstr l) @ take 11 a @ takeWhile is_blank (drop 11 a) @
      takeWhile (\<lambda>c. \<not> ends_word c) b @ dropWhile (\<lambda>c. \<not> ends_word c) b"
    by (simp add: a_def b_def)
  moreover have "takeWhile is_blank (drop 11 a) \<noteq> []" using h(2,3) by (cases "drop 11 a") auto
  moreover have "dropWhile (\<lambda>c. \<not> ends_word c) b = [] \<or> ends_word (hd (dropWhile (\<lambda>c. \<not> ends_word c) b))"
    using hd_dropWhile [of "\<lambda>c. \<not> ends_word c" b] by blast
  moreover have "list_all is_blank (takeWhile is_blank x)" for x by (auto simp: list_all_iff dest: set_takeWhileD)
  ultimately have "key_line k l" unfolding key_line_def h(1) k(3) by blast
  then show ?thesis using k by blast
qed

lemma authorized_lines_iff:
  assumes "length k = 32"
  shows "authorized_lines (Some k) ls \<longleftrightarrow> (\<exists>l \<in> set ls. key_line k l)"
proof (induction ls)
  case (Cons l ls)
  show ?case
  proof (cases "line_blob l")
    case None
    then have "\<not> key_line k l" using key_line_blob [OF assms] by force
    then show ?thesis using Cons None by simp
  next
    case (Some out)
    then obtain k' where k': "length k' = 32" "out = blob_prefix @ k'" "key_line k' l" using blob_key_line by blast
    then have "key_line k l \<longleftrightarrow> k = k'" using key_line_blob [OF assms, of l] Some by auto
    then show ?thesis using Cons Some k' assms by auto
  qed
qed simp

text \<open>The account and its file of authorized keys, as far as the checks of owner, mode and size go.\<close>

definition trusted_keys :: "posix \<Rightarrow> bytes \<Rightarrow> bytes \<Rightarrow> bool" where
  "trusted_keys P user content \<longleftrightarrow> (\<exists>pw st. login_account P user = Some pw \<and> length (pw_dir pw) + 22 \<le> 4096 \<and>
     safe_dir (pw_uid pw) (stat_path P (pw_dir pw)) \<and>
     safe_dir (pw_uid pw) (lstat_path P (pw_dir pw @ ascii ''/.ssh'')) \<and>
     open_nofollow P (pw_dir pw @ ascii ''/.ssh/authorized_keys'') = Some (Some st, Some content) \<and>
     st_isreg st \<and> kept_safe (pw_uid pw) st \<and> st_size st \<le> 65536)"

lemma authorized_user_key_iff:
  "authorized_user_key P user key \<longleftrightarrow>
    (\<exists>content. trusted_keys P user content \<and> authorized_lines key (fgets_lines 8191 content))"
  unfolding authorized_user_key_def trusted_keys_def by (auto split: option.splits prod.splits)

lemma authorized_iff:
  "length key = 32 \<Longrightarrow> noxsshd_authorized_ed25519 P user key \<longleftrightarrow>
    (\<exists>content l. trusted_keys P user content \<and> l \<in> set (fgets_lines 8191 content) \<and> key_line key l)"
  unfolding noxsshd_authorized_ed25519_def authorized_user_key_iff by (auto simp: authorized_lines_iff)

lemma printed_line:
  assumes "print_host_public_key C seed = Some line" "noxtls_ed25519_public_key C seed = Some pk" "length pk = 32"
  shows "fgets_lines 8191 line = [line]" "key_line pk line" "last line = 10" "line \<noteq> []"
proof -
  let ?e = "encode_groups (blob_prefix @ pk)"
  have line: "line = (ascii ''ssh-ed25519 '' @ ?e @ ascii '' noxsshd-host'') @ [10]"
    using assms by (simp add: print_host_public_key_def)
  have len: "length ?e = 68" using length_encode_groups [of "blob_prefix @ pk"] assms(3) by simp
  have e: "c \<noteq> 10 \<and> c \<noteq> 0" if "c \<in> set ?e" for c
    using that encoded_words [of "blob_prefix @ pk"] encoded_nonzero [of "blob_prefix @ pk"] by (auto simp: list_all_iff ends_word_def)
  have "10 \<notin> set (ascii ''ssh-ed25519 '' @ ?e @ ascii '' noxsshd-host'')" using e by (auto simp: ascii_def)
  then show "fgets_lines 8191 line = [line]" unfolding line using len by (intro fgets_one_line) (simp_all add: ascii_def)
  have "cstr line = line" unfolding line cstr_def using e by (auto simp: takeWhile_eq_all_conv ascii_def)
  then have "cstr line = [] @ ascii ''ssh-ed25519'' @ [32] @ ?e @ ascii '' noxsshd-host'' @ [10]" by (simp add: line ascii_def)
  moreover have "list_all is_blank [32]" "ends_word (hd (ascii '' noxsshd-host'' @ [10]))" by (simp_all add: is_blank_def ends_word_def ascii_def)
  ultimately show "key_line pk line" unfolding key_line_def by (intro exI [of _ "[]"] exI [of _ "[32]"] exI [of _ "ascii '' noxsshd-host'' @ [10]"]) simp
  show "last line = 10" "line \<noteq> []" by (simp_all add: line)
qed

section \<open>Properties\<close>

text \<open>C20: The server's callback allows a key for a user exactly when the user is an account that can log in, whose home
  directory, \<open>.ssh\<close> directory and \<open>authorized_keys\<close> file pass the checks of type, owner, mode and size, and a line of that
  file consists of \<open>ssh-ed25519\<close>, blanks, and the base64 text of this key's blob and nothing else, up to a separator.\<close>

theorem authorized_key_iff:
  assumes "length key = 32"
  shows "noxsshd_authorized_ed25519 P user key \<longleftrightarrow>
    (\<exists>content l. trusted_keys P user content \<and> l \<in> set (fgets_lines 8191 content) \<and> key_line key l)"
  using assms by (rule authorized_iff)

theorem authorized_key_iff_witness:
  "\<not> noxsshd_authorized_ed25519 \<lparr>getpwnam = (\<lambda>u. None), stat_path = (\<lambda>p. None), lstat_path = (\<lambda>p. None),
     open_nofollow = (\<lambda>p. None)\<rparr> (ascii ''u'') (replicate 32 7)"
  using authorized_key_iff [of "replicate 32 7" "\<lparr>getpwnam = (\<lambda>u. None), stat_path = (\<lambda>p. None), lstat_path = (\<lambda>p. None),
     open_nofollow = (\<lambda>p. None)\<rparr>" "ascii ''u''"]
  by (simp add: trusted_keys_def login_account_def)

text \<open>C21: The line that the daemon prints for its key, put into a trusted \<open>authorized_keys\<close> file at the start of a line,
  lets the holder of that key in; and where it is the whole file, no other key.\<close>

theorem printed_key_authorizes:
  assumes "print_host_public_key C seed = Some line" "noxtls_ed25519_public_key C seed = Some pk" "length pk = 32"
    "trusted_keys P user (before @ line @ after)" "before = [] \<or> last before = 10"
  shows "noxsshd_authorized_ed25519 P user pk \<and>
    (before @ after = [] \<and> length key = 32 \<and> noxsshd_authorized_ed25519 P user key \<longrightarrow> key = pk)"
proof -
  note l = printed_line [OF assms(1-3)]
  have "fgets_lines 8191 (before @ line @ after) = fgets_lines 8191 before @ [line] @ fgets_lines 8191 after"
    using fgets_lines_append [OF assms(5)] fgets_lines_append [of line] l by simp
  then have "noxsshd_authorized_ed25519 P user pk"
    unfolding authorized_iff [OF assms(3)] using assms(4) l(2) by (metis Un_iff list.set_intros(1) set_append)
  moreover have "key = pk" if o: "before @ after = []" "length key = 32" "noxsshd_authorized_ed25519 P user key"
  proof -
    obtain content l' where c: "trusted_keys P user content" "l' \<in> set (fgets_lines 8191 content)" "key_line key l'"
      using o(3) unfolding authorized_iff [OF o(2)] by blast
    have "content = line" using c(1) assms(4) o(1) by (auto simp: trusted_keys_def)
    then have "key_line key line" using c l(1) by simp
    then show ?thesis using key_line_blob [OF o(2)] key_line_blob [OF assms(3) l(2)] by simp
  qed
  ultimately show ?thesis by blast
qed

definition sample_seed :: bytes where
  "sample_seed = replicate 32 1"

definition sample_line :: bytes where
  "sample_line = the (print_host_public_key toy_noxtls sample_seed)"

definition sample_posix :: posix where
  "sample_posix = \<lparr>getpwnam = (\<lambda>u. Some \<lparr>pw_name = u, pw_uid = 1000, pw_gid = 1000, pw_dir = ascii ''/h'', pw_shell = ascii ''/sh''\<rparr>),
     stat_path = (\<lambda>p. Some \<lparr>st_isdir = True, st_isreg = False, st_mode = 448, st_uid = 1000, st_size = 0\<rparr>),
     lstat_path = (\<lambda>p. Some \<lparr>st_isdir = True, st_isreg = False, st_mode = 448, st_uid = 1000, st_size = 0\<rparr>),
     open_nofollow = (\<lambda>p. Some (Some \<lparr>st_isdir = False, st_isreg = True, st_mode = 384, st_uid = 1000, st_size = 95\<rparr>,
       Some sample_line))\<rparr>"

lemma sample_trusted: "trusted_keys sample_posix (ascii ''u'') sample_line"
proof -
  have "login_account sample_posix (ascii ''u'') =
      Some \<lparr>pw_name = ascii ''u'', pw_uid = 1000, pw_gid = 1000, pw_dir = ascii ''/h'', pw_shell = ascii ''/sh''\<rparr>"
    by (simp add: login_account_def sample_posix_def ascii_def)
  then show ?thesis by (simp add: trusted_keys_def sample_posix_def safe_dir_def kept_safe_def ascii_def)
qed

lemma sample_print:
  "print_host_public_key toy_noxtls sample_seed = Some sample_line" "noxtls_ed25519_public_key toy_noxtls sample_seed = Some sample_seed"
  "length sample_seed = 32"
  by (simp_all add: sample_line_def print_host_public_key_def toy_noxtls_def sample_seed_def)

theorem printed_key_authorizes_witness:
  "noxsshd_authorized_ed25519 sample_posix (ascii ''u'') sample_seed \<and>
   \<not> noxsshd_authorized_ed25519 sample_posix (ascii ''u'') (replicate 32 2)"
proof -
  have t: "trusted_keys sample_posix (ascii ''u'') ([] @ sample_line @ [])" using sample_trusted by simp
  have "replicate 32 (2 :: byte) \<noteq> sample_seed" by (simp add: sample_seed_def)
  then show ?thesis using printed_key_authorizes [OF sample_print t, of "replicate 32 2"] by auto
qed

end
