(* ===== verification/Nox_Daemon.thy ===== *)
theory Nox_Daemon
  imports Nox_Login Nox_Account
begin

text \<open>
  The daemon (\<open>server/main.c\<close>, \<open>server/daemon_runtime.c\<close>): its options, its persistent host key, the service of a
  connection, and the loop that accepts connections. System calls answer by parameters; the sockets are not modelled.
\<close>

section \<open>Definitions\<close>

subsection \<open>The host key\<close>

definition random_seed :: "getrandom_t list \<Rightarrow> bytes res \<times> getrandom_t list" where
  "random_seed rs = getrandom_loop 32 [] rs"

text \<open>Whether all was written, and what was; after the scripted results a write takes all.\<close>

fun write_seed :: "write_t list \<Rightarrow> bytes \<Rightarrow> bool \<times> bytes" where
  "write_seed [] d = (True, d)"
| "write_seed (w # ws) d =
     (if d = [] then (True, [])
      else case w of
          Wrote n \<Rightarrow> if n = 0 then (False, [])
            else (case write_seed ws (drop n d) of (ok, t) \<Rightarrow> (ok, take n d @ t))
        | Write_eintr \<Rightarrow> write_seed ws d
        | _ \<Rightarrow> (False, []))"

datatype file_read = Chunk nat | Read_interrupted | Read_error

text \<open>Reading \<open>want\<close> bytes of what is left of a file; the end of the file before that is a failure.\<close>

fun read_seed :: "file_read list \<Rightarrow> nat \<Rightarrow> bytes \<Rightarrow> bytes \<Rightarrow> (bytes \<times> bytes \<times> file_read list) option" where
  "read_seed [] want s acc = (if length s < want then None else Some (acc @ take want s, drop want s, []))"
| "read_seed (r # rs) want s acc =
     (if want = 0 then Some (acc, s, r # rs)
      else case r of
          Chunk n \<Rightarrow> let k = min n (min want (length s)) in
            if k = 0 then None else read_seed rs (want - k) (drop k s) (acc @ take k s)
        | Read_interrupted \<Rightarrow> read_seed rs want s acc
        | Read_error \<Rightarrow> None)"

text \<open>One more byte is asked for, once; the file has to end there.\<close>

definition at_end :: "file_read list \<Rightarrow> bytes \<Rightarrow> bool" where
  "at_end rs s = (case rs of Read_interrupted # _ \<Rightarrow> False | Read_error # _ \<Rightarrow> False | _ \<Rightarrow> s = [])"

datatype create_t = Created "stat_t option" | Raced "stat_t option \<times> bytes" | Refused

record seed_env =
  geteuid :: u32
  open_dir :: "bytes \<Rightarrow> stat_t option option"
  dir_file :: "bytes \<Rightarrow> bytes \<Rightarrow> (stat_t option \<times> bytes) option"
  no_entry :: bool
  reopened :: "(stat_t option \<times> bytes) option"
  seed_random :: "getrandom_t list"
  create :: create_t
  seed_writes :: "write_t list"
  seed_reads :: "file_read list"
  fsync_ok :: bool
  close_ok :: bool
  unlink_ok :: bool
  dir_fsync_ok :: bool
  dir_close_ok :: bool

definition private_file :: "u32 \<Rightarrow> stat_t option \<Rightarrow> int \<Rightarrow> bool" where
  "private_file euid r n =
     (case r of None \<Rightarrow> False
      | Some st \<Rightarrow> st_isreg st \<and> st_uid st = euid \<and> st_mode st AND 63 = 0 \<and> st_size st = n)"

definition split_path :: "bytes \<Rightarrow> bytes \<times> bytes" where
  "split_path path = (rev (drop 1 (dropWhile (\<lambda>c. c \<noteq> 47) (rev path))), rev (takeWhile (\<lambda>c. c \<noteq> 47) (rev path)))"

function strip_slashes :: "bytes \<Rightarrow> bytes" where
  "strip_slashes p = (if length p > 1 \<and> last p = 47 then strip_slashes (butlast p) else p)"
  by pat_completeness auto
termination
  by (relation "measure length") auto

declare strip_slashes.simps [simp del]

definition put_file :: "bytes \<Rightarrow> bytes \<Rightarrow> (stat_t option \<times> bytes) option \<Rightarrow> seed_env \<Rightarrow> seed_env" where
  "put_file dir name f env = env\<lparr>dir_file := (dir_file env)(dir := (dir_file env dir)(name := f))\<rparr>"

text \<open>The key in an existing file.\<close>

definition load_seed :: "stat_t option \<times> bytes \<Rightarrow> seed_env \<Rightarrow> bytes option" where
  "load_seed f env =
     (if \<not> private_file (geteuid env) (fst f) 32 then None
      else case read_seed (seed_reads env) 32 (snd f) [] of
          None \<Rightarrow> None
        | Some (seed, rest, rs) \<Rightarrow> if at_end rs rest \<and> close_ok env \<and> dir_close_ok env then Some seed else None)"

text \<open>A new key in the file that was just made; where a step fails, the file is removed again.\<close>

definition store_seed :: "bytes \<Rightarrow> bytes \<Rightarrow> stat_t option \<Rightarrow> bytes \<Rightarrow> seed_env \<Rightarrow> bytes option \<times> seed_env" where
  "store_seed dir name r seed env =
     (let (ok, written) = (if private_file (geteuid env) r 0 then write_seed (seed_writes env) seed else (False, []));
          kept = put_file dir name (Some (map_option (\<lambda>st. st\<lparr>st_size := int (length written)\<rparr>) r, written)) env
      in if \<not> ok \<or> \<not> fsync_ok env \<or> \<not> close_ok env
         then (None, if unlink_ok env then put_file dir name None env else kept)
         else (if dir_fsync_ok env \<and> dir_close_ok env then Some seed else None, kept))"

text \<open>No file yet: a random key, and the file; another process may have been faster.\<close>

definition make_seed :: "bytes \<Rightarrow> bytes \<Rightarrow> seed_env \<Rightarrow> bytes option \<times> seed_env" where
  "make_seed dir name env =
     (case random_seed (seed_random env) of
        (Ok seed, rs) \<Rightarrow>
          let env1 = env\<lparr>seed_random := rs\<rparr> in
          (case create env of
             Refused \<Rightarrow> (None, env1)
           | Raced f \<Rightarrow> (load_seed f env1, put_file dir name (Some f) env1)
           | Created r \<Rightarrow> store_seed dir name r seed env1)
      | (_, rs) \<Rightarrow> (None, env\<lparr>seed_random := rs\<rparr>))"

text \<open>Where the first \<open>openat\<close> fails other than with \<open>ENOENT\<close>, it is tried once more.\<close>

definition host_seed :: "bytes \<Rightarrow> seed_env \<Rightarrow> bytes option \<times> seed_env" where
  "host_seed path env =
     (case split_path path of (parent, name) \<Rightarrow>
      if 47 \<notin> set path \<or> length parent \<ge> 4096 \<or> parent = [] \<or> name = [] \<or> name = ascii ''.'' \<or> name = ascii ''..'' then (None, env)
      else let dir = strip_slashes parent in
        case open_dir env dir of
          Some (Some st) \<Rightarrow>
            if \<not> st_isdir st \<or> st_mode st AND 18 \<noteq> 0 \<or> st_uid st \<noteq> geteuid env then (None, env)
            else (case dir_file env dir name of
                Some f \<Rightarrow> (load_seed f env, env)
              | None \<Rightarrow>
                  if no_entry env then make_seed dir name env
                  else (case reopened env of
                      None \<Rightarrow> (None, env)
                    | Some f \<Rightarrow> (load_seed f env, put_file dir name (Some f) env)))
        | _ \<Rightarrow> (None, env))"

subsection \<open>Options\<close>

record daemon_opts =
  bind_host :: bytes
  key_path :: bytes
  check_user :: "bytes option"
  bind_port :: u16
  print_public :: bool

definition default_opts :: daemon_opts where
  "default_opts = \<lparr>bind_host = ascii ''127.0.0.1'', key_path = ascii ''/etc/noxssh/host_ed25519_seed'',
     check_user = None, bind_port = 2222, print_public = False\<rparr>"

definition port_arg :: "bytes \<Rightarrow> u16 option" where
  "port_arg s =
     (case strtoul s of
        None \<Rightarrow> None
      | Some (v, rest) \<Rightarrow> if rest \<noteq> [] \<or> v < 1 \<or> v > 65535 then None else Some (ucast v))"

text \<open>The options, or the exit code.\<close>

fun daemon_args :: "bytes list \<Rightarrow> daemon_opts \<Rightarrow> nat + daemon_opts" where
  "daemon_args [] opts = Inr opts"
| "daemon_args (a # as) opts =
     (if a = ascii ''--help'' \<or> a = ascii ''-h'' then Inl 0
      else if a = ascii ''-b'' \<and> as \<noteq> [] then daemon_args (tl as) (opts\<lparr>bind_host := hd as\<rparr>)
      else if a = ascii ''-p'' \<and> as \<noteq> []
      then (case port_arg (hd as) of None \<Rightarrow> Inl 2 | Some p \<Rightarrow> daemon_args (tl as) (opts\<lparr>bind_port := p\<rparr>))
      else if a = ascii ''--host-key'' \<and> as \<noteq> [] then daemon_args (tl as) (opts\<lparr>key_path := hd as\<rparr>)
      else if a = ascii ''--check-user'' \<and> as \<noteq> [] then daemon_args (tl as) (opts\<lparr>check_user := Some (hd as)\<rparr>)
      else if a = ascii ''--print-host-public-key'' then daemon_args as (opts\<lparr>print_public := True\<rparr>)
      else Inl 2)"

text \<open>What the program does: it exits with a code, prints a line, or listens.\<close>

datatype daemon_run = Exit nat | Print bytes | Listen bytes u16 bytes

definition noxsshd_main :: "noxtls \<Rightarrow> posix \<Rightarrow> bytes list \<Rightarrow> seed_env \<Rightarrow> daemon_run \<times> seed_env" where
  "noxsshd_main C P args env =
     (case daemon_args args default_opts of
        Inl code \<Rightarrow> (Exit code, env)
      | Inr opts \<Rightarrow>
          if check_user opts \<noteq> None \<and> print_public opts then (Exit 2, env)
          else if check_user opts \<noteq> None
          then (Exit (if noxsshd_authorized_user_ready P (the (check_user opts)) then 0 else 1), env)
          else if key_path opts = [] \<or> hd (key_path opts) \<noteq> 47 then (Exit 1, env)
          else (case host_seed (key_path opts) env of
              (None, env') \<Rightarrow> (Exit 1, env')
            | (Some seed, env') \<Rightarrow>
                (if print_public opts
                 then (case print_host_public_key C seed of None \<Rightarrow> Exit 1 | Some line \<Rightarrow> Print line)
                 else Listen (bind_host opts) (bind_port opts) seed, env')))"

subsection \<open>Connections\<close>

text \<open>The exit code of the process that serves a connection.\<close>

definition noxsshd_serve_connection ::
  "noxtls \<Rightarrow> posix \<Rightarrow> int \<Rightarrow> world \<Rightarrow> bytes \<Rightarrow> (netnox_ssh_server_t, nat) prog" where
  "noxsshd_serve_connection C P client_sock conn seed =
     bindM (tryM netnox_ssh_server_init) (\<lambda>r0.
     if r0 \<noteq> Ok () then retM 1
     else bindM (set_io_callbacks True True conn) (\<lambda>_.
     bindM (tryM (netnox_ssh_server_set_host_ed25519_seed C seed)) (\<lambda>r1.
     if r1 \<noteq> Ok () then retM 1
     else bindM (netnox_ssh_server_set_publickey_callback (Some (noxsshd_authorized_ed25519 P))) (\<lambda>_.
     bindM (setM (\<lambda>s. s\<lparr>transport_fd := client_sock\<rparr>)) (\<lambda>_.
     bindM (tryM (netnox_ssh_server_serve_one C)) (\<lambda>rc.
     bindM netnox_ssh_server_reset (\<lambda>_.
     retM (if rc = Ok () then 0 else 1))))))))"

subsection \<open>The accepting loop\<close>

text \<open>
  \<open>active\<close> is the daemon's counter; \<open>running\<close> the processes that were started and not yet waited for. An event is one
  round: how many children \<open>waitpid\<close> returns, whether \<open>accept\<close> and \<open>fork\<close> succeed.
\<close>

record listener =
  active :: u32
  running :: nat

record listen_event =
  reaped :: nat
  accepted :: bool
  fork_ok :: bool

fun reap :: "nat \<Rightarrow> listener \<Rightarrow> listener" where
  "reap 0 l = l"
| "reap (Suc n) l = reap n (l\<lparr>active := (if active l \<noteq> 0 then active l - 1 else active l), running := running l - 1\<rparr>)"

text \<open>The new state, and whether the connection of this round is served.\<close>

definition listen_round :: "listen_event \<Rightarrow> listener \<Rightarrow> listener \<times> bool" where
  "listen_round e l =
     (let l1 = reap (reaped e) l
      in if \<not> accepted e then (l1, False)
         else if active l1 \<ge> 4 then (l1, False)
         else if fork_ok e then (l1\<lparr>active := active l1 + 1, running := running l1 + 1\<rparr>, True)
         else (l1, False))"

text \<open>The states of the loop; \<open>waitpid\<close> returns only children that are there.\<close>

inductive listening :: "listener \<Rightarrow> bool" where
  start: "listening \<lparr>active = 0, running = 0\<rparr>"
| round: "listening l \<Longrightarrow> reaped e \<le> running l \<Longrightarrow> listening (fst (listen_round e l))"

section \<open>A served connection\<close>

text \<open>A child of the daemon was started for a user who has a trusted line for a key that signed the login, in this session.\<close>

definition authorized_spawn :: "noxtls \<Rightarrow> posix \<Rightarrow> netnox_ssh_server_t \<Rightarrow> spawn \<Rightarrow> bool" where
  "authorized_spawn C P s sp \<longleftrightarrow> (\<exists>content l pk sig. trusted_keys P (fst sp) content \<and>
     l \<in> set (fgets_lines 8191 content) \<and> length pk = 32 \<and> key_line pk l \<and>
     noxtls_ed25519_verify C pk (ssh_string (take (unat (session_id_len s)) (session_id s)) @
       publickey_request 1 (fst sp) pk) sig)"

definition well_spawned :: "noxtls \<Rightarrow> posix \<Rightarrow> netnox_ssh_server_t \<Rightarrow> bool" where
  "well_spawned C P s \<longleftrightarrow> length (spawned (io_user_data s)) \<le> 1 \<and>
     list_all (authorized_spawn C P s) (spawned (io_user_data s))"

lemma serve_inv_spawned:
  assumes "serve_inv C 7 s" "publickey_allowed_cb s = Some (noxsshd_authorized_ed25519 P)"
  shows "well_spawned C P s"
proof -
  have "authorized_spawn C P s sp" if "sp \<in> set (spawned (io_user_data s))" for sp
  proof -
    have "authenticated s" "fst sp = authenticated_user s" using assms(1) that by (auto simp: serve_inv_def)
    then have "proven_login C s (fst sp)" using assms(1) by (simp add: serve_inv_def)
    then obtain pk sig where "noxsshd_authorized_ed25519 P (fst sp) pk" "length pk = 32"
      "noxtls_ed25519_verify C pk (ssh_string (take (unat (session_id_len s)) (session_id s)) @ publickey_request 1 (fst sp) pk) sig"
      using assms(2) unfolding proven_login_def by auto
    then show ?thesis unfolding authorized_spawn_def by (metis authorized_iff)
  qed
  then show ?thesis using assms(1) by (simp add: well_spawned_def serve_inv_def list_all_iff)
qed

lemma wp_serve_authorized:
  assumes "fresh_server s" "publickey_allowed_cb s = Some (noxsshd_authorized_ed25519 P)"
  shows "wp (netnox_ssh_server_serve_one C) (\<lambda>_. well_spawned C P) (well_spawned C P) s"
proof -
  obtain r t where run: "netnox_ssh_server_serve_one C s = (r, t)" by fastforce
  have "serve_inv C 7 t" using wp_serve_one [OF assms(1)] run by (rule wp_any)
  moreover have "publickey_allowed_cb t = Some (noxsshd_authorized_ed25519 P)"
    using alwaysD [OF serve_one_callback run] assms(2) by (simp add: same_callback_def)
  ultimately have "well_spawned C P t" by (rule serve_inv_spawned)
  then show ?thesis using run by (cases r) (simp_all add: wp_def)
qed

lemma wp_try_kept: "wp m (\<lambda>_. Q) Q s \<Longrightarrow> wp (tryM m) (\<lambda>_. Q) Q s"
  by (intro wp_try) simp

lemma fresh_spawned: "fresh_server s \<Longrightarrow> well_spawned C P s"
  by (simp add: fresh_server_def well_spawned_def)

lemma wp_server_init: "wp netnox_ssh_server_init (\<lambda>_. fresh_server) fresh_server s"
  unfolding netnox_ssh_server_init_def
  by (intro wp_rules) (simp_all add: fresh_server_def zero_server_def zero_context_def no_world_def ssh_context.defs netnox_ssh_server_t.defs)

lemma wp_set_seed: "fresh_server s \<Longrightarrow> wp (netnox_ssh_server_set_host_ed25519_seed C seed) (\<lambda>_. fresh_server) fresh_server s"
  unfolding netnox_ssh_server_set_host_ed25519_seed_def derive_host_key_def
  by (intro wp_rules) (simp_all add: fresh_server_def)

lemma wp_reset: "well_spawned C P s \<Longrightarrow> wp (bindM netnox_ssh_server_reset (\<lambda>_. retM r)) (\<lambda>_. well_spawned C P) (well_spawned C P) s"
  unfolding netnox_ssh_server_reset_def by (intro wp_rules) (simp add: well_spawned_def authorized_spawn_def list_all_iff)

lemma wp_connection:
  assumes "spawned conn = []"
  shows "wp (noxsshd_serve_connection C P fd conn seed) (\<lambda>_. well_spawned C P) (well_spawned C P) s"
proof -
  have served: "wp (bindM (tryM (netnox_ssh_server_serve_one C)) (\<lambda>rc. bindM netnox_ssh_server_reset (\<lambda>_. retM (if rc = Ok () then 0 else 1))))
      (\<lambda>_. well_spawned C P) (well_spawned C P) t"
    if "fresh_server t" "publickey_allowed_cb t = Some (noxsshd_authorized_ed25519 P)" for t
    by (rule wp_seq, rule wp_try_kept, rule wp_serve_authorized, rule that, rule that) (auto intro: wp_reset)
  show ?thesis
    unfolding noxsshd_serve_connection_def set_io_callbacks_def netnox_ssh_server_set_publickey_callback_def
    apply (rule wp_seq, rule wp_try_kept, rule wp_server_init)
     apply (intro wp_if wp_ret fresh_spawned, assumption)
     apply (rule wp_bind, rule wp_set, rule wp_seq, rule wp_try_kept, rule wp_set_seed)
       apply (simp add: fresh_server_def assms)
      apply (intro wp_if wp_ret fresh_spawned, assumption)
      apply (rule wp_bind, rule wp_set, rule wp_bind, rule wp_set, rule served)
       apply (simp_all add: fresh_server_def fresh_spawned)
    done
qed

section \<open>The listener\<close>

lemma reap_count: "n \<le> running l \<Longrightarrow> unat (active l) = running l \<Longrightarrow>
    unat (active (reap n l)) = running l - n \<and> running (reap n l) = running l - n"
proof (induction n arbitrary: l)
  case (Suc n)
  have "active l \<noteq> 0" using Suc.prems by (auto simp: unat_eq_0)
  then have "unat (active l - 1) = running l - 1" using Suc.prems by (simp add: unat_sub word_le_nat_alt unat_gt_0 Suc_le_eq)
  then show ?case using Suc \<open>active l \<noteq> 0\<close> by simp
qed simp

lemma round_count:
  assumes "unat (active l) = running l" "running l \<le> 4" "reaped e \<le> running l"
  shows "unat (active (fst (listen_round e l))) = running (fst (listen_round e l)) \<and> running (fst (listen_round e l)) \<le> 4"
    and "snd (listen_round e l) \<longleftrightarrow> accepted e \<and> fork_ok e \<and> running l - reaped e < 4"
proof -
  note c = reap_count [OF assms(3,1)]
  have u: "unat (active (reap (reaped e) l) + 1) = running l - reaped e + 1"
    using c assms(2) by (subst unat_plus_small) simp_all
  have "active (reap (reaped e) l) \<ge> 4 \<longleftrightarrow> running l - reaped e \<ge> 4" using c by (simp add: word_le_nat_alt)
  then show "unat (active (fst (listen_round e l))) = running (fst (listen_round e l)) \<and> running (fst (listen_round e l)) \<le> 4"
    and "snd (listen_round e l) \<longleftrightarrow> accepted e \<and> fork_ok e \<and> running l - reaped e < 4"
    using c u assms(2) by (auto simp: listen_round_def Let_def)
qed

lemma listening_count: "listening l \<Longrightarrow> unat (active l) = running l \<and> running l \<le> 4"
  by (induction rule: listening.induct) (simp_all add: round_count)

section \<open>The stored key\<close>

lemma write_seed_all: "write_seed ws d = (True, t) \<Longrightarrow> t = d"
proof (induction ws d arbitrary: t rule: write_seed.induct)
  case (2 w ws d)
  then show ?case by (cases w) (force split: if_splits prod.splits)+
qed simp

lemma read_seed_spec: "read_seed rs want s acc = Some (out, rest, rs') \<Longrightarrow> acc @ s = out @ rest \<and> length out = length acc + want"
proof (induction rs want s acc rule: read_seed.induct)
  case (2 r rs want s acc)
  then show ?case by (cases r) (auto simp: Let_def split: if_splits)
qed (auto split: if_splits)

lemma load_seed_Some:
  "load_seed f env = Some seed \<Longrightarrow> snd f = seed \<and> length seed = 32 \<and> private_file (geteuid env) (fst f) 32"
  by (auto simp: load_seed_def at_end_def split: if_splits option.splits list.splits file_read.splits dest: read_seed_spec)

lemma load_seed_undisturbed:
  "length (snd f) = 32 \<Longrightarrow> private_file (geteuid env) (fst f) 32 \<Longrightarrow> seed_reads env = [] \<Longrightarrow> close_ok env \<Longrightarrow>
    dir_close_ok env \<Longrightarrow> load_seed f env = Some (snd f)"
  by (simp add: load_seed_def at_end_def)

lemma private_sized: "private_file euid r 0 \<Longrightarrow> private_file euid (map_option (\<lambda>st. st\<lparr>st_size := n\<rparr>) r) n"
  by (auto simp: private_file_def split: option.splits)

lemma put_file_at [simp]: "dir_file (put_file dir name f env) dir name = f" "geteuid (put_file dir name f env) = geteuid env"
  by (simp_all add: put_file_def)

text \<open>The file at a path is a private one of the daemon and holds the key.\<close>

definition holds_seed :: "bytes \<Rightarrow> seed_env \<Rightarrow> bytes \<Rightarrow> bool" where
  "holds_seed path env seed \<longleftrightarrow> length seed = 32 \<and> (\<exists>st.
     dir_file env (strip_slashes (fst (split_path path))) (snd (split_path path)) = Some (st, seed) \<and>
     private_file (geteuid env) st 32)"

lemma store_seed_Some:
  assumes "store_seed dir name r seed env = (Some seed', env')" "length seed = 32"
  shows "seed' = seed \<and> (\<exists>st. dir_file env' dir name = Some (st, seed) \<and> private_file (geteuid env') st 32)"
proof -
  obtain ok written where w: "(if private_file (geteuid env) r 0 then write_seed (seed_writes env) seed else (False, [])) = (ok, written)"
    by fastforce
  have e: "ok" "seed' = seed" "env' = put_file dir name (Some (map_option (\<lambda>st. st\<lparr>st_size := int (length written)\<rparr>) r, written)) env"
    using assms(1) w unfolding store_seed_def by (auto simp: Let_def split: if_splits)
  then have "written = seed" "private_file (geteuid env) r 0" using w write_seed_all by (auto split: if_splits)
  then show ?thesis using e(2,3) assms(2) private_sized [of "geteuid env" r 32] by simp
qed

lemma random_seed_length: "random_seed rs = (Ok seed, rs') \<Longrightarrow> length seed = 32"
  unfolding random_seed_def by (drule getrandom_loop_Ok) simp

lemma host_seed_reads:
  assumes "dir_file env (strip_slashes (fst (split_path path))) (snd (split_path path)) = Some f"
  shows "snd (host_seed path env) = env" and "fst (host_seed path env) = None \<or> fst (host_seed path env) = load_seed f env"
  using assms unfolding host_seed_def by (auto simp: Let_def split: prod.splits option.splits)

lemma make_seed_Some:
  assumes "make_seed dir name env = (Some seed, env')"
  shows "length seed = 32 \<and> (\<exists>st. dir_file env' dir name = Some (st, seed) \<and> private_file (geteuid env') st 32)"
proof -
  obtain new rs where new: "random_seed (seed_random env) = (Ok new, rs)"
    using assms by (auto simp: make_seed_def split: prod.splits res.splits)
  show ?thesis
  proof (cases "create env")
    case (Created r)
    then show ?thesis using assms new random_seed_length [OF new] store_seed_Some [of dir name r new]
      by (auto simp: make_seed_def Let_def)
  next
    case (Raced f)
    then show ?thesis using assms new by (cases f) (auto simp: make_seed_def Let_def dest: load_seed_Some)
  qed (use assms new in \<open>simp add: make_seed_def Let_def\<close>)
qed

lemma host_seed_Some:
  assumes run: "host_seed path env = (Some seed, env')"
  shows "holds_seed path env' seed"
proof (cases "dir_file env (strip_slashes (fst (split_path path))) (snd (split_path path))")
  case (Some f)
  then have "env' = env" "load_seed f env = Some seed" using host_seed_reads [OF Some] run by auto
  then show ?thesis using load_seed_Some [of f env seed] Some by (cases f) (simp add: holds_seed_def)
next
  case None
  have "make_seed (strip_slashes (fst (split_path path))) (snd (split_path path)) env = (Some seed, env') \<or>
      (\<exists>f. load_seed f env = Some seed \<and>
        env' = put_file (strip_slashes (fst (split_path path))) (snd (split_path path)) (Some f) env)"
    using run None unfolding host_seed_def
    by (auto simp: Let_def split: prod.splits option.splits if_splits)
  then show ?thesis
  proof
    assume "\<exists>f. load_seed f env = Some seed \<and>
      env' = put_file (strip_slashes (fst (split_path path))) (snd (split_path path)) (Some f) env"
    then show ?thesis using load_seed_Some by (fastforce simp: holds_seed_def)
  qed (use make_seed_Some in \<open>simp add: holds_seed_def\<close>)
qed

text \<open>What the daemon does to the file does not change the rest of the system.\<close>

definition same_system :: "seed_env \<Rightarrow> seed_env \<Rightarrow> bool" where
  "same_system env env' \<longleftrightarrow> geteuid env' = geteuid env \<and> open_dir env' = open_dir env \<and> seed_reads env' = seed_reads env \<and>
     close_ok env' = close_ok env \<and> dir_close_ok env' = dir_close_ok env"

lemma make_seed_system: "same_system env (snd (make_seed dir name env))"
  by (auto simp: same_system_def make_seed_def store_seed_def put_file_def Let_def split: prod.splits res.splits create_t.splits)

lemma host_seed_system: "same_system env (snd (host_seed path env))"
  using make_seed_system [of env] unfolding host_seed_def
  by (auto simp: same_system_def put_file_def Let_def split: prod.splits option.splits)

lemma host_seed_found:
  assumes "host_seed path env = (Some seed, env')" "geteuid later = geteuid env" "open_dir later = open_dir env"
    and f: "dir_file later (strip_slashes (fst (split_path path))) (snd (split_path path)) = Some f"
  shows "host_seed path later = (load_seed f later, later)"
proof -
  obtain parent name where p: "split_path path = (parent, name)" by fastforce
  then obtain st where st: "open_dir env (strip_slashes parent) = Some (Some st)"
    using assms(1) unfolding host_seed_def by (auto simp: Let_def split: option.splits if_splits)
  then show ?thesis using assms p by (auto simp: host_seed_def Let_def split: if_splits)
qed

section \<open>Properties\<close>

text \<open>C5: A connection that the daemon serves starts at most one child, and only for a user whose trusted
  \<open>authorized_keys\<close> file has a line for an Ed25519 key that signed this user's publickey request together with the
  identifier of this session; whatever the peer sends, whatever the library answers, and whether the service ends with
  success or not.\<close>

theorem daemon_runs_only_authorized_keys:
  assumes "spawned conn = []" and "noxsshd_serve_connection C P fd conn seed s = (r, s')"
  shows "length (spawned (io_user_data s')) \<le> 1 \<and> list_all (authorized_spawn C P s') (spawned (io_user_data s'))"
  using wp_any [OF wp_connection [OF assms(1)] assms(2)] by (simp add: well_spawned_def)

theorem daemon_runs_only_authorized_keys_witness:
  "length (spawned (io_user_data (snd (noxsshd_serve_connection toy_noxtls sample_posix 3 sample_world sample_seed zero_server)))) \<le> 1"
  using daemon_runs_only_authorized_keys [OF _ prod.collapse [symmetric], of sample_world toy_noxtls sample_posix 3 sample_seed zero_server]
  by (simp add: sample_world_def no_world_def)

text \<open>C18: The host key is persistent and private. A key that the daemon starts with is in a regular file of 32 bytes at
  the given path, owned by the daemon's user and closed to all others. As long as that file stays, every later start leaves
  the file alone and gives the same key or none, and the same key if reading is not disturbed.\<close>

theorem host_key_persists:
  assumes "host_seed path env = (Some seed, env')"
    and "dir_file later = dir_file env'" "geteuid later = geteuid env" "open_dir later = open_dir env"
  shows "holds_seed path env' seed \<and> snd (host_seed path later) = later \<and>
    (fst (host_seed path later) = None \<or> fst (host_seed path later) = Some seed) \<and>
    (seed_reads later = [] \<and> close_ok later \<and> dir_close_ok later \<longrightarrow> fst (host_seed path later) = Some seed)"
proof -
  have h: "holds_seed path env' seed" using assms(1) by (rule host_seed_Some)
  then obtain st where f: "dir_file later (strip_slashes (fst (split_path path))) (snd (split_path path)) = Some (st, seed)"
    and st: "private_file (geteuid later) st 32" and len: "length seed = 32"
    using assms(2,3) host_seed_system [of env path] assms(1) by (auto simp: holds_seed_def same_system_def)
  have "host_seed path later = (load_seed (st, seed) later, later)"
    using assms(1,3,4) f by (intro host_seed_found) auto
  then show ?thesis using h load_seed_Some [of "(st, seed)" later] load_seed_undisturbed [of "(st, seed)" later] st len
    by (cases "load_seed (st, seed) later") auto
qed

definition sample_seed_env :: seed_env where
  "sample_seed_env = \<lparr>geteuid = 0,
     open_dir = (\<lambda>p. Some (Some \<lparr>st_isdir = True, st_isreg = False, st_mode = 448, st_uid = 0, st_size = 0\<rparr>)),
     dir_file = (\<lambda>d n. None), no_entry = True, reopened = None, seed_random = [Eintr, Got (replicate 40 9)],
     create = Created (Some \<lparr>st_isdir = False, st_isreg = True, st_mode = 384, st_uid = 0, st_size = 0\<rparr>),
     seed_writes = [Wrote 20, Write_eintr], seed_reads = [], fsync_ok = True, close_ok = True, unlink_ok = True,
     dir_fsync_ok = True, dir_close_ok = True\<rparr>"

theorem host_key_persists_witness:
  "fst (host_seed (ascii ''/k/s'') (snd (host_seed (ascii ''/k/s'') sample_seed_env))) = Some (replicate 32 9)"
proof -
  have a: "fst (host_seed (ascii ''/k/s'') sample_seed_env) = Some (replicate 32 9)" by code_simp
  let ?later = "snd (host_seed (ascii ''/k/s'') sample_seed_env)"
  have b: "geteuid ?later = geteuid sample_seed_env" "open_dir ?later = open_dir sample_seed_env"
    "seed_reads ?later = []" "close_ok ?later" "dir_close_ok ?later"
    using host_seed_system [of sample_seed_env "ascii ''/k/s''"] unfolding same_system_def by (auto simp: sample_seed_env_def)
  show ?thesis
    using host_key_persists [OF _ refl b(1,2), of "ascii ''/k/s''" "replicate 32 9"] a b(3-5) by (simp add: prod_eq_iff)
qed

text \<open>C19: At most four sessions run at once: in every state of the accepting loop the daemon's counter is the number of
  children that it has started and not yet waited for, and this is at most four; a connection that arrives is served
  exactly when, after waiting for finished children, fewer than four are left and the process can be started.\<close>

theorem at_most_four_sessions:
  assumes "listening l"
  shows "unat (active l) = running l \<and> running l \<le> 4 \<and>
    (reaped e \<le> running l \<longrightarrow> (snd (listen_round e l) \<longleftrightarrow> accepted e \<and> fork_ok e \<and> running l - reaped e < 4))"
  using listening_count [OF assms] round_count(2) [of l e] by simp

theorem at_most_four_sessions_witness:
  "snd (listen_round \<lparr>reaped = 0, accepted = True, fork_ok = True\<rparr> \<lparr>active = 0, running = 0\<rparr>)"
  using at_most_four_sessions [OF listening.start, of "\<lparr>reaped = 0, accepted = True, fork_ok = True\<rparr>"] by simp

end
