(* ===== verification/Nox_Config.thy ===== *)
theory Nox_Config
  imports Nox_Hosts Nox_Identity
begin

text \<open>
  The settings of the client program (\<open>client/main.c\<close>): the file \<open>~/.ssh/config\<close>, the command line, and how the two
  are put together.
\<close>

section \<open>Definitions\<close>

subsection \<open>The configuration file\<close>

text \<open>A field with its \<open>has_\<close> flag is an option.\<close>

record noxssh_ssh_config_t =
  cfg_host_name :: "bytes option"
  cfg_user :: "bytes option"
  cfg_port :: "u16 option"
  cfg_identity_file :: "bytes option"
  cfg_user_known_hosts_file :: "bytes option"
  cfg_strict_host_key_checking :: "hostkey_check option"
  cfg_batch_mode :: "bool option"
  cfg_connect_timeout_ms :: "u32 option"
  cfg_server_alive_interval_sec :: "u32 option"
  cfg_server_alive_count_max :: "u32 option"
  cfg_rekey_interval_sec :: "u32 option"

definition no_config :: noxssh_ssh_config_t where
  "no_config = \<lparr>cfg_host_name = None, cfg_user = None, cfg_port = None, cfg_identity_file = None,
     cfg_user_known_hosts_file = None, cfg_strict_host_key_checking = None, cfg_batch_mode = None,
     cfg_connect_timeout_ms = None, cfg_server_alive_interval_sec = None, cfg_server_alive_count_max = None,
     cfg_rekey_interval_sec = None\<rparr>"

definition noxssh_expand_home_path :: "bytes option \<Rightarrow> bytes \<Rightarrow> nat \<Rightarrow> bytes" where
  "noxssh_expand_home_path home in_path out_len =
     (case (case in_path of t # c # _ \<Rightarrow> if t = 126 \<and> (c = 47 \<or> c = 92) then noxssh_get_home_dir home 1024 else None
            | _ \<Rightarrow> None) of
        Some h \<Rightarrow> if length (h @ tl in_path) < out_len then h @ tl in_path else take (out_len - 1) in_path
      | None \<Rightarrow> take (out_len - 1) in_path)"

text \<open>Key and value of a line.\<close>

definition config_line :: "bytes \<Rightarrow> (bytes \<times> bytes) option" where
  "config_line line =
     (let p = noxssh_rtrim (noxssh_ltrim (cstr line));
          key = takeWhile (\<lambda>c. c \<noteq> 32 \<and> c \<noteq> 9 \<and> c \<noteq> 61) p;
          val = noxssh_rtrim (noxssh_ltrim (drop (length key + 1) p))
      in if p = [] \<or> hd p = 35 \<or> key = p \<or> val = [] then None else Some (key, val))"

text \<open>\<open>strtoul\<close> of the whole value, up to a limit.\<close>

definition number_arg :: "u64 \<Rightarrow> bytes \<Rightarrow> u64 option" where
  "number_arg limit v = (case strtoul v of Some (n, []) \<Rightarrow> if n \<le> limit then Some n else None | _ \<Rightarrow> None)"

definition port_number :: "bytes \<Rightarrow> u16 option" where
  "port_number v = (case number_arg 65535 v of Some n \<Rightarrow> if n = 0 then None else Some (ucast n) | None \<Rightarrow> None)"

text \<open>\<open>if(cfg->has_x == 0)\<close>: a value that is there stays.\<close>

fun keep_first :: "'a option \<Rightarrow> 'a option \<Rightarrow> 'a option" where
  "keep_first (Some a) b = Some a"
| "keep_first None b = b"

definition is_key :: "bytes \<Rightarrow> string \<Rightarrow> bool" where
  "is_key key name \<longleftrightarrow> noxssh_ascii_equals_ignore_case key (ascii name)"

definition config_setting :: "bytes option \<Rightarrow> bytes \<Rightarrow> bytes \<Rightarrow> noxssh_ssh_config_t \<Rightarrow> noxssh_ssh_config_t" where
  "config_setting home key val cfg =
     (if is_key key ''HostName'' then cfg\<lparr>cfg_host_name := keep_first (cfg_host_name cfg) (Some (take 255 val))\<rparr>
      else if is_key key ''User'' then cfg\<lparr>cfg_user := keep_first (cfg_user cfg) (Some (take 64 val))\<rparr>
      else if is_key key ''Port'' then cfg\<lparr>cfg_port := keep_first (cfg_port cfg) (port_number val)\<rparr>
      else if is_key key ''IdentityFile''
      then cfg\<lparr>cfg_identity_file := keep_first (cfg_identity_file cfg) (Some (noxssh_expand_home_path home val 1024))\<rparr>
      else if is_key key ''UserKnownHostsFile''
      then cfg\<lparr>cfg_user_known_hosts_file :=
        keep_first (cfg_user_known_hosts_file cfg) (Some (noxssh_expand_home_path home val 1024))\<rparr>
      else if is_key key ''StrictHostKeyChecking''
      then cfg\<lparr>cfg_strict_host_key_checking :=
        keep_first (cfg_strict_host_key_checking cfg) (noxssh_parse_strict_host_key_mode val)\<rparr>
      else if is_key key ''BatchMode''
      then cfg\<lparr>cfg_batch_mode := keep_first (cfg_batch_mode cfg) (Some (is_key val ''yes''))\<rparr>
      else if is_key key ''ConnectTimeout''
      then cfg\<lparr>cfg_connect_timeout_ms :=
        keep_first (cfg_connect_timeout_ms cfg) (map_option (\<lambda>n. ucast n * 1000) (number_arg 600 val))\<rparr>
      else if is_key key ''ServerAliveInterval''
      then cfg\<lparr>cfg_server_alive_interval_sec :=
        keep_first (cfg_server_alive_interval_sec cfg) (map_option ucast (number_arg 3600 val))\<rparr>
      else if is_key key ''ServerAliveCountMax''
      then cfg\<lparr>cfg_server_alive_count_max :=
        keep_first (cfg_server_alive_count_max cfg) (map_option ucast (number_arg 100 val))\<rparr>
      else if is_key key ''RekeyInterval''
      then cfg\<lparr>cfg_rekey_interval_sec :=
        keep_first (cfg_rekey_interval_sec cfg) (map_option ucast (number_arg 86400 val))\<rparr>
      else cfg)"

fun config_lines :: "bytes option \<Rightarrow> bytes \<Rightarrow> bool \<Rightarrow> bytes list \<Rightarrow> noxssh_ssh_config_t \<Rightarrow> noxssh_ssh_config_t" where
  "config_lines home hst active [] cfg = cfg"
| "config_lines home hst active (l # ls) cfg =
     (case config_line l of
        None \<Rightarrow> config_lines home hst active ls cfg
      | Some (key, val) \<Rightarrow>
          if is_key key ''Host'' then config_lines home hst (noxssh_host_list_matches val hst) ls cfg
          else if \<not> active then config_lines home hst active ls cfg
          else config_lines home hst active ls (config_setting home key val cfg))"

text \<open>The file at \<open>$HOME/.ssh/config\<close>; where there is none, nothing is set.\<close>

definition noxssh_load_ssh_config_for_host ::
  "bytes option \<Rightarrow> (bytes \<Rightarrow> bytes option) \<Rightarrow> bytes \<Rightarrow> noxssh_ssh_config_t" where
  "noxssh_load_ssh_config_for_host home file_at host_alias =
     (case noxssh_get_home_dir home 1024 of
        None \<Rightarrow> no_config
      | Some h \<Rightarrow>
          (case file_at (take 1023 (h @ ascii ''/.ssh/config'')) of
             None \<Rightarrow> no_config
           | Some content \<Rightarrow> config_lines home host_alias False (fgets_lines 1023 content) no_config))"

subsection \<open>The command line\<close>

text \<open>\<open>strtol(s, &end, 10)\<close>, like \<open>strtoul\<close> but signed.\<close>

definition strtol :: "bytes \<Rightarrow> (int \<times> bytes) option" where
  "strtol s =
     (let t = dropWhile is_space s; neg = (t \<noteq> [] \<and> hd t = 45);
          u = (if t \<noteq> [] \<and> (hd t = 43 \<or> hd t = 45) then tl t else t); ds = takeWhile is_digit u;
          v = (if neg then max (- int (dec_value ds)) (- (2 ^ 63)) else min (int (dec_value ds)) (2 ^ 63 - 1))
      in if ds = [] then None else Some (v, drop (length ds) u))"

record cli_t =
  cli_port :: "u16 option"
  cli_retries :: nat
  cli_connect_timeout_ms :: "u32 option"
  cli_io_timeout_ms :: u32
  cli_alive_interval_sec :: "u32 option"
  cli_alive_count_max :: "u32 option"
  cli_rekey_interval_sec :: "u32 option"
  cli_identity_file :: "bytes option"
  cli_password :: "bytes option"
  cli_debug :: nat
  cli_request_pty :: bool
  cli_batch_mode :: bool
  cli_strict :: "hostkey_check option"
  cli_pin :: bytes
  cli_known_hosts :: "bytes option"
  cli_ed25519_key :: "bytes option"
  cli_target :: "bytes option"
  cli_command :: "bytes option"

definition no_options :: cli_t where
  "no_options = \<lparr>cli_port = None, cli_retries = 0, cli_connect_timeout_ms = None, cli_io_timeout_ms = 0,
     cli_alive_interval_sec = None, cli_alive_count_max = None, cli_rekey_interval_sec = None, cli_identity_file = None,
     cli_password = None, cli_debug = 0, cli_request_pty = True, cli_batch_mode = False, cli_strict = None, cli_pin = [],
     cli_known_hosts = None, cli_ed25519_key = None, cli_target = None, cli_command = None\<rparr>"

text \<open>The words after the first word of a command, as many as fit, and their number.\<close>

fun join_words :: "bytes \<Rightarrow> bytes list \<Rightarrow> bytes \<times> nat" where
  "join_words command [] = (command, 0)"
| "join_words command (a # as) =
     (if 512 - length command < 2 \<or> length a + 1 > 512 - length command then (command, 0)
      else case join_words (command @ [32] @ a) as of (c, n) \<Rightarrow> (c, n + 1))"

definition command_words :: "bytes \<Rightarrow> bytes list \<Rightarrow> bytes \<times> nat" where
  "command_words a as =
     (let command = take 512 a in if length command < 512 then join_words command as else (command, 0))"

text \<open>An option with an argument: exit code 1 where the argument is missing or not valid.\<close>

definition with_arg :: "bytes list \<Rightarrow> (bytes \<Rightarrow> cli_t option) \<Rightarrow> nat + cli_t \<times> nat" where
  "with_arg as f = (case as of [] \<Rightarrow> Inl 1 | a # _ \<Rightarrow> (case f a of None \<Rightarrow> Inl 1 | Some opts \<Rightarrow> Inr (opts, 1)))"

text \<open>The options from \<open>-i\<close> on, and the words that are no options.\<close>

definition client_opt_rest :: "bytes \<Rightarrow> bytes list \<Rightarrow> cli_t \<Rightarrow> nat + cli_t \<times> nat" where
  "client_opt_rest a as opts =
     (if a = ascii ''-i'' then with_arg as (\<lambda>v. Some (opts\<lparr>cli_identity_file := Some (take 1023 v)\<rparr>))
      else if a = ascii ''-w'' then with_arg as (\<lambda>v. Some (opts\<lparr>cli_password := Some (take 128 v)\<rparr>))
      else if a = ascii ''-d'' \<or> a = ascii ''-dd'' \<or> a = ascii ''-ddd'' then Inr (opts\<lparr>cli_debug := length a - 1\<rparr>, 0)
      else if a = ascii ''-T'' then Inr (opts\<lparr>cli_request_pty := False\<rparr>, 0)
      else if a = ascii ''--batch'' then Inr (opts\<lparr>cli_batch_mode := True\<rparr>, 0)
      else if a = ascii ''--strict-host-key'' then Inr (opts\<lparr>cli_strict := Some CHECK_YES\<rparr>, 0)
      else if a = ascii ''--strict-host-key-checking''
      then with_arg as (\<lambda>v. map_option (\<lambda>m. opts\<lparr>cli_strict := Some m\<rparr>) (noxssh_parse_strict_host_key_mode v))
      else if a = ascii ''--host-key-pin''
      then with_arg as (\<lambda>v. if noxssh_is_valid_hex_fingerprint v
             then Some (opts\<lparr>cli_pin := noxssh_ascii_tolower_inplace v\<rparr>) else None)
      else if a = ascii ''--known-hosts-file'' then with_arg as (\<lambda>v. Some (opts\<lparr>cli_known_hosts := Some (take 1023 v)\<rparr>))
      else if a = ascii ''--ed25519-key''
      then with_arg as (\<lambda>v. if length v \<noteq> 64 then None
             else map_option (\<lambda>k. opts\<lparr>cli_ed25519_key := Some k\<rparr>) (noxssh_hex_to_bytes v 32))
      else if a = ascii ''-h'' \<or> a = ascii ''--help'' then Inl 0
      else if a \<noteq> [] \<and> hd a = 45 then Inl 1
      else if cli_target opts = None then Inr (opts\<lparr>cli_target := Some a\<rparr>, 0)
      else if cli_command opts = None
      then (case command_words a as of (c, n) \<Rightarrow> Inr (opts\<lparr>cli_command := Some c\<rparr>, n))
      else Inr (opts, 0))"

definition client_opt :: "bytes \<Rightarrow> bytes list \<Rightarrow> cli_t \<Rightarrow> nat + cli_t \<times> nat" where
  "client_opt a as opts =
     (if a = ascii ''-p'' then with_arg as (\<lambda>v. map_option (\<lambda>p. opts\<lparr>cli_port := Some p\<rparr>) (port_number v))
      else if a = ascii ''--connect-retries''
      then with_arg as (\<lambda>v. case strtol v of
             Some (n, []) \<Rightarrow> if 0 \<le> n \<and> n \<le> 100 then Some (opts\<lparr>cli_retries := nat n\<rparr>) else None | _ \<Rightarrow> None)
      else if a = ascii ''--connect-timeout''
      then with_arg as (\<lambda>v. map_option (\<lambda>n. opts\<lparr>cli_connect_timeout_ms := Some (ucast n)\<rparr>) (number_arg 600000 v))
      else if a = ascii ''--io-timeout''
      then with_arg as (\<lambda>v. map_option (\<lambda>n. opts\<lparr>cli_io_timeout_ms := ucast n\<rparr>) (number_arg 600000 v))
      else if a = ascii ''--server-alive-interval''
      then with_arg as (\<lambda>v. map_option (\<lambda>n. opts\<lparr>cli_alive_interval_sec := Some (ucast n)\<rparr>) (number_arg 3600 v))
      else if a = ascii ''--server-alive-count-max''
      then with_arg as (\<lambda>v. map_option (\<lambda>n. opts\<lparr>cli_alive_count_max := Some (ucast n)\<rparr>) (number_arg 100 v))
      else if a = ascii ''--rekey-interval''
      then with_arg as (\<lambda>v. map_option (\<lambda>n. opts\<lparr>cli_rekey_interval_sec := Some (ucast n)\<rparr>) (number_arg 86400 v))
      else client_opt_rest a as opts)"

function client_args :: "bytes list \<Rightarrow> cli_t \<Rightarrow> nat + cli_t" where
  "client_args [] opts = Inr opts"
| "client_args (a # as) opts =
     (case client_opt a as opts of Inl code \<Rightarrow> Inl code | Inr (opts', n) \<Rightarrow> client_args (drop n as) opts')"
  by pat_completeness auto
termination
  by (relation "measure (\<lambda>(as, opts). length as)") auto

subsection \<open>The settings of a run\<close>

text \<open>User, if given, and host of the target.\<close>

definition target_parts :: "bytes \<Rightarrow> (bytes \<times> bytes) option" where
  "target_parts target =
     (if 64 \<in> set target
      then let user = takeWhile (\<lambda>c. c \<noteq> 64) target; hst = tl (dropWhile (\<lambda>c. c \<noteq> 64) target)
           in if user = [] \<or> length user > 64 \<or> hst = [] \<or> length hst > 255 then None else Some (user, hst)
      else if target = [] \<or> length target > 255 then None else Some ([], target))"

record settings =
  set_user :: bytes
  set_host :: bytes
  set_port :: u16
  set_strict :: hostkey_check
  set_batch_mode :: bool
  set_connect_timeout_ms :: u32
  set_alive_interval_sec :: u32
  set_alive_count_max :: u32
  set_rekey_interval_sec :: u32
  set_identity_file :: "bytes option"
  set_known_hosts :: bytes

fun or_else :: "'a option \<Rightarrow> 'a option \<Rightarrow> 'a \<Rightarrow> 'a" where
  "or_else (Some a) b d = a"
| "or_else None (Some b) d = b"
| "or_else None None d = d"

definition client_settings :: "cli_t \<Rightarrow> noxssh_ssh_config_t \<Rightarrow> bytes \<Rightarrow> bytes \<Rightarrow> settings" where
  "client_settings opts cfg target_user host_alias =
     \<lparr>set_user = (if target_user \<noteq> [] then target_user else case cfg_user cfg of Some u \<Rightarrow> u | None \<Rightarrow> ascii ''user''),
      set_host = (case cfg_host_name cfg of Some h \<Rightarrow> h | None \<Rightarrow> host_alias),
      set_port = or_else (cli_port opts) (cfg_port cfg) 22,
      set_strict = or_else (cli_strict opts) (cfg_strict_host_key_checking cfg) CHECK_ASK,
      set_batch_mode = (cli_batch_mode opts \<or> cfg_batch_mode cfg = Some True),
      set_connect_timeout_ms = or_else (cli_connect_timeout_ms opts) (cfg_connect_timeout_ms cfg) 0,
      set_alive_interval_sec = or_else (cli_alive_interval_sec opts) (cfg_server_alive_interval_sec cfg) 0,
      set_alive_count_max = or_else (cli_alive_count_max opts) (cfg_server_alive_count_max cfg) 3,
      set_rekey_interval_sec = or_else (cli_rekey_interval_sec opts) (cfg_rekey_interval_sec cfg) 0,
      set_identity_file = (case cli_identity_file opts of
          Some p \<Rightarrow> Some p
        | None \<Rightarrow> if cli_ed25519_key opts = None then cfg_identity_file cfg else None),
      set_known_hosts = or_else (cli_known_hosts opts) (cfg_user_known_hosts_file cfg) []\<rparr>"

text \<open>From the arguments to the settings, or the exit code.\<close>

definition client_setup :: "bytes list \<Rightarrow> bytes option \<Rightarrow> (bytes \<Rightarrow> bytes option) \<Rightarrow> nat + cli_t \<times> settings" where
  "client_setup args home file_at =
     (if args = [] then Inl 1
      else case client_args args no_options of
          Inl code \<Rightarrow> Inl code
        | Inr opts \<Rightarrow>
            (case Option.bind (cli_target opts) target_parts of
               None \<Rightarrow> Inl 1
             | Some (user, host_alias) \<Rightarrow>
                 Inr (opts, client_settings opts (noxssh_load_ssh_config_for_host home file_at host_alias) user host_alias)))"

section \<open>The first value counts\<close>

lemma equals_ignore_case_iff: "noxssh_ascii_equals_ignore_case a b \<longleftrightarrow> map tolower a = map tolower b"
  by (induction a b rule: noxssh_ascii_equals_ignore_case.induct) auto

text \<open>The settings of the blocks that apply to a host, in order.\<close>

fun applying :: "bytes \<Rightarrow> bool \<Rightarrow> bytes list \<Rightarrow> (bytes \<times> bytes) list" where
  "applying hst active [] = []"
| "applying hst active (l # ls) =
     (case config_line l of
        None \<Rightarrow> applying hst active ls
      | Some (key, val) \<Rightarrow>
          if is_key key ''Host'' then applying hst (noxssh_host_list_matches val hst) ls
          else if active then (key, val) # applying hst active ls
          else applying hst active ls)"

text \<open>The first of them with a given key whose value is valid.\<close>

fun first_value :: "string \<Rightarrow> (bytes \<Rightarrow> 'a option) \<Rightarrow> (bytes \<times> bytes) list \<Rightarrow> 'a option" where
  "first_value name val_of [] = None"
| "first_value name val_of ((key, v) # rest) =
     (if is_key key name then keep_first (val_of v) (first_value name val_of rest) else first_value name val_of rest)"

lemma keep_first_assoc: "keep_first (keep_first a b) c = keep_first a (keep_first b c)"
  by (cases a) simp_all

lemma keep_first_None [simp]: "keep_first a None = a"
  by (cases a) simp_all

lemma config_lines_fold:
  "config_lines home hst active ls cfg = foldl (\<lambda>c (key, v). config_setting home key v c) cfg (applying hst active ls)"
  by (induction ls arbitrary: active cfg) (auto split: option.splits)

lemma is_key_iff: "is_key key name \<longleftrightarrow> map tolower key = map tolower (ascii name)"
  by (simp add: is_key_def equals_ignore_case_iff)

text \<open>How each setting changes its field and no other.\<close>

lemma config_setting_fields:
  "cfg_host_name (config_setting home k v c) =
    (if is_key k ''HostName'' then keep_first (cfg_host_name c) ((\<lambda>v. Some (take 255 v)) v) else cfg_host_name c)"
  "cfg_user (config_setting home k v c) =
    (if is_key k ''User'' then keep_first (cfg_user c) ((\<lambda>v. Some (take 64 v)) v) else cfg_user c)"
  "cfg_port (config_setting home k v c) =
    (if is_key k ''Port'' then keep_first (cfg_port c) (port_number v) else cfg_port c)"
  "cfg_identity_file (config_setting home k v c) =
    (if is_key k ''IdentityFile'' then keep_first (cfg_identity_file c) ((\<lambda>v. Some (noxssh_expand_home_path home v 1024)) v) else cfg_identity_file c)"
  "cfg_user_known_hosts_file (config_setting home k v c) =
    (if is_key k ''UserKnownHostsFile'' then keep_first (cfg_user_known_hosts_file c) ((\<lambda>v. Some (noxssh_expand_home_path home v 1024)) v) else cfg_user_known_hosts_file c)"
  "cfg_strict_host_key_checking (config_setting home k v c) =
    (if is_key k ''StrictHostKeyChecking'' then keep_first (cfg_strict_host_key_checking c) (noxssh_parse_strict_host_key_mode v) else cfg_strict_host_key_checking c)"
  "cfg_batch_mode (config_setting home k v c) =
    (if is_key k ''BatchMode'' then keep_first (cfg_batch_mode c) ((\<lambda>v. Some (is_key v ''yes'')) v) else cfg_batch_mode c)"
  "cfg_connect_timeout_ms (config_setting home k v c) =
    (if is_key k ''ConnectTimeout'' then keep_first (cfg_connect_timeout_ms c) ((\<lambda>v. map_option (\<lambda>n. ucast n * 1000) (number_arg 600 v)) v) else cfg_connect_timeout_ms c)"
  "cfg_server_alive_interval_sec (config_setting home k v c) =
    (if is_key k ''ServerAliveInterval'' then keep_first (cfg_server_alive_interval_sec c) ((\<lambda>v. map_option ucast (number_arg 3600 v)) v) else cfg_server_alive_interval_sec c)"
  "cfg_server_alive_count_max (config_setting home k v c) =
    (if is_key k ''ServerAliveCountMax'' then keep_first (cfg_server_alive_count_max c) ((\<lambda>v. map_option ucast (number_arg 100 v)) v) else cfg_server_alive_count_max c)"
  "cfg_rekey_interval_sec (config_setting home k v c) =
    (if is_key k ''RekeyInterval'' then keep_first (cfg_rekey_interval_sec c) ((\<lambda>v. map_option ucast (number_arg 86400 v)) v) else cfg_rekey_interval_sec c)"
  unfolding config_setting_def is_key_iff by (simp_all add: ascii_def tolower_def)

lemma first_value_fold:
  assumes "\<And>k v c. f (g k v c) = (if is_key k name then keep_first (f c) (val_of v) else f c)"
  shows "f (foldl (\<lambda>c (k, v). g k v c) c ss) = keep_first (f c) (first_value name val_of ss)"
proof (induction ss arbitrary: c)
  case (Cons s ss)
  obtain k v where "s = (k, v)" by fastforce
  then show ?case by (simp add: Cons assms keep_first_assoc)
qed simp

lemmas config_fields_fold = config_setting_fields [THEN first_value_fold]

lemma no_config_fields [simp]:
  "cfg_host_name no_config = None" "cfg_user no_config = None" "cfg_port no_config = None" "cfg_identity_file no_config = None"
  "cfg_user_known_hosts_file no_config = None" "cfg_strict_host_key_checking no_config = None" "cfg_batch_mode no_config = None"
  "cfg_connect_timeout_ms no_config = None" "cfg_server_alive_interval_sec no_config = None"
  "cfg_server_alive_count_max no_config = None" "cfg_rekey_interval_sec no_config = None"
  by (simp_all add: no_config_def)

section \<open>The last option counts\<close>

text \<open>What is given on the command line, as pairs of an option and its argument, in order: the options that have an argument
  take the next word, the other words with a hyphen stand alone. The first word that is no option is the target, the
  second starts the command and takes the words that are joined to it, later ones are ignored; \<open>k\<close> counts them.\<close>

definition value_options :: "string list" where
  "value_options = [''-p'', ''--connect-retries'', ''--connect-timeout'', ''--io-timeout'', ''--server-alive-interval'',
     ''--server-alive-count-max'', ''--rekey-interval'', ''-i'', ''-w'', ''--strict-host-key-checking'', ''--host-key-pin'',
     ''--known-hosts-file'', ''--ed25519-key'']"

function given :: "nat \<Rightarrow> bytes list \<Rightarrow> (bytes \<times> bytes) list" where
  "given k [] = []"
| "given k (a # as) =
     (if a \<in> set (map ascii value_options) then (case as of [] \<Rightarrow> [] | v # vs \<Rightarrow> (a, v) # given k vs)
      else if a \<noteq> [] \<and> hd a = 45 then (a, []) # given k as
      else if k = 0 then (ascii ''target'', a) # given 1 as
      else if k = 1 then (ascii ''command'', a) # given 2 (drop (snd (command_words a as)) as)
      else given k as)"
  by pat_completeness auto
termination
  by (relation "measure (\<lambda>(k, as). length as)") auto

text \<open>The last of them that is a given option.\<close>

fun last_of :: "(bytes \<Rightarrow> bytes \<Rightarrow> 'a option) \<Rightarrow> (bytes \<times> bytes) list \<Rightarrow> 'a option" where
  "last_of f [] = None"
| "last_of f ((a, v) # gs) = keep_first (last_of f gs) (f a v)"

definition arg :: "string \<Rightarrow> (bytes \<Rightarrow> 'a option) \<Rightarrow> bytes \<Rightarrow> bytes \<Rightarrow> 'a option" where
  "arg name val_of a v = (if a = ascii name then val_of v else None)"

definition strict_arg :: "bytes \<Rightarrow> bytes \<Rightarrow> hostkey_check option" where
  "strict_arg a v = keep_first (arg ''--strict-host-key'' (\<lambda>_. Some CHECK_YES) a v)
     (arg ''--strict-host-key-checking'' noxssh_parse_strict_host_key_mode a v)"

definition words_seen :: "cli_t \<Rightarrow> nat" where
  "words_seen opts = (if cli_target opts = None then 0 else if cli_command opts = None then 1 else 2)"

lemma with_arg_Inr: "with_arg as f = Inr (opts', n) \<longleftrightarrow> (\<exists>v vs. as = v # vs \<and> f v = Some opts' \<and> n = 1)"
  by (auto simp: with_arg_def split: list.splits option.splits)

lemma ascii_inj [simp]: "ascii s = ascii t \<longleftrightarrow> s = t"
proof -
  have "unat (of_char c :: byte) = of_char c" for c
    by (simp add: of_char_def)
  then have "inj (of_char :: char \<Rightarrow> byte)" by (metis injI of_char_eq_iff)
  then show ?thesis by (simp add: ascii_def inj_map_eq_map)
qed

lemma retries_iff:
  "(case strtol v of Some (n, []) \<Rightarrow> if 0 \<le> n \<and> n \<le> 100 then Some (f n) else None | _ \<Rightarrow> None) = Some x \<longleftrightarrow>
   (\<exists>n. strtol v = Some (n, []) \<and> 0 \<le> n \<and> n \<le> 100 \<and> x = f n)"
  by (auto split: option.splits list.splits)

definition flag_options :: "string list" where
  "flag_options = [''-d'', ''-dd'', ''-ddd'', ''-T'', ''--batch'', ''--strict-host-key'']"

text \<open>What an option with the argument \<open>v\<close> changes.\<close>

definition option_given :: "cli_t \<Rightarrow> bytes \<Rightarrow> bytes \<Rightarrow> cli_t \<Rightarrow> bool" where
  "option_given opts a v opts' \<longleftrightarrow>
     cli_target opts' = cli_target opts \<and> cli_command opts' = cli_command opts \<and>
     cli_port opts' = keep_first (arg ''-p'' port_number a v) (cli_port opts) \<and>
     cli_strict opts' = keep_first (strict_arg a v) (cli_strict opts) \<and>
     cli_batch_mode opts' = (a = ascii ''--batch'' \<or> cli_batch_mode opts) \<and>
     cli_known_hosts opts' = keep_first (arg ''--known-hosts-file'' (\<lambda>v. Some (take 1023 v)) a v) (cli_known_hosts opts) \<and>
     cli_connect_timeout_ms opts' =
       keep_first (arg ''--connect-timeout'' (\<lambda>v. map_option ucast (number_arg 600000 v)) a v) (cli_connect_timeout_ms opts) \<and>
     cli_alive_interval_sec opts' =
       keep_first (arg ''--server-alive-interval'' (\<lambda>v. map_option ucast (number_arg 3600 v)) a v) (cli_alive_interval_sec opts) \<and>
     cli_alive_count_max opts' =
       keep_first (arg ''--server-alive-count-max'' (\<lambda>v. map_option ucast (number_arg 100 v)) a v) (cli_alive_count_max opts) \<and>
     cli_rekey_interval_sec opts' =
       keep_first (arg ''--rekey-interval'' (\<lambda>v. map_option ucast (number_arg 86400 v)) a v) (cli_rekey_interval_sec opts) \<and>
     cli_identity_file opts' = keep_first (arg ''-i'' (\<lambda>v. Some (take 1023 v)) a v) (cli_identity_file opts) \<and>
     cli_ed25519_key opts' = keep_first (arg ''--ed25519-key'' (\<lambda>v. noxssh_hex_to_bytes v 32) a v) (cli_ed25519_key opts)"

lemmas option_given_defs = option_given_def arg_def strict_arg_def

lemma client_opt_flags:
  "client_opt (ascii ''-d'') as opts = Inr (opts\<lparr>cli_debug := 1\<rparr>, 0)"
  "client_opt (ascii ''-dd'') as opts = Inr (opts\<lparr>cli_debug := 2\<rparr>, 0)"
  "client_opt (ascii ''-ddd'') as opts = Inr (opts\<lparr>cli_debug := 3\<rparr>, 0)"
  "client_opt (ascii ''-T'') as opts = Inr (opts\<lparr>cli_request_pty := False\<rparr>, 0)"
  "client_opt (ascii ''--batch'') as opts = Inr (opts\<lparr>cli_batch_mode := True\<rparr>, 0)"
  "client_opt (ascii ''--strict-host-key'') as opts = Inr (opts\<lparr>cli_strict := Some CHECK_YES\<rparr>, 0)"
  by (simp_all add: client_opt_def client_opt_rest_def)

lemma given_flags:
  "option_given opts (ascii ''-d'') [] (opts\<lparr>cli_debug := 1\<rparr>)"
  "option_given opts (ascii ''-dd'') [] (opts\<lparr>cli_debug := 2\<rparr>)"
  "option_given opts (ascii ''-ddd'') [] (opts\<lparr>cli_debug := 3\<rparr>)"
  "option_given opts (ascii ''-T'') [] (opts\<lparr>cli_request_pty := False\<rparr>)"
  "option_given opts (ascii ''--batch'') [] (opts\<lparr>cli_batch_mode := True\<rparr>)"
  "option_given opts (ascii ''--strict-host-key'') [] (opts\<lparr>cli_strict := Some CHECK_YES\<rparr>)"
  by (simp_all add: option_given_defs)

lemma client_opt_flag:
  assumes "client_opt a as opts = Inr (opts', n)" "a \<in> set (map ascii flag_options)"
  shows "n = 0 \<and> option_given opts a [] opts'"
  using assms by (auto simp: flag_options_def client_opt_flags given_flags simp del: One_nat_def)

lemma client_opt_known:
  assumes "client_opt a as opts = Inr (opts', n)" "a \<noteq> []" "hd a = 45"
  shows "a \<in> set (map ascii value_options) \<union> set (map ascii flag_options)"
proof (rule ccontr)
  assume "a \<notin> set (map ascii value_options) \<union> set (map ascii flag_options)"
  then have "client_opt a as opts = Inl (if a = ascii ''-h'' \<or> a = ascii ''--help'' then 0 else 1)"
    unfolding client_opt_def client_opt_rest_def value_options_def flag_options_def using assms(2,3) by simp
  then show False using assms(1) by simp
qed

lemma client_opt_values:
  "client_opt (ascii ''-p'') as opts = with_arg as (\<lambda>v. map_option (\<lambda>p. opts\<lparr>cli_port := Some p\<rparr>) (port_number v))"
  "client_opt (ascii ''--connect-retries'') as opts = with_arg as (\<lambda>v. case strtol v of
     Some (n, []) \<Rightarrow> if 0 \<le> n \<and> n \<le> 100 then Some (opts\<lparr>cli_retries := nat n\<rparr>) else None | _ \<Rightarrow> None)"
  "client_opt (ascii ''--connect-timeout'') as opts =
     with_arg as (\<lambda>v. map_option (\<lambda>n. opts\<lparr>cli_connect_timeout_ms := Some (ucast n)\<rparr>) (number_arg 600000 v))"
  "client_opt (ascii ''--io-timeout'') as opts =
     with_arg as (\<lambda>v. map_option (\<lambda>n. opts\<lparr>cli_io_timeout_ms := ucast n\<rparr>) (number_arg 600000 v))"
  "client_opt (ascii ''--server-alive-interval'') as opts =
     with_arg as (\<lambda>v. map_option (\<lambda>n. opts\<lparr>cli_alive_interval_sec := Some (ucast n)\<rparr>) (number_arg 3600 v))"
  "client_opt (ascii ''--server-alive-count-max'') as opts =
     with_arg as (\<lambda>v. map_option (\<lambda>n. opts\<lparr>cli_alive_count_max := Some (ucast n)\<rparr>) (number_arg 100 v))"
  "client_opt (ascii ''--rekey-interval'') as opts =
     with_arg as (\<lambda>v. map_option (\<lambda>n. opts\<lparr>cli_rekey_interval_sec := Some (ucast n)\<rparr>) (number_arg 86400 v))"
  "client_opt (ascii ''-i'') as opts = with_arg as (\<lambda>v. Some (opts\<lparr>cli_identity_file := Some (take 1023 v)\<rparr>))"
  "client_opt (ascii ''-w'') as opts = with_arg as (\<lambda>v. Some (opts\<lparr>cli_password := Some (take 128 v)\<rparr>))"
  "client_opt (ascii ''--strict-host-key-checking'') as opts =
     with_arg as (\<lambda>v. map_option (\<lambda>m. opts\<lparr>cli_strict := Some m\<rparr>) (noxssh_parse_strict_host_key_mode v))"
  "client_opt (ascii ''--host-key-pin'') as opts = with_arg as (\<lambda>v. if noxssh_is_valid_hex_fingerprint v
     then Some (opts\<lparr>cli_pin := noxssh_ascii_tolower_inplace v\<rparr>) else None)"
  "client_opt (ascii ''--known-hosts-file'') as opts = with_arg as (\<lambda>v. Some (opts\<lparr>cli_known_hosts := Some (take 1023 v)\<rparr>))"
  "client_opt (ascii ''--ed25519-key'') as opts = with_arg as (\<lambda>v. if length v \<noteq> 64 then None
     else map_option (\<lambda>k. opts\<lparr>cli_ed25519_key := Some k\<rparr>) (noxssh_hex_to_bytes v 32))"
  by (simp_all add: client_opt_def client_opt_rest_def)

lemma given_values:
  "port_number v = Some p \<Longrightarrow> option_given opts (ascii ''-p'') v (opts\<lparr>cli_port := Some p\<rparr>)"
  "option_given opts (ascii ''--connect-retries'') v (opts\<lparr>cli_retries := k\<rparr>)"
  "number_arg 600000 v = Some n \<Longrightarrow>
    option_given opts (ascii ''--connect-timeout'') v (opts\<lparr>cli_connect_timeout_ms := Some (ucast n)\<rparr>)"
  "option_given opts (ascii ''--io-timeout'') v (opts\<lparr>cli_io_timeout_ms := t\<rparr>)"
  "number_arg 3600 v = Some n \<Longrightarrow>
    option_given opts (ascii ''--server-alive-interval'') v (opts\<lparr>cli_alive_interval_sec := Some (ucast n)\<rparr>)"
  "number_arg 100 v = Some n \<Longrightarrow>
    option_given opts (ascii ''--server-alive-count-max'') v (opts\<lparr>cli_alive_count_max := Some (ucast n)\<rparr>)"
  "number_arg 86400 v = Some n \<Longrightarrow>
    option_given opts (ascii ''--rekey-interval'') v (opts\<lparr>cli_rekey_interval_sec := Some (ucast n)\<rparr>)"
  "option_given opts (ascii ''-i'') v (opts\<lparr>cli_identity_file := Some (take 1023 v)\<rparr>)"
  "option_given opts (ascii ''-w'') v (opts\<lparr>cli_password := pw\<rparr>)"
  "noxssh_parse_strict_host_key_mode v = Some m \<Longrightarrow>
    option_given opts (ascii ''--strict-host-key-checking'') v (opts\<lparr>cli_strict := Some m\<rparr>)"
  "option_given opts (ascii ''--host-key-pin'') v (opts\<lparr>cli_pin := p'\<rparr>)"
  "option_given opts (ascii ''--known-hosts-file'') v (opts\<lparr>cli_known_hosts := Some (take 1023 v)\<rparr>)"
  "noxssh_hex_to_bytes v 32 = Some key \<Longrightarrow>
    option_given opts (ascii ''--ed25519-key'') v (opts\<lparr>cli_ed25519_key := Some key\<rparr>)"
  by (simp_all add: option_given_defs)

lemma client_opt_value:
  assumes "client_opt a as opts = Inr (opts', n)" "a \<in> set (map ascii value_options)"
  shows "n = 1 \<and> as \<noteq> [] \<and> option_given opts a (hd as) opts'"
  using assms unfolding value_options_def
  by (auto simp: client_opt_values with_arg_Inr retries_iff given_values split: if_splits)

lemma no_option:
  assumes "a = [] \<or> hd a \<noteq> 45"
  shows "a \<notin> set (map ascii value_options) \<union> set (map ascii flag_options) \<union> {ascii ''-h'', ascii ''--help''}"
  using assms by (auto simp: value_options_def flag_options_def ascii_def)

lemma word_is_no_option:
  assumes "a = [] \<or> hd a \<noteq> 45"
  shows "a \<noteq> ascii ''-p''" "a \<noteq> ascii ''--connect-retries''" "a \<noteq> ascii ''--connect-timeout''" "a \<noteq> ascii ''--io-timeout''"
   "a \<noteq> ascii ''--server-alive-interval''" "a \<noteq> ascii ''--server-alive-count-max''" "a \<noteq> ascii ''--rekey-interval''"
   "a \<noteq> ascii ''-i''" "a \<noteq> ascii ''-w''" "a \<noteq> ascii ''-d''" "a \<noteq> ascii ''-dd''" "a \<noteq> ascii ''-ddd''" "a \<noteq> ascii ''-T''"
   "a \<noteq> ascii ''--batch''" "a \<noteq> ascii ''--strict-host-key''" "a \<noteq> ascii ''--strict-host-key-checking''"
   "a \<noteq> ascii ''--host-key-pin''" "a \<noteq> ascii ''--known-hosts-file''" "a \<noteq> ascii ''--ed25519-key''" "a \<noteq> ascii ''-h''"
   "a \<noteq> ascii ''--help''"
  using no_option [OF assms] by (simp_all add: value_options_def flag_options_def)

lemma client_opt_word:
  assumes "client_opt a as opts = Inr (opts', n)" "a = [] \<or> hd a \<noteq> 45"
  shows "opts' = (if words_seen opts = 0 then opts\<lparr>cli_target := Some a\<rparr>
      else if words_seen opts = 1 then opts\<lparr>cli_command := Some (fst (command_words a as))\<rparr> else opts) \<and>
    n = (if words_seen opts = 1 then snd (command_words a as) else 0)"
proof -
  have dash: "(a \<noteq> [] \<and> hd a = 45) = False" using assms(2) by blast
  have "client_opt a as opts = client_opt_rest a as opts"
    unfolding client_opt_def by (simp only: word_is_no_option [OF assms(2)] if_False)
  also have "\<dots> = (if a \<noteq> [] \<and> hd a = 45 then Inl 1
       else if cli_target opts = None then Inr (opts\<lparr>cli_target := Some a\<rparr>, 0)
       else if cli_command opts = None
       then (case command_words a as of (c, n) \<Rightarrow> Inr (opts\<lparr>cli_command := Some c\<rparr>, n))
       else Inr (opts, 0))"
    unfolding client_opt_rest_def by (simp only: word_is_no_option [OF assms(2)] if_False simp_thms)
  finally have "Inr (opts', n) = (if cli_target opts = None then Inr (opts\<lparr>cli_target := Some a\<rparr>, 0)
       else if cli_command opts = None
       then (case command_words a as of (c, n) \<Rightarrow> Inr (opts\<lparr>cli_command := Some c\<rparr>, n))
       else Inr (opts, 0) :: nat + cli_t \<times> nat)" unfolding dash if_False assms(1) .
  then show ?thesis
    by (cases "cli_target opts"; cases "cli_command opts"; simp add: words_seen_def split: prod.splits)
qed

lemma given_option:
  assumes "client_opt a as opts = Inr (opts', n)" "a \<noteq> []" "hd a = 45"
  shows "\<exists>v. given (words_seen opts) (a # as) = (a, v) # given (words_seen opts') (drop n as) \<and> option_given opts a v opts'"
proof (cases "a \<in> set (map ascii value_options)")
  case True
  then obtain v vs where "n = 1" "as = v # vs" "option_given opts a v opts'"
    using client_opt_value [OF assms(1)] by (cases as) auto
  then show ?thesis using True by (auto simp: option_given_def words_seen_def)
next
  case False
  then have "n = 0" "option_given opts a [] opts'" using client_opt_flag [OF assms(1)] client_opt_known [OF assms] by blast+
  then show ?thesis using False assms(2,3) by (auto simp: option_given_def words_seen_def)
qed

lemma given_word:
  assumes "client_opt a as opts = Inr (opts', n)" "a = [] \<or> hd a \<noteq> 45" "cli_target opts = None \<longrightarrow> cli_command opts = None"
  shows "given (words_seen opts) (a # as) =
    (if words_seen opts = 0 then [(ascii ''target'', a)] else if words_seen opts = 1 then [(ascii ''command'', a)] else []) @
    given (words_seen opts') (drop n as)"
proof -
  have v: "a \<notin> set (map ascii value_options)" using no_option [OF assms(2)] by blast
  have "words_seen opts' = (if words_seen opts = 0 then 1 else 2)"
    using client_opt_word [OF assms(1,2)] assms(3) by (auto simp: words_seen_def)
  then show ?thesis using v assms(2) client_opt_word [OF assms(1,2)] by (auto simp: words_seen_def split: if_splits)
qed

text \<open>What all that is given changes.\<close>

definition all_given :: "cli_t \<Rightarrow> (bytes \<times> bytes) list \<Rightarrow> cli_t \<Rightarrow> bool" where
  "all_given opts gs opts' \<longleftrightarrow>
     cli_target opts' = keep_first (cli_target opts) (map_of gs (ascii ''target'')) \<and>
     cli_port opts' = keep_first (last_of (arg ''-p'' port_number) gs) (cli_port opts) \<and>
     cli_strict opts' = keep_first (last_of strict_arg gs) (cli_strict opts) \<and>
     cli_batch_mode opts' = (map_of gs (ascii ''--batch'') \<noteq> None \<or> cli_batch_mode opts) \<and>
     cli_known_hosts opts' = keep_first (last_of (arg ''--known-hosts-file'' (\<lambda>v. Some (take 1023 v))) gs) (cli_known_hosts opts) \<and>
     cli_connect_timeout_ms opts' =
       keep_first (last_of (arg ''--connect-timeout'' (\<lambda>v. map_option ucast (number_arg 600000 v))) gs) (cli_connect_timeout_ms opts) \<and>
     cli_alive_interval_sec opts' =
       keep_first (last_of (arg ''--server-alive-interval'' (\<lambda>v. map_option ucast (number_arg 3600 v))) gs) (cli_alive_interval_sec opts) \<and>
     cli_alive_count_max opts' =
       keep_first (last_of (arg ''--server-alive-count-max'' (\<lambda>v. map_option ucast (number_arg 100 v))) gs) (cli_alive_count_max opts) \<and>
     cli_rekey_interval_sec opts' =
       keep_first (last_of (arg ''--rekey-interval'' (\<lambda>v. map_option ucast (number_arg 86400 v))) gs) (cli_rekey_interval_sec opts) \<and>
     cli_identity_file opts' = keep_first (last_of (arg ''-i'' (\<lambda>v. Some (take 1023 v))) gs) (cli_identity_file opts) \<and>
     cli_ed25519_key opts' =
       keep_first (last_of (arg ''--ed25519-key'' (\<lambda>v. noxssh_hex_to_bytes v 32)) gs) (cli_ed25519_key opts)"

lemma all_given_Nil: "all_given opts [] opts"
  by (simp add: all_given_def)

lemma all_given_option:
  assumes "option_given opts a v opts1" "all_given opts1 gs opts'" "a \<noteq> ascii ''target''"
  shows "all_given opts ((a, v) # gs) opts'"
  using assms by (auto simp: all_given_def option_given_def keep_first_assoc)

lemma all_given_word:
  assumes "opts1 = (if words_seen opts = 0 then opts\<lparr>cli_target := Some a\<rparr>
      else if words_seen opts = 1 then opts\<lparr>cli_command := c\<rparr> else opts)" "all_given opts1 gs opts'"
  shows "all_given opts ((if words_seen opts = 0 then [(ascii ''target'', a)]
      else if words_seen opts = 1 then [(ascii ''command'', a)] else []) @ gs) opts'"
  using assms by (auto simp: all_given_def arg_def strict_arg_def words_seen_def)

lemma client_args_given:
  "client_args as opts = Inr opts' \<Longrightarrow> cli_target opts = None \<longrightarrow> cli_command opts = None \<Longrightarrow>
    all_given opts (given (words_seen opts) as) opts'"
proof (induction as opts rule: client_args.induct)
  case (1 opts)
  then show ?case by (simp add: all_given_Nil)
next
  case (2 a as opts)
  obtain opts1 n where one: "client_opt a as opts = Inr (opts1, n)" and more: "client_args (drop n as) opts1 = Inr opts'"
    using "2.prems"(1) by (auto split: sum.splits)
  have IH: "cli_target opts1 = None \<longrightarrow> cli_command opts1 = None \<Longrightarrow> all_given opts1 (given (words_seen opts1) (drop n as)) opts'"
    using "2.IH" [OF one refl more] .
  show ?case
  proof (cases "a \<noteq> [] \<and> hd a = 45")
    case True
    then obtain v where g: "given (words_seen opts) (a # as) = (a, v) # given (words_seen opts1) (drop n as)"
      and o1: "option_given opts a v opts1" using given_option [OF one] by blast
    have "a \<noteq> ascii ''target''" using True by (auto simp: ascii_def)
    moreover have "cli_target opts1 = None \<longrightarrow> cli_command opts1 = None"
      using o1 "2.prems"(2) by (simp add: option_given_def)
    ultimately show ?thesis using all_given_option [OF o1 IH] g by simp
  next
    case False
    then have w: "a = [] \<or> hd a \<noteq> 45" by blast
    have "cli_target opts1 = None \<longrightarrow> cli_command opts1 = None"
      using client_opt_word [OF one w, THEN conjunct1] "2.prems"(2) by (auto simp: words_seen_def)
    then show ?thesis
      unfolding given_word [OF one w "2.prems"(2)] using all_given_word [OF client_opt_word [OF one w, THEN conjunct1] IH] by simp
  qed
qed

text \<open>The text of the configuration file, empty where there is none.\<close>

definition config_text :: "bytes option \<Rightarrow> (bytes \<Rightarrow> bytes option) \<Rightarrow> bytes" where
  "config_text home file_at =
     (case Option.bind (noxssh_get_home_dir home 1024) (\<lambda>h. file_at (take 1023 (h @ ascii ''/.ssh/config''))) of
        None \<Rightarrow> [] | Some content \<Rightarrow> content)"

lemma load_config_text:
  "noxssh_load_ssh_config_for_host home file_at host_alias =
    foldl (\<lambda>c (k, v). config_setting home k v c) no_config (applying host_alias False (fgets_lines 1023 (config_text home file_at)))"
  by (simp add: noxssh_load_ssh_config_for_host_def config_text_def config_lines_fold split: option.split)

section \<open>Properties\<close>

text \<open>C22: Precedence of the settings. Where the program gets to its settings, the command line has a target with a host
  as the user typed it. Each of the eleven settings is what the last option for it on the command line says; else the
  first valid value of its key among the blocks of \<open>~/.ssh/config\<close>, if there is such a file, whose host patterns apply
  to that host; else the default. The exceptions are as in the code: batch mode is on if either says so; the user name is
  in the target, and the host name of the file replaces the typed one; and the file's identity is left aside where a key
  is on the command line itself.\<close>

theorem settings_precedence:
  assumes "client_setup args home file_at = Inr (opts, st)" and "gs = given 0 args"
  shows "case Option.bind (map_of gs (ascii ''target'')) target_parts of None \<Rightarrow> False | Some (user, host_alias) \<Rightarrow>
    (let ss = applying host_alias False (fgets_lines 1023 (config_text home file_at)) in
    set_port st = or_else (last_of (arg ''-p'' port_number) gs) (first_value ''Port'' port_number ss) 22 \<and>
    set_strict st = or_else (last_of strict_arg gs)
      (first_value ''StrictHostKeyChecking'' noxssh_parse_strict_host_key_mode ss) CHECK_ASK \<and>
    set_batch_mode st = (map_of gs (ascii ''--batch'') \<noteq> None \<or>
      first_value ''BatchMode'' (\<lambda>v. Some (is_key v ''yes'')) ss = Some True) \<and>
    set_user st = or_else (if user = [] then None else Some user) (first_value ''User'' (\<lambda>v. Some (take 64 v)) ss) (ascii ''user'') \<and>
    set_host st = or_else None (first_value ''HostName'' (\<lambda>v. Some (take 255 v)) ss) host_alias \<and>
    set_known_hosts st = or_else (last_of (arg ''--known-hosts-file'' (\<lambda>v. Some (take 1023 v))) gs)
      (first_value ''UserKnownHostsFile'' (\<lambda>v. Some (noxssh_expand_home_path home v 1024)) ss) [] \<and>
    set_connect_timeout_ms st = or_else (last_of (arg ''--connect-timeout'' (\<lambda>v. map_option ucast (number_arg 600000 v))) gs)
      (first_value ''ConnectTimeout'' (\<lambda>v. map_option (\<lambda>n. ucast n * 1000) (number_arg 600 v)) ss) 0 \<and>
    set_alive_interval_sec st = or_else (last_of (arg ''--server-alive-interval'' (\<lambda>v. map_option ucast (number_arg 3600 v))) gs)
      (first_value ''ServerAliveInterval'' (\<lambda>v. map_option ucast (number_arg 3600 v)) ss) 0 \<and>
    set_alive_count_max st = or_else (last_of (arg ''--server-alive-count-max'' (\<lambda>v. map_option ucast (number_arg 100 v))) gs)
      (first_value ''ServerAliveCountMax'' (\<lambda>v. map_option ucast (number_arg 100 v)) ss) 3 \<and>
    set_rekey_interval_sec st = or_else (last_of (arg ''--rekey-interval'' (\<lambda>v. map_option ucast (number_arg 86400 v))) gs)
      (first_value ''RekeyInterval'' (\<lambda>v. map_option ucast (number_arg 86400 v)) ss) 0 \<and>
    set_identity_file st = (case last_of (arg ''-i'' (\<lambda>v. Some (take 1023 v))) gs of Some p \<Rightarrow> Some p
      | None \<Rightarrow> if last_of (arg ''--ed25519-key'' (\<lambda>v. noxssh_hex_to_bytes v 32)) gs \<noteq> None then None
        else first_value ''IdentityFile'' (\<lambda>v. Some (noxssh_expand_home_path home v 1024)) ss))"
proof -
  obtain user host_alias where run: "client_args args no_options = Inr opts"
    and target: "Option.bind (cli_target opts) target_parts = Some (user, host_alias)"
    and st: "st = client_settings opts (noxssh_load_ssh_config_for_host home file_at host_alias) user host_alias"
    using assms(1) by (auto simp: client_setup_def split: if_splits sum.splits option.splits)
  have "all_given no_options gs opts"
    using client_args_given [OF run] assms(2) by (simp add: words_seen_def no_options_def)
  note given = this [unfolded all_given_def, simplified no_options_def, simplified]
  have parts: "Option.bind (map_of gs (ascii ''target'')) target_parts = Some (user, host_alias)"
    using target given by simp
  show ?thesis
    unfolding parts option.case prod.case Let_def st load_config_text
    by (intro conjI; auto simp: client_settings_def config_fields_fold given split: option.split)
qed

definition sample_config :: bytes where
  "sample_config = ascii ''Host *.org !bad.org'' @ [10] @ ascii ''  port 2200'' @ [10] @ ascii ''Port 23'' @ [10] @
     ascii ''Host *'' @ [10] @ ascii ''User=alice'' @ [10]"

definition sample_options :: cli_t where
  "sample_options = no_options\<lparr>cli_port := Some 99, cli_target := Some (ascii ''a.org'')\<rparr>"

lemma sample_args: "client_args [ascii ''-p'', ascii ''99'', ascii ''a.org''] no_options = Inr sample_options"
proof -
  have "strtoul (ascii ''99'') = Some (99, [])"
    by (simp add: strtoul_def ascii_def is_space_def is_digit_def dec_value_def word_le_nat_alt)
  then have "port_number (ascii ''99'') = Some 99" by (simp add: port_number_def number_arg_def word_le_nat_alt)
  then show ?thesis by (simp add: client_opt_def client_opt_rest_def with_arg_def sample_options_def no_options_def ascii_def)
qed

lemma sample_applying:
  "applying (ascii ''a.org'') False (fgets_lines 1023 sample_config) =
     [(ascii ''port'', ascii ''2200''), (ascii ''Port'', ascii ''23''), (ascii ''User'', ascii ''alice'')]"
  by code_simp

lemma sample_given: "given 0 [ascii ''-p'', ascii ''99'', ascii ''a.org''] = [(ascii ''-p'', ascii ''99''), (ascii ''target'', ascii ''a.org'')]"
  by code_simp

lemma sample_port: "port_number (ascii ''99'') = Some 99"
proof -
  have "strtoul (ascii ''99'') = Some (99, [])"
    by (simp add: strtoul_def ascii_def is_space_def is_digit_def dec_value_def word_le_nat_alt)
  then show ?thesis by (simp add: port_number_def number_arg_def word_le_nat_alt)
qed

theorem settings_precedence_witness:
  "(case client_setup [ascii ''-p'', ascii ''99'', ascii ''a.org''] (Some (ascii ''/h'')) (\<lambda>p. Some sample_config) of
      Inr (opts, st) \<Rightarrow> set_port st = 99 \<and> set_user st = ascii ''alice'' \<and> set_strict st = CHECK_ASK | Inl _ \<Rightarrow> False)"
proof -
  let ?files = "\<lambda>p. Some sample_config"
  have parts: "target_parts (ascii ''a.org'') = Some ([], ascii ''a.org'')" by code_simp
  have conf: "config_text (Some (ascii ''/h'')) ?files = sample_config" by code_simp
  have opts: "cli_target sample_options = Some (ascii ''a.org'')" by (simp add: sample_options_def no_options_def)
  obtain st where run: "client_setup [ascii ''-p'', ascii ''99'', ascii ''a.org''] (Some (ascii ''/h'')) ?files = Inr (sample_options, st)"
    by (simp add: client_setup_def sample_args opts parts del: client_args.simps)
  have "set_port st = 99 \<and> set_user st = ascii ''alice'' \<and> set_strict st = CHECK_ASK"
    using settings_precedence [OF run sample_given [symmetric], unfolded conf]
    by (simp add: parts Let_def sample_applying arg_def strict_arg_def sample_port is_key_iff, simp add: ascii_def tolower_def)
  then show ?thesis by (simp add: run)
qed

end
