(* ===== verification/Nox_Sockets.thy ===== *)
theory Nox_Sockets
  imports Nox_Prelude
begin

text \<open>
  The sockets of the two programs: connecting the client with a timeout and retries (\<open>client/main.c\<close>) and opening the
  listening socket of the daemon (\<open>server/daemon_runtime.c\<close>). \<open>net\<close> is the process's table of descriptors with what
  the system calls return, in the order of the calls. Whatever they return, no descriptor is left behind.
\<close>

section \<open>Definitions\<close>

text \<open>\<open>Connect_pending\<close> is \<open>EINPROGRESS\<close>. An address is a number.\<close>

datatype connect_t = Connect_done | Connect_pending | Connect_failed

record sock_t =
  sock_nonblock :: bool
  sock_peer :: "nat option"
  sock_addr :: "nat option"
  sock_listens :: bool

record net =
  socks :: "nat \<Rightarrow> sock_t option"
  calls :: nat
  net_getaddrinfo :: "nat \<Rightarrow> nat list"
  net_socket :: "nat \<Rightarrow> nat option"
  net_fcntl :: "nat \<Rightarrow> bool"
  net_connect :: "nat \<Rightarrow> connect_t"
  net_select :: "nat \<Rightarrow> bool"
  net_ok :: "nat \<Rightarrow> bool"

text \<open>The result of the next system call; \<open>net_ok\<close> for calls that return 0 or fail.\<close>

definition sysM :: "(net \<Rightarrow> nat \<Rightarrow> 'a) \<Rightarrow> (net, 'a) prog" where
  "sysM result n = (Ok (result n (calls n)), n\<lparr>calls := calls n + 1\<rparr>)"

definition on_sock :: "nat \<Rightarrow> (sock_t \<Rightarrow> sock_t) \<Rightarrow> net \<Rightarrow> net" where
  "on_sock fd f n = n\<lparr>socks := (socks n)(fd := map_option f (socks n fd))\<rparr>"

text \<open>\<open>socket\<close> never returns a descriptor that is open.\<close>

definition sys_socket :: "(net, nat option) prog" where
  "sys_socket =
     bindM (sysM net_socket) (\<lambda>r.
     case r of
       None \<Rightarrow> retM None
     | Some fd \<Rightarrow>
         ifM (\<lambda>n. socks n fd \<noteq> None) (retM None)
           (bindM (setM (\<lambda>n. n\<lparr>socks := (socks n)(fd \<mapsto>
              \<lparr>sock_nonblock = False, sock_peer = None, sock_addr = None, sock_listens = False\<rparr>)\<rparr>)) (\<lambda>_. retM (Some fd))))"

definition sys_close :: "nat \<Rightarrow> (net, unit) prog" where
  "sys_close fd = setM (\<lambda>n. n\<lparr>socks := (socks n)(fd := None)\<rparr>)"

text \<open>A call on a socket that changes it when it succeeds.\<close>

definition sys_on :: "nat \<Rightarrow> (sock_t \<Rightarrow> sock_t) \<Rightarrow> (net, bool) prog" where
  "sys_on fd f =
     bindM (sysM net_ok) (\<lambda>ok. if ok then bindM (setM (on_sock fd f)) (\<lambda>_. retM True) else retM False)"

definition sys_connect :: "nat \<Rightarrow> nat \<Rightarrow> (net, connect_t) prog" where
  "sys_connect fd addr =
     bindM (sysM net_connect) (\<lambda>r.
     if r = Connect_done then bindM (setM (on_sock fd (\<lambda>s. s\<lparr>sock_peer := Some addr\<rparr>))) (\<lambda>_. retM r) else retM r)"

subsection \<open>The client\<close>

definition noxssh_socket_set_blocking :: "nat \<Rightarrow> bool \<Rightarrow> (net, bool) prog" where
  "noxssh_socket_set_blocking sock blocking =
     bindM (sysM net_fcntl) (\<lambda>got_flags.
     if \<not> got_flags then retM False
     else bindM (sysM net_fcntl) (\<lambda>ok.
       if \<not> ok then retM False
       else bindM (setM (on_sock sock (\<lambda>s. s\<lparr>sock_nonblock := \<not> blocking\<rparr>))) (\<lambda>_. retM True)))"

text \<open>A pending connection is there when the socket has no error.\<close>

definition noxssh_connect_with_timeout :: "nat \<Rightarrow> nat \<Rightarrow> u32 \<Rightarrow> (net, bool) prog" where
  "noxssh_connect_with_timeout sock addr timeout_ms =
     (if timeout_ms = 0 then bindM (sys_connect sock addr) (\<lambda>rc. retM (rc = Connect_done))
      else bindM (noxssh_socket_set_blocking sock False) (\<lambda>ok.
        if \<not> ok then retM False
        else bindM (sys_connect sock addr) (\<lambda>rc.
          if rc = Connect_done then bindM (noxssh_socket_set_blocking sock True) (\<lambda>_. retM True)
          else if rc \<noteq> Connect_pending then bindM (noxssh_socket_set_blocking sock True) (\<lambda>_. retM False)
          else bindM (sysM net_select) (\<lambda>sel.
            if \<not> sel then bindM (noxssh_socket_set_blocking sock True) (\<lambda>_. retM False)
            else bindM (sys_on sock (\<lambda>s. s\<lparr>sock_peer := Some addr\<rparr>)) (\<lambda>no_error.
              if \<not> no_error then bindM (noxssh_socket_set_blocking sock True) (\<lambda>_. retM False)
              else noxssh_socket_set_blocking sock True)))))"

primrec connect_addrs :: "u32 \<Rightarrow> nat list \<Rightarrow> (net, nat option) prog" where
  "connect_addrs timeout_ms [] = retM None"
| "connect_addrs timeout_ms (it # results) =
     bindM sys_socket (\<lambda>sock.
     case sock of
       None \<Rightarrow> connect_addrs timeout_ms results
     | Some fd \<Rightarrow>
         bindM (noxssh_connect_with_timeout fd it timeout_ms) (\<lambda>ok.
         if ok then retM (Some fd)
         else bindM (sys_close fd) (\<lambda>_. connect_addrs timeout_ms results)))"

definition noxssh_connect_tcp :: "u32 \<Rightarrow> (net, nat option) prog" where
  "noxssh_connect_tcp timeout_ms = bindM (sysM net_getaddrinfo) (\<lambda>results. connect_addrs timeout_ms results)"

text \<open>The attempts of \<open>main\<close>: one, and as many retries.\<close>

primrec connect_attempts :: "u32 \<Rightarrow> nat \<Rightarrow> (net, nat option) prog" where
  "connect_attempts timeout_ms 0 = noxssh_connect_tcp timeout_ms"
| "connect_attempts timeout_ms (Suc retries) =
     bindM (noxssh_connect_tcp timeout_ms) (\<lambda>sock.
     case sock of None \<Rightarrow> connect_attempts timeout_ms retries | Some fd \<Rightarrow> retM (Some fd))"

definition noxssh_set_socket_io_timeout :: "nat \<Rightarrow> (net, bool) prog" where
  "noxssh_set_socket_io_timeout sock =
     bindM (sys_on sock (\<lambda>s. s)) (\<lambda>ok. if \<not> ok then retM False else sys_on sock (\<lambda>s. s))"

definition client_socket :: "u32 \<Rightarrow> nat \<Rightarrow> u32 \<Rightarrow> (net, nat option) prog" where
  "client_socket timeout_ms retries io_timeout_ms =
     bindM (connect_attempts timeout_ms retries) (\<lambda>sock.
     case sock of
       None \<Rightarrow> retM None
     | Some fd \<Rightarrow>
         if io_timeout_ms = 0 then retM (Some fd)
         else bindM (noxssh_set_socket_io_timeout fd) (\<lambda>ok.
           if ok then retM (Some fd) else bindM (sys_close fd) (\<lambda>_. retM None)))"

subsection \<open>The daemon\<close>

primrec bind_addrs :: "nat list \<Rightarrow> (net, nat option) prog" where
  "bind_addrs [] = retM None"
| "bind_addrs (rp # res) =
     bindM sys_socket (\<lambda>listen_fd.
     case listen_fd of
       None \<Rightarrow> bind_addrs res
     | Some fd \<Rightarrow>
         bindM (sys_on fd (\<lambda>s. s)) (\<lambda>reuse.
         if \<not> reuse then bindM (sys_close fd) (\<lambda>_. bind_addrs res)
         else bindM (sys_on fd (\<lambda>s. s\<lparr>sock_addr := Some rp\<rparr>)) (\<lambda>bound.
           if bound then retM (Some fd) else bindM (sys_close fd) (\<lambda>_. bind_addrs res))))"

text \<open>\<open>noxsshd_listen_posix\<close> up to its loop.\<close>

definition listen_setup :: "(net, nat option) prog" where
  "listen_setup =
     bindM (sysM net_getaddrinfo) (\<lambda>res.
     bindM (bind_addrs res) (\<lambda>listen_fd.
     case listen_fd of
       None \<Rightarrow> retM None
     | Some fd \<Rightarrow>
         bindM (sys_on fd (\<lambda>s. s\<lparr>sock_listens := True\<rparr>)) (\<lambda>listens.
         if \<not> listens then bindM (sys_close fd) (\<lambda>_. retM None)
         else bindM (sysM net_ok) (\<lambda>handler.
           if \<not> handler then bindM (sys_close fd) (\<lambda>_. retM None) else retM (Some fd)))))"

section \<open>One descriptor or none\<close>

text \<open>\<open>holds fd m P n\<close>: the table is \<open>m\<close>, where \<open>fd\<close> is free, with a socket at \<open>fd\<close> that satisfies \<open>P\<close>.\<close>

definition holds :: "nat \<Rightarrow> (nat \<Rightarrow> sock_t option) \<Rightarrow> (sock_t \<Rightarrow> bool) \<Rightarrow> net \<Rightarrow> bool" where
  "holds fd m P n \<longleftrightarrow> m fd = None \<and> (\<exists>s. P s \<and> socks n = m(fd \<mapsto> s))"

text \<open>What a function that opens a socket promises: it always returns, with one new descriptor or with none.\<close>

definition opened :: "(sock_t \<Rightarrow> bool) \<Rightarrow> (nat \<Rightarrow> sock_t option) \<Rightarrow> nat option \<Rightarrow> net \<Rightarrow> bool" where
  "opened P m r n = (case r of None \<Rightarrow> socks n = m | Some fd \<Rightarrow> holds fd m P n)"

abbreviation never :: "net \<Rightarrow> bool" where
  "never \<equiv> \<lambda>_. False"

lemma wp_sys: "(\<And>r k. Q r (n\<lparr>calls := k\<rparr>)) \<Longrightarrow> wp (sysM f) Q E n"
  by (simp add: wp_def sysM_def)

lemma holds_calls [simp]: "holds fd m P (n\<lparr>calls := k\<rparr>) = holds fd m P n"
  by (simp add: holds_def)

lemma holds_weaken: "holds fd m P n \<Longrightarrow> (\<And>s. P s \<Longrightarrow> Q s) \<Longrightarrow> holds fd m Q n"
  by (auto simp: holds_def)

lemma holds_on_sock:
  assumes "holds fd m P n" "\<And>s. P s \<Longrightarrow> Q (f s)"
  shows "holds fd m Q (on_sock fd f n)"
proof -
  obtain s where "m fd = None" "P s" "socks n = m(fd \<mapsto> s)" using assms(1) by (auto simp: holds_def)
  then show ?thesis using assms(2) by (auto simp: holds_def on_sock_def intro!: exI [of _ "f s"])
qed

lemma wp_on:
  assumes "holds fd m P n" "\<And>s. P s \<Longrightarrow> Q (f s)"
  shows "wp (sys_on fd f) (\<lambda>ok. holds fd m (\<lambda>s. if ok then Q s else P s)) never n"
  unfolding sys_on_def
  by (intro wp_bind wp_sys wp_if wp_set wp_ret) (use assms in \<open>auto intro: holds_on_sock holds_weaken\<close>)

lemma wp_set_blocking:
  assumes "holds fd m P n" "\<And>s b. P s \<Longrightarrow> P (s\<lparr>sock_nonblock := b\<rparr>)"
  shows "wp (noxssh_socket_set_blocking fd b) (\<lambda>_. holds fd m P) never n"
  unfolding noxssh_socket_set_blocking_def
  by (intro wp_bind wp_sys wp_if wp_set wp_ret) (use assms in \<open>auto intro: holds_on_sock\<close>)

lemma wp_socket:
  "socks n = m \<Longrightarrow> wp sys_socket (\<lambda>r. opened (\<lambda>s. True) m r) never n"
  unfolding sys_socket_def
  by (intro wp_bind wp_sys) (auto simp: wp_def ifM_def retM_def bindM_def setM_def opened_def holds_def split: option.split)

lemma wp_opened:
  assumes "wp f (opened P m) never n"
    and "\<And>t. socks t = m \<Longrightarrow> wp g Q never t" "\<And>fd t. holds fd m P t \<Longrightarrow> wp (h fd) Q never t"
  shows "wp (bindM f (\<lambda>r. case r of None \<Rightarrow> g | Some fd \<Rightarrow> h fd)) Q never n"
  by (rule wp_seq [OF assms(1)]) (auto simp: opened_def assms(2,3) split: option.splits)

lemma wp_close: "holds fd m P n \<Longrightarrow> (\<And>t. socks t = m \<Longrightarrow> Q () t) \<Longrightarrow> wp (sys_close fd) Q E n"
  by (auto simp: sys_close_def wp_def setM_def holds_def fun_upd_idem)

abbreviation linked :: "sock_t \<Rightarrow> bool" where
  "linked s \<equiv> sock_peer s \<noteq> None"

lemma wp_sys_connect: "holds fd m P n \<Longrightarrow> wp (sys_connect fd a) (\<lambda>r. holds fd m (\<lambda>s. r = Connect_done \<longrightarrow> linked s)) never n"
  unfolding sys_connect_def
  by (intro wp_bind wp_sys wp_if wp_set wp_ret holds_on_sock [where P = P]) (auto elim: holds_weaken)

lemma wp_connect_timeout:
  assumes "holds fd m P n"
  shows "wp (noxssh_connect_with_timeout fd a t) (\<lambda>ok. holds fd m (\<lambda>s. ok \<longrightarrow> linked s)) never n"
proof -
  have restore: "wp (bindM (noxssh_socket_set_blocking fd True) (\<lambda>_. retM b)) (\<lambda>ok. holds fd m (\<lambda>s. ok \<longrightarrow> linked s)) never u"
    if "holds fd m (\<lambda>s. b \<longrightarrow> linked s) u" for b u
    by (rule wp_seq [OF wp_set_blocking [OF that]]) (auto intro: wp_ret)
  have again: "wp (noxssh_socket_set_blocking fd True) (\<lambda>ok. holds fd m (\<lambda>s. ok \<longrightarrow> linked s)) never u"
    if "holds fd m linked u" for u
    by (rule wp_mono [OF wp_set_blocking [OF that]]) (auto elim: holds_weaken)
  have pending: "wp (bindM (sysM net_select) (\<lambda>sel.
      if \<not> sel then bindM (noxssh_socket_set_blocking fd True) (\<lambda>_. retM False)
      else bindM (sys_on fd (\<lambda>s. s\<lparr>sock_peer := Some a\<rparr>)) (\<lambda>no_error.
        if \<not> no_error then bindM (noxssh_socket_set_blocking fd True) (\<lambda>_. retM False)
        else noxssh_socket_set_blocking fd True))) (\<lambda>ok. holds fd m (\<lambda>s. ok \<longrightarrow> linked s)) never u"
    if "holds fd m (\<lambda>s. True) u" for u
    by (rule wp_bind, rule wp_sys, rule wp_if, rule restore, use that in simp,
        rule wp_seq [OF wp_on [where P = "\<lambda>s. True" and Q = linked and m = m]], use that in simp, simp, rule wp_if, rule restore, simp,
        rule again, simp, simp)
  have any: "holds fd m (\<lambda>s. True) n" using assms by (rule holds_weaken) simp
  show ?thesis
    unfolding noxssh_connect_with_timeout_def
    by (rule wp_if, rule wp_seq [OF wp_sys_connect [OF any]], rule wp_ret, simp, simp,
        rule wp_seq [OF wp_set_blocking [OF any]], simp, rule wp_if, rule wp_ret, simp,
        rule wp_seq [OF wp_sys_connect], assumption, rule wp_if, rule restore, simp, rule wp_if, rule restore, simp,
        rule pending, simp, simp, simp)
qed

lemma wp_connect_addrs: "socks n = m \<Longrightarrow> wp (connect_addrs t as) (opened linked m) never n"
proof (induction as arbitrary: n)
  case (Cons a as)
  have attempt: "wp (bindM (noxssh_connect_with_timeout fd a t) (\<lambda>ok.
      if ok then retM (Some fd) else bindM (sys_close fd) (\<lambda>_. connect_addrs t as))) (opened linked m) never u"
    if "holds fd m (\<lambda>s. True) u" for fd u
    by (rule wp_seq [OF wp_connect_timeout [OF that]], rule wp_if, rule wp_ret, simp add: opened_def,
        rule wp_bind, erule wp_close, rule Cons.IH) simp_all
  show ?case
    unfolding connect_addrs.simps
    by (rule wp_opened [OF wp_socket [OF Cons.prems] Cons.IH attempt])
qed (simp add: wp_def retM_def opened_def)

lemma wp_connect_attempts: "socks n = m \<Longrightarrow> wp (connect_attempts t retries) (opened linked m) never n"
proof (induction retries arbitrary: n)
  case 0
  then show ?case unfolding connect_attempts.simps noxssh_connect_tcp_def by (intro wp_bind wp_sys wp_connect_addrs) simp
next
  case (Suc retries)
  have "wp (noxssh_connect_tcp t) (opened linked m) never n"
    unfolding noxssh_connect_tcp_def using Suc.prems by (intro wp_bind wp_sys wp_connect_addrs) simp
  then show ?case
    unfolding connect_attempts.simps
    by (rule wp_opened [OF _ Suc.IH]) (simp_all add: wp_ret opened_def)
qed

text \<open>Keep the socket where a last call succeeds, close it otherwise.\<close>

lemma wp_keep_or_close:
  assumes "wp f (\<lambda>ok. holds fd m (\<lambda>s. ok \<longrightarrow> P s)) never n"
  shows "wp (bindM f (\<lambda>ok. if ok then retM (Some fd) else bindM (sys_close fd) (\<lambda>_. retM None))) (opened P m) never n"
  by (rule wp_seq [OF assms], rule wp_if, rule wp_ret, simp add: opened_def, rule wp_bind, erule wp_close, rule wp_ret)
    (simp_all add: opened_def)

lemma wp_io_timeout:
  assumes "holds fd m P n"
  shows "wp (noxssh_set_socket_io_timeout fd) (\<lambda>_. holds fd m P) never n"
  unfolding noxssh_set_socket_io_timeout_def
  by (rule wp_seq [OF wp_on [OF assms, where Q = P]], simp, rule wp_if, rule wp_ret, simp,
      rule wp_mono [OF wp_on [where P = P and Q = P and m = m]]) simp_all

lemma wp_client_socket: "socks n = m \<Longrightarrow> wp (client_socket t retries io) (opened linked m) never n"
  unfolding client_socket_def
  by (erule wp_opened [OF wp_connect_attempts], rule wp_ret, simp add: opened_def, rule wp_if, rule wp_ret, simp add: opened_def,
      rule wp_keep_or_close, rule wp_mono [OF wp_io_timeout]) (auto elim: holds_weaken)

abbreviation bound :: "sock_t \<Rightarrow> bool" where
  "bound s \<equiv> sock_addr s \<noteq> None"

lemma wp_bind_addrs: "socks n = m \<Longrightarrow> wp (bind_addrs as) (opened bound m) never n"
proof (induction as arbitrary: n)
  case (Cons a as)
  have bind: "wp (bindM (sys_on fd (\<lambda>s. s\<lparr>sock_addr := Some a\<rparr>)) (\<lambda>bound. if bound then retM (Some fd)
      else bindM (sys_close fd) (\<lambda>_. bind_addrs as))) (opened bound m) never u"
    if "holds fd m (\<lambda>s. True) u" for fd u
    by (rule wp_seq [OF wp_on [OF that, where Q = bound]], simp, rule wp_if, rule wp_ret, simp add: opened_def,
        rule wp_bind, erule wp_close, rule Cons.IH) simp_all
  have attempt: "wp (bindM (sys_on fd (\<lambda>s. s)) (\<lambda>reuse. if \<not> reuse then bindM (sys_close fd) (\<lambda>_. bind_addrs as)
      else bindM (sys_on fd (\<lambda>s. s\<lparr>sock_addr := Some a\<rparr>)) (\<lambda>bound. if bound then retM (Some fd)
        else bindM (sys_close fd) (\<lambda>_. bind_addrs as)))) (opened bound m) never u"
    if "holds fd m (\<lambda>s. True) u" for fd u
    by (rule wp_seq [OF wp_on [OF that, where Q = "\<lambda>s. True"]], simp, rule wp_if, rule wp_bind, erule wp_close, rule Cons.IH, simp,
        rule bind, simp, simp)
  show ?case
    unfolding bind_addrs.simps
    by (rule wp_opened [OF wp_socket [OF Cons.prems] Cons.IH attempt])
qed (simp add: wp_def retM_def opened_def)

lemma wp_listen_setup: "socks n = m \<Longrightarrow> wp listen_setup (opened (\<lambda>s. bound s \<and> sock_listens s) m) never n"
  unfolding listen_setup_def
proof (rule wp_bind, rule wp_sys, rule wp_opened [OF wp_bind_addrs], simp, rule wp_ret, simp add: opened_def)
  fix fd u
  assume "holds fd m bound u"
  note on = wp_on [OF this, where Q = "\<lambda>s. bound s \<and> sock_listens s"]
  show "wp (bindM (sys_on fd (\<lambda>s. s\<lparr>sock_listens := True\<rparr>)) (\<lambda>listens. if \<not> listens then bindM (sys_close fd) (\<lambda>_. retM None)
      else bindM (sysM net_ok) (\<lambda>handler. if \<not> handler then bindM (sys_close fd) (\<lambda>_. retM None) else retM (Some fd))))
      (opened (\<lambda>s. bound s \<and> sock_listens s) m) never u"
    by (rule wp_seq [OF on], simp, rule wp_if, rule wp_bind, erule wp_close, rule wp_ret, simp add: opened_def,
        rule wp_bind, rule wp_sys, rule wp_if, rule wp_bind, rule wp_close, simp, rule wp_ret, simp add: opened_def, rule wp_ret)
      (simp_all add: opened_def)
qed

section \<open>Properties\<close>

text \<open>C24: Connecting leaks no descriptor. Whatever name resolution and the system calls return, the client's connection
  phase returns; it either gives up with exactly the descriptors open that were open before, or hands over one new descriptor,
  connected to its peer, with all others untouched.\<close>

theorem connect_no_leak:
  "\<exists>r n'. client_socket timeout_ms retries io_timeout_ms n = (Ok r, n') \<and>
    (case r of
       None \<Rightarrow> socks n' = socks n
     | Some fd \<Rightarrow> socks n fd = None \<and> (\<exists>s. sock_peer s \<noteq> None \<and> socks n' = (socks n)(fd \<mapsto> s)))"
  using wp_client_socket [OF refl, of timeout_ms retries io_timeout_ms n]
  by (auto simp: wp_def opened_def holds_def split: prod.splits res.splits option.splits)

text \<open>The same for the daemon: where opening its listening socket fails, for any address or at any call, nothing is left
  open; otherwise exactly one descriptor is added, bound and listening.\<close>

theorem listen_no_leak:
  "\<exists>r n'. listen_setup n = (Ok r, n') \<and>
    (case r of
       None \<Rightarrow> socks n' = socks n
     | Some fd \<Rightarrow> socks n fd = None \<and> (\<exists>s. sock_addr s \<noteq> None \<and> sock_listens s \<and> socks n' = (socks n)(fd \<mapsto> s)))"
  using wp_listen_setup [OF refl, of n]
  by (auto simp: wp_def opened_def holds_def split: prod.splits res.splits option.splits)

end
