(* ===== verification/Nox_Console.thy ===== *)
theory Nox_Console
  imports Nox_Lifecycle Nox_Agreement Nox_Config Nox_Sockets
begin

text \<open>
  The client program at work (\<open>client/main.c\<close>): waiting for the socket with keepalives and re-keying, printing the
  output of a command, the interactive shell, the password prompt, and the run from the connection to the exit code.
  \<open>app\<close> is the state of the program: the client's context, what the system answers, and the local variables that
  the waiting functions share.
\<close>

section \<open>Definitions\<close>

text \<open>Results of \<open>select\<close>; where the script ends it fails. \<open>app_env\<close> has the standard input, which the question about the
  host key, the password prompt and the shell read, \<open>app_clock\<close> what \<open>time\<close> returns.\<close>

datatype select_t = Sel_readable | Sel_timeout | Sel_error

record app =
  app_client :: netnox_ssh_client_t
  app_env :: host_env
  app_selects :: "select_t list"
  app_clock :: "nat \<Rightarrow> u64"
  app_ticks :: nat
  app_output :: bytes
  io_quiet_since_sec :: u64
  unanswered_keepalive_count :: u32
  last_rekey_sec :: u64

definition clientM :: "(netnox_ssh_client_t, 'a) prog \<Rightarrow> (app, 'a) prog" where
  "clientM m a = (case m (app_client a) of (r, c) \<Rightarrow> (r, a\<lparr>app_client := c\<rparr>))"

definition noxssh_now_seconds :: "(app, u64) prog" where
  "noxssh_now_seconds a = (Ok (app_clock a (app_ticks a)), a\<lparr>app_ticks := app_ticks a + 1\<rparr>)"

definition noxssh_socket_readable :: "(app, select_t) prog" where
  "noxssh_socket_readable a =
     (case app_selects a of [] \<Rightarrow> (Ok Sel_error, a) | s # ss \<Rightarrow> (Ok s, a\<lparr>app_selects := ss\<rparr>))"

text \<open>\<open>fgets\<close> on the standard input; \<open>None\<close> at its end.\<close>

definition read_line :: "nat \<Rightarrow> (app, bytes option) prog" where
  "read_line n a =
     (case fgets_next n (stdin_left (app_env a)) of
        None \<Rightarrow> (Ok None, a)
      | Some (l, rest) \<Rightarrow> (Ok (Some (cstr l)), a\<lparr>app_env := (app_env a)\<lparr>stdin_left := rest\<rparr>\<rparr>))"

subsection \<open>Waiting\<close>

text \<open>The settings of the waiting functions.\<close>

record alive =
  keepalive_interval_sec :: u32
  keepalive_count_max :: u32
  rekey_interval_sec :: u32

definition noxssh_maybe_rekey :: "noxtls \<Rightarrow> nat \<Rightarrow> alive \<Rightarrow> (app, unit) prog" where
  "noxssh_maybe_rekey C fuel k =
     (if rekey_interval_sec k = 0 then retM ()
      else bindM noxssh_now_seconds (\<lambda>now.
        ifM (\<lambda>a. now < last_rekey_sec a + ucast (rekey_interval_sec k)) (retM ())
          (bindM (clientM (netnox_ssh_client_rekey C (netnox_ssh_wait_for_message C fuel))) (\<lambda>_.
           setM (\<lambda>a. a\<lparr>last_rekey_sec := now\<rparr>)))))"

text \<open>The results: readable, nothing within the time, \<open>-1\<close>, and \<open>-2\<close> after too many unanswered keepalives.\<close>

datatype ready = Ready | Quiet | Lost | Dead

text \<open>The keepalive after a slice of the time without input; the rest of the wait is \<open>next\<close>.\<close>

definition keepalive_step :: "noxtls \<Rightarrow> alive \<Rightarrow> (app, ready) prog \<Rightarrow> (app, ready) prog" where
  "keepalive_step C k next =
     (if keepalive_interval_sec k = 0 then next
      else bindM noxssh_now_seconds (\<lambda>now.
        ifM (\<lambda>a. now \<ge> io_quiet_since_sec a + ucast (keepalive_interval_sec k))
          (bindM (tryM (clientM (netnox_ssh_client_send_keepalive C))) (\<lambda>r.
           if r \<noteq> Ok () then retM Lost
           else bindM (setM (\<lambda>a. a\<lparr>unanswered_keepalive_count := unanswered_keepalive_count a + 1\<rparr>)) (\<lambda>_.
             ifM (\<lambda>a. keepalive_count_max k > 0 \<and> unanswered_keepalive_count a > keepalive_count_max k) (retM Dead)
               (bindM (setM (\<lambda>a. a\<lparr>io_quiet_since_sec := now\<rparr>)) (\<lambda>_. next)))))
          next))"

text \<open>The slices of 250 milliseconds of a wait.\<close>

primrec wait_slices :: "noxtls \<Rightarrow> nat \<Rightarrow> alive \<Rightarrow> nat \<Rightarrow> (app, ready) prog" where
  "wait_slices C fuel k 0 = retM Quiet"
| "wait_slices C fuel k (Suc n) =
     bindM (tryM (noxssh_maybe_rekey C fuel k)) (\<lambda>r.
     if r \<noteq> Ok () then retM Lost
     else bindM noxssh_socket_readable (\<lambda>s.
       case s of
         Sel_readable \<Rightarrow> retM Ready
       | Sel_error \<Rightarrow> retM Lost
       | Sel_timeout \<Rightarrow> keepalive_step C k (wait_slices C fuel k n)))"

definition noxssh_wait_socket_or_keepalive :: "noxtls \<Rightarrow> nat \<Rightarrow> alive \<Rightarrow> nat \<Rightarrow> (app, ready) prog" where
  "noxssh_wait_socket_or_keepalive C fuel k wait_ms =
     (if wait_ms = 0
      then bindM noxssh_socket_readable (\<lambda>s.
        retM (case s of Sel_readable \<Rightarrow> Ready | Sel_error \<Rightarrow> Lost | Sel_timeout \<Rightarrow> Quiet))
      else wait_slices C fuel k ((wait_ms + 249) div 250))"

subsection \<open>Output\<close>

text \<open>\<open>io_quiet_since_sec = now; unanswered_keepalive_count = 0;\<close>\<close>

definition note_activity :: "(app, unit) prog" where
  "note_activity = bindM noxssh_now_seconds (\<lambda>now.
     setM (\<lambda>a. a\<lparr>io_quiet_since_sec := now, unanswered_keepalive_count := 0\<rparr>))"

definition print_data :: "bytes \<Rightarrow> (app, unit) prog" where
  "print_data d = bindM (setM (\<lambda>a. a\<lparr>app_output := app_output a @ d\<rparr>)) (\<lambda>_. note_activity)"

definition start_clock :: "(app, unit) prog" where
  "start_clock = bindM noxssh_now_seconds (\<lambda>now.
     setM (\<lambda>a. a\<lparr>io_quiet_since_sec := now, unanswered_keepalive_count := 0, last_rekey_sec := now\<rparr>))"

text \<open>Results of \<open>select\<close> and bytes of the input are only taken.\<close>

definition waits :: "app \<Rightarrow> app \<Rightarrow> bool" where
  "waits a a' \<longleftrightarrow> length (app_selects a') \<le> length (app_selects a) \<and> length (stdin_left (app_env a')) \<le> length (stdin_left (app_env a))"

interpretation wt: step_rel waits
  by unfold_locales (auto simp: waits_def)

lemma waits_client: "always waits (clientM m)"
  by (simp add: always_def clientM_def waits_def split: prod.splits)

lemma waits_now: "always waits noxssh_now_seconds"
  by (simp add: always_def noxssh_now_seconds_def waits_def)

lemma waits_set: "(\<And>a. app_selects (f a) = app_selects a \<and> app_env (f a) = app_env a) \<Longrightarrow> always waits (setM f)"
  by (simp add: always_def setM_def waits_def)

lemma waits_readable: "always waits noxssh_socket_readable"
  by (simp add: always_def noxssh_socket_readable_def waits_def split: list.splits)

lemmas wt_rules = wt.always_rules waits_client waits_now waits_set waits_readable

lemma waits_rekey: "always waits (noxssh_maybe_rekey C fuel k)"
  unfolding noxssh_maybe_rekey_def by (intro wt_rules) simp

lemma waits_keepalive: "always waits next \<Longrightarrow> always waits (keepalive_step C k next)"
  unfolding keepalive_step_def by (intro wt_rules) simp_all

lemma waits_slices: "always waits (wait_slices C fuel k n)"
proof (induction n)
  case (Suc n)
  then show ?case
    unfolding wait_slices.simps
    by (intro wt_rules waits_rekey) (auto split: select_t.split intro: wt_rules waits_keepalive)
qed (simp add: wt.always_rules)

lemma wait_consumes:
  assumes "wait_slices C fuel k (Suc n) a = (Ok r, a')" "r = Ready \<or> r = Quiet"
  shows "length (app_selects a') < length (app_selects a)"
proof -
  obtain q a1 where q: "tryM (noxssh_maybe_rekey C fuel k) a = (Ok q, a1)" "q = Ok ()"
    using assms by (auto simp: res_iff split: if_splits)
  then obtain s a2 where s: "noxssh_socket_readable a1 = (Ok s, a2)"
    and rest: "(case s of Sel_readable \<Rightarrow> retM Ready | Sel_error \<Rightarrow> retM Lost
      | Sel_timeout \<Rightarrow> keepalive_step C k (wait_slices C fuel k n)) a2 = (Ok r, a')"
    using assms(1) by (auto simp: res_iff)
  have "length (app_selects a1) \<le> length (app_selects a)"
    using alwaysD [OF always_try [OF waits_rekey] q(1)] by (simp add: waits_def)
  moreover have "s \<noteq> Sel_error" using rest assms(2) by (auto simp: res_iff)
  then have "length (app_selects a2) < length (app_selects a1)"
    using s by (auto simp: noxssh_socket_readable_def split: list.splits)
  moreover have "length (app_selects a') \<le> length (app_selects a2)"
    using rest alwaysD [OF waits_keepalive [OF waits_slices], of C k C fuel k n a2 "Ok r" a'] \<open>s \<noteq> Sel_error\<close>
    by (cases s) (auto simp: res_iff waits_def)
  ultimately show ?thesis by simp
qed

lemma wait_ms_consumes:
  assumes "noxssh_wait_socket_or_keepalive C fuel k ms a = (Ok r, a')" "ms \<noteq> 0" "r = Ready \<or> r = Quiet"
  shows "length (app_selects a') < length (app_selects a)"
proof -
  obtain n where "(ms + 249) div 250 = Suc n" using assms(2) by (cases "(ms + 249) div 250") auto
  then show ?thesis using assms wait_consumes by (simp add: noxssh_wait_socket_or_keepalive_def)
qed

lemma waits_print: "always waits (print_data d)"
  unfolding print_data_def note_activity_def by (intro wt_rules) simp_all

lemma waits_recv: "always waits (tryM (clientM (netnox_ssh_client_recv_data C fuel n)))"
  by (intro wt_rules)

text \<open>Every round takes a result of \<open>select\<close>.\<close>

function print_loop :: "noxtls \<Rightarrow> nat \<Rightarrow> alive \<Rightarrow> (app, unit) prog" where
  "print_loop C fuel k a =
     bindM (noxssh_wait_socket_or_keepalive C fuel k 1000) (\<lambda>ready a1.
     if ready = Lost \<or> ready = Dead then (Ok (), a1)
     else if ready = Quiet then print_loop C fuel k a1
     else bindM (tryM (clientM (netnox_ssh_client_recv_data C fuel 4096))) (\<lambda>r a2.
       case r of
         Ok d \<Rightarrow> if d = [] then (Ok (), a2) else bindM (print_data d) (\<lambda>_ a3. print_loop C fuel k a3) a2
       | _ \<Rightarrow> (Ok (), a2)) a1) a"
  by pat_completeness auto
termination
proof (relation "measure (\<lambda>(C, fuel, k, a). length (app_selects a))", goal_cases)
  case 1
  then show ?case by simp
next
  case (2 C fuel k a ready a1)
  then show ?case using wait_ms_consumes by simp
next
  case (3 C fuel k a ready a1 r a2 d u a3)
  have "ready = Ready" using 3(2,3) by (cases ready) auto
  then have "length (app_selects a1) < length (app_selects a)" using wait_ms_consumes [OF 3(1)] by simp
  moreover have "waits a1 a2" using waits_recv 3(4) by (rule alwaysD)
  moreover have "waits a2 a3" using waits_print 3(7) by (rule alwaysD)
  ultimately show ?case by (simp add: waits_def)
qed

declare print_loop.simps [simp del]

definition noxssh_print_channel_output :: "noxtls \<Rightarrow> nat \<Rightarrow> alive \<Rightarrow> (app, unit) prog" where
  "noxssh_print_channel_output C fuel k = bindM start_clock (\<lambda>_. print_loop C fuel k)"

text \<open>The results of draining: \<open>0\<close>, \<open>1\<close>, \<open>-1\<close> and \<open>-2\<close>.\<close>

datatype drain = Drained | Channel_closed | Recv_failed | Alive_timeout

function drain_loop :: "noxtls \<Rightarrow> nat \<Rightarrow> alive \<Rightarrow> (app, drain) prog" where
  "drain_loop C fuel k a =
     bindM (tryM (clientM (netnox_ssh_client_recv_data C fuel 4096))) (\<lambda>r a1.
     case r of
       Ok d \<Rightarrow>
         if d = [] then (Ok Channel_closed, a1)
         else bindM (print_data d) (\<lambda>_ a2.
           bindM (noxssh_wait_socket_or_keepalive C fuel k 60) (\<lambda>ready a3.
           if ready = Dead then (Ok Alive_timeout, a3)
           else if ready \<noteq> Ready then (Ok Drained, a3)
           else drain_loop C fuel k a3) a2) a1
     | _ \<Rightarrow> (Ok Recv_failed, a1)) a"
  by pat_completeness auto
termination
proof (relation "measure (\<lambda>(C, fuel, k, a). length (app_selects a))", goal_cases)
  case 1
  then show ?case by simp
next
  case (2 C fuel k a r a1 d u a2 ready a3)
  have "waits a a1" using waits_recv 2(1) by (rule alwaysD)
  moreover have "waits a1 a2" using waits_print 2(4) by (rule alwaysD)
  moreover have "length (app_selects a3) < length (app_selects a2)" using wait_ms_consumes [OF 2(5)] 2(7) by simp
  ultimately show ?case by (simp add: waits_def)
qed

declare drain_loop.simps [simp del]

definition noxssh_drain_shell_output :: "noxtls \<Rightarrow> nat \<Rightarrow> alive \<Rightarrow> nat \<Rightarrow> (app, drain) prog" where
  "noxssh_drain_shell_output C fuel k first_wait_ms =
     bindM (noxssh_wait_socket_or_keepalive C fuel k first_wait_ms) (\<lambda>ready.
     if ready = Dead then retM Alive_timeout
     else if ready \<noteq> Ready then retM Drained
     else drain_loop C fuel k)"

text \<open>One round of the shell: whether to go on. The line goes out without the terminating NUL.\<close>

definition shell_round :: "noxtls \<Rightarrow> nat \<Rightarrow> alive \<Rightarrow> (app, bool) prog" where
  "shell_round C fuel k =
     bindM (noxssh_drain_shell_output C fuel k 250) (\<lambda>drained.
     if drained \<noteq> Drained then retM False
     else bindM (read_line 513) (\<lambda>line.
       case line of
         None \<Rightarrow> retM False
       | Some l \<Rightarrow>
           if l = ascii ''exit'' @ [10] \<or> l = ascii ''exit'' @ [13, 10] then retM False
           else bindM (tryM (clientM (netnox_ssh_client_send_data C l (u32len l)))) (\<lambda>r.
             if r \<noteq> Ok () then retM False
             else bindM note_activity (\<lambda>_.
               bindM (noxssh_drain_shell_output C fuel k 300) (\<lambda>drained'. retM (drained' = Drained))))))"

lemma waits_wait: "always waits (noxssh_wait_socket_or_keepalive C fuel k ms)"
  unfolding noxssh_wait_socket_or_keepalive_def by (intro wt_rules waits_slices)

lemma waits_drain_loop: "always waits (drain_loop C fuel k)"
proof -
  have "waits a (snd (drain_loop C fuel k a))" for a
  proof (induction C fuel k a rule: drain_loop.induct)
    case (1 C fuel k a)
    have step: "waits b (snd (bindM (noxssh_wait_socket_or_keepalive C fuel k 60) (\<lambda>ready a3.
        if ready = Dead then (Ok Alive_timeout, a3) else if ready \<noteq> Ready then (Ok Drained, a3) else drain_loop C fuel k a3) b))"
      if "\<And>a3. noxssh_wait_socket_or_keepalive C fuel k 60 b = (Ok Ready, a3) \<Longrightarrow> waits a3 (snd (drain_loop C fuel k a3))" for b
      using that alwaysD [OF waits_wait, of C fuel k 60 b]
      by (auto simp: bindM_def split: prod.split res.split intro: wt.trans)
    obtain q a1 where recv: "tryM (clientM (netnox_ssh_client_recv_data C fuel 4096)) a = (q, a1)" by fastforce
    have a1: "waits a a1" using waits_recv recv by (rule alwaysD)
    show ?case
    proof (cases "\<exists>d. q = Ok (Ok d) \<and> d \<noteq> []")
      case True
      then obtain d where d: "q = Ok (Ok d)" "d \<noteq> []" by blast
      obtain u a2 where pr: "print_data d a1 = (Ok u, a2)"
        by (simp add: print_data_def note_activity_def noxssh_now_seconds_def bindM_def setM_def)
      have a2: "waits a1 a2" using waits_print pr by (rule alwaysD)
      note step = step [of a2, OF "1.IH" [OF recv [unfolded d(1)] refl d(2) pr _ _ _]]
      have "drain_loop C fuel k a = bindM (noxssh_wait_socket_or_keepalive C fuel k 60) (\<lambda>ready a3.
        if ready = Dead then (Ok Alive_timeout, a3) else if ready \<noteq> Ready then (Ok Drained, a3) else drain_loop C fuel k a3) a2"
        by (subst drain_loop.simps) (simp add: bindM_def recv d pr)
      then show ?thesis using step wt.trans [OF wt.trans [OF a1 a2]] by simp
    next
      case False
      then show ?thesis using a1 by (subst drain_loop.simps) (auto simp: bindM_def recv split: res.split)
    qed
  qed
  then show ?thesis by (simp add: always_def)
qed

lemma waits_drain: "always waits (noxssh_drain_shell_output C fuel k ms)"
  unfolding noxssh_drain_shell_output_def by (intro wt_rules waits_wait waits_drain_loop)

lemma waits_activity: "always waits note_activity"
  unfolding note_activity_def by (intro wt_rules) simp

lemma shell_round_reads:
  assumes "shell_round C fuel k a = (Ok True, a')"
  shows "length (stdin_left (app_env a')) < length (stdin_left (app_env a))"
proof -
  obtain a1 l a2 r a3 d a4 where "noxssh_drain_shell_output C fuel k 250 a = (Ok Drained, a1)" "read_line 513 a1 = (Ok (Some l), a2)"
    "tryM (clientM (netnox_ssh_client_send_data C l (u32len l))) a2 = (Ok r, a3)" "note_activity a3 = (Ok (), a4)"
    "noxssh_drain_shell_output C fuel k 300 a4 = (Ok d, a')"
    using assms unfolding shell_round_def
    by (auto simp: bindM_Ok retM_Ok split: if_splits option.splits)
  then have "waits a a1" "length (stdin_left (app_env a2)) < length (stdin_left (app_env a1))" "waits a2 a3" "waits a3 a4" "waits a4 a'"
    using alwaysD [OF waits_drain] alwaysD [OF always_try [OF waits_client]] alwaysD [OF waits_activity]
    by (blast, auto simp: read_line_def split: option.splits prod.splits dest!: fgets_next_shorter)
  then show ?thesis by (simp add: waits_def)
qed

text \<open>Every round takes something of the input.\<close>

function shell_loop :: "noxtls \<Rightarrow> nat \<Rightarrow> alive \<Rightarrow> (app, unit) prog" where
  "shell_loop C fuel k a =
     bindM (shell_round C fuel k) (\<lambda>goes_on a1. if goes_on then shell_loop C fuel k a1 else (Ok (), a1)) a"
  by pat_completeness auto
termination
  by (relation "measure (\<lambda>(C, fuel, k, a). length (stdin_left (app_env a)))") (auto simp: shell_round_reads)

declare shell_loop.simps [simp del]

definition noxssh_interactive_shell :: "noxtls \<Rightarrow> nat \<Rightarrow> alive \<Rightarrow> (app, unit) prog" where
  "noxssh_interactive_shell C fuel k = bindM start_clock (\<lambda>_. shell_loop C fuel k)"

definition noxssh_prompt_password :: "(app, bytes) prog" where
  "noxssh_prompt_password =
     bindM (read_line 128) (\<lambda>line.
     case line of
       None \<Rightarrow> throwM NETNOX_RETURN_BAD_PARAM
     | Some l \<Rightarrow> retM (if l \<noteq> [] \<and> (last l = 10 \<or> last l = 13) then butlast l else l))"

subsection \<open>A run\<close>

text \<open>\<open>if(rc != SUCCESS) { close; return 1; }\<close>: a failure closes the client.\<close>

definition or_close :: "(app, 'a) prog \<Rightarrow> (app, 'a) prog" where
  "or_close m =
     bindM (tryM m) (\<lambda>r. case r of
       Ok x \<Rightarrow> retM x
     | Err e \<Rightarrow> bindM (clientM netnox_ssh_client_close) (\<lambda>_. throwM e)
     | _ \<Rightarrow> liftM Fault)"

text \<open>The fingerprint of the host key and the decision on it.\<close>

definition check_host_key :: "settings \<Rightarrow> bytes \<Rightarrow> (app, unit) prog" where
  "check_host_key st pin =
     bindM (getM (\<lambda>a. netnox_ssh_client_get_server_host_key_fingerprint (app_client a) 32)) (\<lambda>(rc, fp, _).
     case (rc, fp) of
       (None, Some fingerprint) \<Rightarrow>
         bindM (\<lambda>a. case noxssh_verify_host_key (set_host st) (set_port st) fingerprint (set_strict st) pin
                    (set_batch_mode st) (set_known_hosts st) (app_env a) of (ok, env) \<Rightarrow> (Ok ok, a\<lparr>app_env := env\<rparr>)) (\<lambda>ok.
         failM (\<not> ok) NETNOX_RETURN_FAILED)
     | _ \<Rightarrow> throwM NETNOX_RETURN_FAILED)"

text \<open>From the connected socket to a trusted host.\<close>

definition client_handshake :: "noxtls \<Rightarrow> nat \<Rightarrow> settings \<Rightarrow> bytes \<Rightarrow> world \<Rightarrow> (app, unit) prog" where
  "client_handshake C fuel st pin conn =
     bindM (clientM (netnox_ssh_client_init 0 (set_port st))) (\<lambda>_.
     bindM (clientM (netnox_ssh_client_set_target (set_user st) (set_host st))) (\<lambda>_.
     bindM (clientM (set_io_callbacks True True conn)) (\<lambda>_.
     bindM (clientM (netnox_ssh_client_connect C (netnox_ssh_wait_for_message C fuel))) (\<lambda>_.
     or_close (check_host_key st pin)))))"

definition set_key :: "noxtls \<Rightarrow> bytes \<Rightarrow> (app, unit) prog" where
  "set_key C seed = clientM (netnox_ssh_client_set_ed25519_private_key C seed)"

text \<open>The keys: of the command line, of the identity file, of the default files. The result is \<open>ed25519_key_set\<close>.\<close>

definition load_keys :: "noxtls \<Rightarrow> cli_t \<Rightarrow> settings \<Rightarrow> (app, bool) prog" where
  "load_keys C opts st =
     bindM (case cli_ed25519_key opts of None \<Rightarrow> retM () | Some seed \<Rightarrow> or_close (set_key C seed)) (\<lambda>_.
     bindM (case set_identity_file st of
         None \<Rightarrow> retM (cli_ed25519_key opts \<noteq> None)
       | Some path \<Rightarrow>
           or_close (bindM (\<lambda>a. liftM (noxssh_load_ed25519_seed_file (fopen_read (app_env a) path)) a) (\<lambda>k.
             case k of Key_seed seed \<Rightarrow> bindM (set_key C seed) (\<lambda>_. retM True) | _ \<Rightarrow> throwM NETNOX_RETURN_FAILED))) (\<lambda>key_set.
     if key_set then retM True
     else bindM (\<lambda>a. liftM (noxssh_try_load_default_identity (home_env (app_env a)) (fopen_read (app_env a)) 1024) a) (\<lambda>(k, path).
       case k of
         Key_seed seed \<Rightarrow> bindM (tryM (set_key C seed)) (\<lambda>r. retM (r = Ok ()))
       | _ \<Rightarrow> retM False)))"

definition set_password :: "bytes \<Rightarrow> (app, unit) prog" where
  "set_password pw = clientM (netnox_ssh_client_set_password pw)"

text \<open>The password: of the command line, or typed where there is no key. The result is \<open>password_set\<close>.\<close>

definition load_password :: "cli_t \<Rightarrow> settings \<Rightarrow> bool \<Rightarrow> (app, bool) prog" where
  "load_password opts st key_set =
     bindM (if cli_password opts = None \<and> \<not> key_set \<and> \<not> set_batch_mode st
            then bindM (or_close noxssh_prompt_password) (\<lambda>pw. retM (Some pw)) else retM (cli_password opts)) (\<lambda>pw.
     case pw of None \<Rightarrow> retM False | Some p \<Rightarrow> bindM (or_close (set_password p)) (\<lambda>_. retM True))"

definition authenticateM :: "noxtls \<Rightarrow> nat \<Rightarrow> (app, unit) prog" where
  "authenticateM C fuel = clientM (netnox_ssh_client_authenticate C (netnox_ssh_wait_for_message C fuel))"

text \<open>A rejected key, where no password was given: one more try with a typed password.\<close>

definition login :: "noxtls \<Rightarrow> nat \<Rightarrow> settings \<Rightarrow> bool \<Rightarrow> bool \<Rightarrow> (app, unit) prog" where
  "login C fuel st key_set password_set =
     bindM (tryM (authenticateM C fuel)) (\<lambda>r.
     if r = Err NETNOX_RETURN_AUTH_REJECTED \<and> \<not> password_set \<and> key_set \<and> \<not> set_batch_mode st
     then bindM (tryM noxssh_prompt_password) (\<lambda>p.
       case p of
         Ok pw \<Rightarrow> bindM (tryM (set_password pw)) (\<lambda>q. if q = Ok () then authenticateM C fuel else liftM r)
       | _ \<Rightarrow> liftM r)
     else liftM r)"

text \<open>The exit code in the mode of a command is the remote one, modulo 256.\<close>

definition run_command :: "noxtls \<Rightarrow> nat \<Rightarrow> alive \<Rightarrow> bytes \<Rightarrow> (app, nat) prog" where
  "run_command C fuel k command =
     bindM (or_close (clientM (netnox_ssh_client_exec C (netnox_ssh_wait_for_message C fuel) command))) (\<lambda>_.
     bindM (noxssh_print_channel_output C fuel k) (\<lambda>_.
     getM (\<lambda>a. case netnox_ssh_client_get_remote_exit_status (app_client a) of
       Ok status \<Rightarrow> unat (status AND 0xFF) | _ \<Rightarrow> 0)))"

definition run_shell :: "noxtls \<Rightarrow> nat \<Rightarrow> alive \<Rightarrow> bool \<Rightarrow> (app, nat) prog" where
  "run_shell C fuel k request_pty =
     bindM (or_close (clientM (netnox_ssh_client_request_shell_ex C (netnox_ssh_wait_for_message C fuel) (if request_pty then 1 else 0)))) (\<lambda>_.
     bindM (noxssh_interactive_shell C fuel k) (\<lambda>_. retM 0))"

definition client_session :: "noxtls \<Rightarrow> nat \<Rightarrow> cli_t \<Rightarrow> settings \<Rightarrow> (app, nat) prog" where
  "client_session C fuel opts st =
     bindM (load_keys C opts st) (\<lambda>key_set.
     bindM (load_password opts st key_set) (\<lambda>password_set.
     bindM (if \<not> password_set \<and> \<not> key_set then retM 0
            else bindM (or_close (login C fuel st key_set password_set)) (\<lambda>_.
              bindM (or_close (clientM (netnox_ssh_client_open_session C (netnox_ssh_wait_for_message C fuel)))) (\<lambda>_.
              let k = \<lparr>keepalive_interval_sec = set_alive_interval_sec st, keepalive_count_max = set_alive_count_max st,
                rekey_interval_sec = set_rekey_interval_sec st\<rparr> in
              case cli_command opts of
                Some command \<Rightarrow> run_command C fuel k command
              | None \<Rightarrow> run_shell C fuel k (cli_request_pty opts)))) (\<lambda>code.
     bindM (clientM netnox_ssh_client_close) (\<lambda>_. retM code))))"

text \<open>The whole run on a connected socket; every failure is the exit code 1.\<close>

definition noxssh_run :: "noxtls \<Rightarrow> nat \<Rightarrow> cli_t \<Rightarrow> settings \<Rightarrow> world \<Rightarrow> (app, nat) prog" where
  "noxssh_run C fuel opts st conn =
     bindM (tryM (bindM (client_handshake C fuel st (cli_pin opts) conn) (\<lambda>_. client_session C fuel opts st))) (\<lambda>r.
     retM (case r of Ok code \<Rightarrow> code | _ \<Rightarrow> 1))"

text \<open>\<open>main\<close>: the settings, the socket, the run, and the socket closed again. The result is the exit code.\<close>

definition noxssh_main :: "noxtls \<Rightarrow> nat \<Rightarrow> bytes list \<Rightarrow> net \<Rightarrow> world \<Rightarrow> (app, nat \<times> net) prog" where
  "noxssh_main C fuel args n conn =
     bindM (getM (\<lambda>a. client_setup args (home_env (app_env a)) (fopen_read (app_env a)))) (\<lambda>setup.
     case setup of
       Inl code \<Rightarrow> retM (code, n)
     | Inr (opts, st) \<Rightarrow>
         (case client_socket (set_connect_timeout_ms st) (cli_retries opts) (cli_io_timeout_ms opts) n of
            (Ok (Some sock), n1) \<Rightarrow>
              bindM (noxssh_run C fuel opts st conn) (\<lambda>code. retM (code, snd (sys_close sock n1)))
          | (_, n1) \<Rightarrow> retM (1, n1)))"

section \<open>Descriptors\<close>

text \<open>The run ends with the descriptors that were open before it.\<close>

lemma noxssh_main_no_leak:
  assumes "noxssh_main C fuel args n conn a = (Ok (code, n'), a')"
  shows "socks n' = socks n"
proof (cases "client_setup args (home_env (app_env a)) (fopen_read (app_env a))")
  case (Inr conf)
  obtain opts st where conf: "conf = (opts, st)" by (cases conf)
  obtain r n1 where c: "client_socket (set_connect_timeout_ms st) (cli_retries opts) (cli_io_timeout_ms opts) n = (Ok r, n1)"
      "opened linked (socks n) r n1"
    using wp_client_socket [OF refl, of "set_connect_timeout_ms st" "cli_retries opts" "cli_io_timeout_ms opts" n]
    by (auto simp: wp_def split: prod.splits res.splits)
  with assms Inr conf show ?thesis
    by (auto simp: noxssh_main_def res_iff opened_def holds_def sys_close_def setM_def fun_upd_idem split: option.splits)
qed (use assms in \<open>simp add: noxssh_main_def res_iff\<close>)

section \<open>A trusted host\<close>

lemma clientM_Ok [res_iff]:
  "clientM m a = (Ok x, a') \<longleftrightarrow> (\<exists>c. m (app_client a) = (Ok x, c) \<and> a' = a\<lparr>app_client := c\<rparr>)"
  by (auto simp: clientM_def split: prod.splits)

lemma wp_client: "wp m (\<lambda>x c. Q x (a\<lparr>app_client := c\<rparr>)) (\<lambda>c. E (a\<lparr>app_client := c\<rparr>)) (app_client a) \<Longrightarrow> wp (clientM m) Q E a"
  by (auto simp: wp_def clientM_def split: prod.splits res.splits)

lemma ensures_connect: "ensures (host_verified C) (netnox_ssh_client_connect C (netnox_ssh_wait_for_message C fuel))"
proof -
  have "ensures (host_verified C) (connect_loop C (netnox_ssh_wait_for_message C fuel) i)" for i
    by (induction i) (simp_all add: ensures_def throwM_def, auto simp: res_iff ensures_exchange [unfolded ensures_def] split: if_splits)
  then show ?thesis unfolding netnox_ssh_client_connect_def by (intro ensures_last)
qed

text \<open>No credential is in the context, and nobody is logged in.\<close>

definition no_secret :: "netnox_ssh_client_t \<Rightarrow> bool" where
  "no_secret c \<longleftrightarrow> password c = [] \<and> \<not> has_ed25519_key c \<and> \<not> authenticated c"

lemma no_secret_kex: "kex_sound c t \<Longrightarrow> no_secret c \<Longrightarrow> no_secret t"
  by (simp add: no_secret_def kex_sound_def kex_only_def session_part_def)

lemma no_secret_io: "no_secret c \<Longrightarrow> no_secret (c\<lparr>io_user_data := w\<rparr>)"
  by (simp add: no_secret_def)

lemma wp_secret_kex: "always kex_sound m \<Longrightarrow> no_secret c \<Longrightarrow> wp m (\<lambda>_. no_secret) no_secret c"
  by (rule wp_always, assumption) (auto intro: no_secret_kex)

lemma wp_secret_connect_loop: "no_secret c \<Longrightarrow> wp (connect_loop C (netnox_ssh_wait_for_message C fuel) i) (\<lambda>_. no_secret) no_secret c"
proof (induction i arbitrary: c)
  case (Suc i)
  have line: "wp (netnox_ssh_recv_line 256) (\<lambda>_. no_secret) no_secret c"
    using Suc.prems by (auto simp: netnox_ssh_recv_line_def wp_def prog_defs ioM_def no_secret_io split: prod.splits res.splits)
  show ?case
    unfolding connect_loop.simps
    by (rule wp_seq [OF line], intro wp_bind wp_set wp_if wp_secret_kex [OF ks_exchange [OF ks_wait]] Suc.IH)
      (auto simp: no_secret_def)
qed (simp add: wp_throw)

lemma wp_secret_connect:
  "no_secret c \<Longrightarrow> wp (netnox_ssh_client_connect C (netnox_ssh_wait_for_message C fuel)) (\<lambda>_. no_secret) no_secret c"
  unfolding netnox_ssh_client_connect_def
proof (intro wp_guard, rule wp_seq [OF wp_checked wp_secret_connect_loop])
  show "no_secret c \<Longrightarrow> wp (\<lambda>c. netnox_ssh_send_all (ident_line (client_ident c)) c) (\<lambda>_. no_secret) no_secret c"
    by (auto simp: netnox_ssh_send_all_def wp_def prog_defs ioM_def no_secret_io split: prod.splits res.splits)
qed simp_all

lemma wp_secret_init: "wp (netnox_ssh_client_init 0 p) (\<lambda>_. no_secret) no_secret c"
  unfolding netnox_ssh_client_init_def
  by (intro wp_rules) (simp_all add: no_secret_def zero_client_def zero_context_def ssh_context.defs netnox_ssh_client_t.defs)

lemma wp_secret_target: "no_secret c \<Longrightarrow> wp (netnox_ssh_client_set_target u h) (\<lambda>_. no_secret) no_secret c"
  unfolding netnox_ssh_client_set_target_def by (intro wp_rules) (simp_all add: no_secret_def)

abbreviation without_secret :: "app \<Rightarrow> bool" where
  "without_secret a \<equiv> no_secret (app_client a)"

lemma wp_or_close:
  assumes "wp m Q E a" "\<And>t. E t \<Longrightarrow> E (t\<lparr>app_client := snd (netnox_ssh_client_close (app_client t))\<rparr>)"
  shows "wp (or_close m) Q E a"
  using assms unfolding or_close_def
  by (auto simp: wp_def bindM_def tryM_def retM_def liftM_def throwM_def clientM_def netnox_ssh_client_close_def setM_def
      split: prod.splits res.splits)

lemma wp_check_host_key: "without_secret a \<Longrightarrow> wp (or_close (check_host_key st pin)) (\<lambda>_. without_secret) without_secret a"
proof (rule wp_or_close)
  assume a: "without_secret a"
  show "wp (check_host_key st pin) (\<lambda>_. without_secret) without_secret a"
    unfolding check_host_key_def case_prod_beta using a
    by (intro wp_bind wp_get) (auto split: option.split simp: wp_def bindM_def failM_def throwM_def retM_def)
qed (simp add: netnox_ssh_client_close_def setM_def no_secret_def)

lemma wp_handshake: "wp (client_handshake C fuel st pin conn) (\<lambda>_. without_secret) without_secret a"
  unfolding client_handshake_def set_io_callbacks_def
  by (rule wp_seq [where R = "\<lambda>_. without_secret" and F = without_secret], rule wp_client, rule wp_mono [OF wp_secret_init], simp, simp,
      rule wp_seq [where R = "\<lambda>_. without_secret" and F = without_secret], rule wp_client, rule wp_mono [OF wp_secret_target], simp, simp, simp,
      rule wp_seq [where R = "\<lambda>_. without_secret" and F = without_secret], rule wp_client, rule wp_set, simp add: no_secret_def,
      rule wp_seq [where R = "\<lambda>_. without_secret" and F = without_secret], rule wp_client, rule wp_mono [OF wp_secret_connect], simp, simp, simp,
      rule wp_check_host_key) simp_all

text \<open>What a successful handshake means.\<close>

lemma or_close_Ok [res_iff]: "or_close m a = (Ok x, a') \<longleftrightarrow> m a = (Ok x, a')"
  unfolding or_close_def by (auto simp: bindM_def tryM_def retM_def liftM_def throwM_def split: prod.splits res.splits)

lemma check_host_key_Ok:
  assumes "check_host_key st pin a = (Ok (), a1)"
  shows "\<exists>env. a1 = a\<lparr>app_env := env\<rparr> \<and> noxssh_verify_host_key (set_host st) (set_port st)
    (server_host_key_fingerprint (app_client a)) (set_strict st) pin (set_batch_mode st) (set_known_hosts st) (app_env a) = (True, env)"
  using assms unfolding check_host_key_def netnox_ssh_client_get_server_host_key_fingerprint_def
  by (auto simp: bindM_def getM_def failM_def throwM_def retM_def split: if_splits prod.splits)

definition trusted_host :: "noxtls \<Rightarrow> settings \<Rightarrow> bytes \<Rightarrow> host_env \<Rightarrow> netnox_ssh_client_t \<Rightarrow> bool" where
  "trusted_host C st pin env c \<longleftrightarrow> host_verified C c \<and>
     fst (noxssh_verify_host_key (set_host st) (set_port st) (server_host_key_fingerprint c) (set_strict st) pin
       (set_batch_mode st) (set_known_hosts st) env)"

lemma handshake_trusted:
  assumes "client_handshake C fuel st pin conn a = (Ok (), a1)"
  shows "trusted_host C st pin (app_env a) (app_client a1)"
proof -
  obtain cb cc where c: "netnox_ssh_client_connect C (netnox_ssh_wait_for_message C fuel) cb = (Ok (), cc)"
    and chk: "check_host_key st pin (a\<lparr>app_client := cc\<rparr>) = (Ok (), a1)"
    using assms unfolding client_handshake_def by (auto simp: res_iff)
  have "host_verified C cc" using ensures_connect c by (auto simp: ensures_def)
  then show ?thesis using check_host_key_Ok [OF chk] by (auto simp: trusted_host_def)
qed

text \<open>In batch mode without any credential the program does nothing on the trusted connection and exits with 0.\<close>

lemma batch_without_credentials:
  assumes "client_handshake C fuel st (cli_pin opts) conn a = (Ok (), a1)" "load_keys C opts st a1 = (Ok False, a2)"
    and "cli_password opts = None" "set_batch_mode st"
  shows "noxssh_run C fuel opts st conn a = (Ok 0, a2\<lparr>app_client := snd (netnox_ssh_client_close (app_client a2))\<rparr>)"
  using assms unfolding noxssh_run_def client_session_def load_password_def
  by (simp add: bindM_def tryM_def retM_def clientM_def netnox_ssh_client_close_def setM_def)

text \<open>The keepalives.\<close>

definition same_count :: "app \<Rightarrow> app \<Rightarrow> bool" where
  "same_count a a' \<longleftrightarrow> unanswered_keepalive_count a' = unanswered_keepalive_count a"

interpretation sk: step_rel same_count
  by unfold_locales (auto simp: same_count_def)

lemma same_count_client: "always same_count (clientM m)"
  by (simp add: always_def clientM_def same_count_def split: prod.splits)

lemma same_count_now: "always same_count noxssh_now_seconds"
  by (simp add: always_def noxssh_now_seconds_def same_count_def)

lemma same_count_readable: "always same_count noxssh_socket_readable"
  by (simp add: always_def noxssh_socket_readable_def same_count_def split: list.splits)

lemma same_count_rekey: "always same_count (noxssh_maybe_rekey C fuel k)"
  unfolding noxssh_maybe_rekey_def
  by (intro sk.always_rules same_count_client same_count_now) (simp add: always_def setM_def same_count_def)

definition within_limit :: "alive \<Rightarrow> app \<Rightarrow> bool" where
  "within_limit k a \<longleftrightarrow> unanswered_keepalive_count a \<le> keepalive_count_max k"

definition given_up :: "alive \<Rightarrow> ready \<Rightarrow> app \<Rightarrow> bool" where
  "given_up k r a \<longleftrightarrow>
     (if r = Dead then unanswered_keepalive_count a = keepalive_count_max k + 1 else within_limit k a)"

lemma not_given_up: "r \<noteq> Dead \<Longrightarrow> within_limit k a \<Longrightarrow> given_up k r a"
  by (simp add: given_up_def)

lemma wp_same_count:
  "always same_count m \<Longrightarrow> within_limit k a \<Longrightarrow> wp m (\<lambda>_. within_limit k) (within_limit k) a"
  by (rule wp_always, assumption) (auto simp: same_count_def within_limit_def)

lemma wp_keepalive_step:
  assumes "0 < keepalive_count_max k" "keepalive_count_max k < - 1" "within_limit k a"
    and more: "\<And>t. within_limit k t \<Longrightarrow> wp next (given_up k) (within_limit k) t"
  shows "wp (keepalive_step C k next) (given_up k) (within_limit k) a"
proof -
  have one: "unanswered_keepalive_count t + 1 = keepalive_count_max k + 1" 
    if "within_limit k t" "keepalive_count_max k < unanswered_keepalive_count t + 1" for t
    using that assms(2) unfolding within_limit_def by unat_arith
  have sent: "wp (bindM (setM (\<lambda>a. a\<lparr>unanswered_keepalive_count := unanswered_keepalive_count a + 1\<rparr>)) (\<lambda>_.
       ifM (\<lambda>a. keepalive_count_max k > 0 \<and> unanswered_keepalive_count a > keepalive_count_max k) (retM Dead)
         (bindM (setM (\<lambda>a. a\<lparr>io_quiet_since_sec := now\<rparr>)) (\<lambda>_. next)))) (given_up k) (within_limit k) t"
    if "within_limit k t" for now t
    by (rule wp_bind, rule wp_set, rule wp_ifM, rule wp_ret, use one [OF that] in \<open>simp add: given_up_def\<close>,
        rule wp_bind, rule wp_set, rule more) (use assms(1) in \<open>simp add: within_limit_def not_less\<close>)
  show ?thesis
    unfolding keepalive_step_def
    by (rule wp_if, rule more [OF assms(3)], rule wp_seq [OF wp_same_count [OF same_count_now assms(3)]], rule wp_ifM,
        rule wp_seq [OF wp_same_count [OF always_try [OF same_count_client]]], assumption, rule wp_if, rule wp_ret,
        simp add: given_up_def, erule sent, assumption, erule more, assumption)
qed

lemma wp_wait_slices:
  assumes "0 < keepalive_count_max k" "keepalive_count_max k < - 1"
  shows "within_limit k a \<Longrightarrow> wp (wait_slices C fuel k n) (given_up k) (within_limit k) a"
proof (induction n arbitrary: a)
  case (Suc n)
  show ?case
    unfolding wait_slices.simps
    by (rule wp_seq [OF wp_same_count [OF always_try [OF same_count_rekey] Suc.prems]])
      (auto intro!: wp_ret wp_seq [OF wp_same_count [OF same_count_readable]] wp_keepalive_step [OF assms] Suc.IH not_given_up
        split: select_t.split)
qed (simp add: wp_def retM_def given_up_def)

section \<open>Properties\<close>

text \<open>C6: Credentials go only to a trusted host. In every run of the program, either its handshake ended, still without a
  credential in the client, with a host key that signed the exchange hash and that the host key policy trusts for this
  host and port; or the run ends
  without a password, a private key or a login in the client, with exit code 1 unless it faulted, and it is the same run
  (so the same bytes were sent) whatever password, keys and command the user gave.\<close>

theorem credentials_only_to_trusted_host:
  assumes "noxssh_run C fuel opts st conn a = (r, a')"
  shows "(\<exists>a1. client_handshake C fuel st (cli_pin opts) conn a = (Ok (), a1) \<and> no_secret (app_client a1) \<and>
     trusted_host C st (cli_pin opts) (app_env a) (app_client a1)) \<or>
    (no_secret (app_client a') \<and> (r = Ok 1 \<or> \<not> is_Ok r) \<and>
     (\<forall>opts'. cli_pin opts' = cli_pin opts \<longrightarrow> noxssh_run C fuel opts' st conn a = (r, a')))"
proof -
  obtain q a1 where h: "client_handshake C fuel st (cli_pin opts) conn a = (q, a1)" by fastforce
  have a1: "without_secret a1" using wp_handshake h by (rule wp_any)
  show ?thesis
  proof (cases "q = Ok ()")
    case True
    then show ?thesis using handshake_trusted h a1 by blast
  next
    case False
    then have run: "noxssh_run C fuel opts' st conn a = (case q of Err e \<Rightarrow> (Ok 1, a1) | Fault \<Rightarrow> (Fault, a1) | Hang \<Rightarrow> (Hang, a1) | Ok u \<Rightarrow> undefined)"
      if "cli_pin opts' = cli_pin opts" for opts'
      using h that unfolding noxssh_run_def by (cases q) (auto simp: bindM_def tryM_def retM_def)
    then have "r = Ok 1 \<or> \<not> is_Ok r" "a' = a1" using assms False by (cases q; auto)+
    moreover have "noxssh_run C fuel opts' st conn a = (r, a')" if "cli_pin opts' = cli_pin opts" for opts'
      using run [OF that] run [OF refl] assms by simp
    ultimately show ?thesis using a1 by blast
  qed
qed

definition sample_app :: app where
  "sample_app = \<lparr>app_client = zero_client, app_env = sample_hosts, app_selects = [], app_clock = (\<lambda>_. 0), app_ticks = 0,
     app_output = [], io_quiet_since_sec = 0, unanswered_keepalive_count = 0, last_rekey_sec = 0\<rparr>"

abbreviation sample_settings :: settings where
  "sample_settings \<equiv> client_settings no_options no_config [] (ascii ''h'')"

lemma sample_no_handshake: "fst (client_handshake toy_noxtls 1 sample_settings [] sample_world sample_app) \<noteq> Ok ()"
  by code_simp

theorem credentials_only_to_trusted_host_witness:
  "no_secret (app_client (snd (noxssh_run toy_noxtls 1 (no_options\<lparr>cli_password := Some (ascii ''pw'')\<rparr>)
     sample_settings sample_world sample_app))) \<and>
   noxssh_run toy_noxtls 1 (no_options\<lparr>cli_password := Some (ascii ''pw'')\<rparr>) sample_settings sample_world sample_app =
   noxssh_run toy_noxtls 1 no_options sample_settings sample_world sample_app"
proof -
  define opts where "opts = no_options\<lparr>cli_password := Some (ascii ''pw'')\<rparr>"
  have pin: "cli_pin opts = []" "cli_pin no_options = []" by (simp_all add: opts_def no_options_def)
  note credentials_only_to_trusted_host [OF prod.collapse [symmetric], where C = toy_noxtls and fuel = 1 and
      opts = opts and st = sample_settings and conn = sample_world and a = sample_app]
  moreover have "client_handshake toy_noxtls 1 sample_settings (cli_pin opts) sample_world sample_app \<noteq> (Ok (), a1)" for a1
    unfolding pin using sample_no_handshake by (metis fst_conv)
  ultimately have "no_secret (app_client (snd (noxssh_run toy_noxtls 1 opts sample_settings sample_world sample_app)))"
    and "\<forall>opts'. cli_pin opts' = cli_pin opts \<longrightarrow> noxssh_run toy_noxtls 1 opts' sample_settings sample_world sample_app =
      noxssh_run toy_noxtls 1 opts sample_settings sample_world sample_app"
    unfolding prod.collapse by blast+
  then show ?thesis unfolding opts_def [symmetric] using pin by metis
qed

text \<open>C23: A silent server is given up in time: a wait never leaves more unanswered keepalives than the limit, and it
  reports the server as dead exactly when one more than the limit has been sent.\<close>

theorem keepalive_limit:
  assumes "0 < keepalive_count_max k" "keepalive_count_max k < - 1" "unanswered_keepalive_count a \<le> keepalive_count_max k"
    and "noxssh_wait_socket_or_keepalive C fuel k ms a = (r, a')"
  shows "if r = Ok Dead then unanswered_keepalive_count a' = keepalive_count_max k + 1
    else unanswered_keepalive_count a' \<le> keepalive_count_max k"
proof -
  have "within_limit k a" using assms(3) by (simp add: within_limit_def)
  then have "wp (noxssh_wait_socket_or_keepalive C fuel k ms) (given_up k) (within_limit k) a"
    unfolding noxssh_wait_socket_or_keepalive_def
    by (intro wp_if wp_wait_slices [OF assms(1,2)] wp_seq [OF wp_same_count [OF same_count_readable]] wp_ret)
      (auto simp: given_up_def split: select_t.split)
  then show ?thesis
    using assms(4) by (auto simp: wp_def given_up_def within_limit_def split: res.splits if_splits)
qed

definition silent_server :: app where
  "silent_server = sample_app\<lparr>app_client := kex_client\<lparr>key_exchange_complete := True\<rparr>,
     app_selects := replicate 4 Sel_timeout, app_clock := (\<lambda>n. 10 * word_of_nat (Suc n))\<rparr>"

definition short_patience :: alive where
  "short_patience = \<lparr>keepalive_interval_sec = 5, keepalive_count_max = 1, rekey_interval_sec = 0\<rparr>"

lemma silent_server_dead:
  "fst (noxssh_wait_socket_or_keepalive toy_noxtls 1 short_patience 1000 silent_server) = Ok Dead"
  by code_simp

lemma short_patience_bounds: "0 < keepalive_count_max short_patience" "keepalive_count_max short_patience < - 1"
  by code_simp+

theorem keepalive_limit_witness:
  "unanswered_keepalive_count (snd (noxssh_wait_socket_or_keepalive toy_noxtls 1 short_patience 1000 silent_server)) = 2"
  using keepalive_limit [OF short_patience_bounds _ prod.collapse [symmetric], where C = toy_noxtls and fuel = 1
      and ms = 1000 and a = silent_server] silent_server_dead
  by (simp add: short_patience_def silent_server_def sample_app_def)

end
