(* ===== verification/Spec2Isabelle.thy ===== *)
theory Spec2Isabelle
  imports Nox_Progress Nox_Session Nox_Daemon Nox_Console
begin

text \<open>
  NoxSSH: a verified model of the SSH client library, the SSH server library and the two programs \<open>noxssh\<close> and
  \<open>noxsshd\<close>.

  \<^bold>\<open>The program.\<close> \<open>common/noxssh_common.c\<close> is the client library: one context \<open>netnox_ssh_client_t\<close>, two callbacks that
  move bytes, and operations that connect, exchange keys, authenticate, open a session channel and move data.
  \<open>common/noxssh_server.c\<close> is its counterpart: \<open>netnox_ssh_server_serve_one\<close> takes a connection from the identification
  line to the end of a child process. \<open>client/main.c\<close> is the program around the client library (options, \<open>~/.ssh/config\<close>,
  identities, known hosts, sockets, the interactive loop); \<open>server/main.c\<close>, \<open>server/daemon_runtime.c\<close> and
  \<open>server/auth_posix.c\<close> are the daemon around the server library (options, host key file, accepting loop, authorized
  keys). Cryptography comes from NoxTLS, which is not part of the sources.

  \<^bold>\<open>How the code is modelled.\<close> A C function is a program in \<open>('s, 'a) prog\<close>: from a context to an outcome and a context.
  The outcome \<open>res\<close> is \<open>Ok\<close> a value, \<open>Err\<close> a return code of \<open>netnox_return_t\<close>, \<open>Fault\<close> (an access outside of an array:
  undefined behaviour in C) or \<open>Hang\<close> (the fuel of a recursion is used up). \<open>bindM\<close>, \<open>checkedM\<close>, \<open>failM\<close> and the other
  combinators of \<open>Nox_Prelude\<close> stand for the sequences of calls and early returns of the source; a failing call leaves
  the changes it made to the context. Integers are words of the width of the C type, so bounds checks wrap where
  the C ones do. Client and server contexts are records that extend one record \<open>ssh_context\<close> of shared fields, with the C
  names. What is outside of the code is data in the record \<open>world\<close> behind the callbacks: the bytes to come and the
  sizes in which they arrive, what \<open>send\<close> accepts, random bytes, the clock, what the child process and its pipe do.
  Files, system calls and descriptors of the two programs are records of the same kind (\<open>host_env\<close>, \<open>posix\<close>,
  \<open>seed_env\<close>, \<open>net\<close>). Theorems hold for every such script. NoxTLS is the record \<open>noxtls\<close> of its functions, an argument of
  every definition that calls them; what the code relies on is named (\<open>sha_ok\<close>: digests have 32 bytes; \<open>ctr_ok\<close>: CTR mode
  keeps the length, undoes itself and works block by block; \<open>dh_ok\<close>: both sides of X25519 agree; \<open>sign_ok\<close>: an honest
  Ed25519 signature verifies), and \<open>toy_noxtls\<close> is an instance on which the witnesses run.

  \<^bold>\<open>The theories, from the bottom.\<close>

  \<^item> \<open>Nox_Prelude\<close>: types, outcomes, programs, their inversion and weakest-precondition rules, and \<open>step_rel\<close>, the
  contract of a reflexive and transitive relation that a program's steps respect.

  \<^item> \<open>Nox_Wire\<close>: integers, strings, mpints, name-lists (\<open>netnox_ssh_payload_*\<close>, \<open>netnox_ssh_buf_*\<close>); \<open>appender\<close> is the contract
  of a function that appends one field. Encoders write the RFC 4251 encodings; the string reader stays inside its
  buffer exactly when a 32-bit sum does not wrap.

  \<^item> \<open>Nox_Crypto\<close>: HMAC, the CTR counter, the comparison of MACs: RFC 2104, and addition modulo \<open>2 ^ 128\<close>.

  \<^item> \<open>Nox_Transport\<close>: \<open>send_all\<close>, \<open>recv_exact\<close>, \<open>recv_line\<close>, random bytes, deadlines, of both endpoints, over the callbacks
  of the programs; \<open>sending\<close> and \<open>receiving\<close> are the contracts of their loops.

  \<^item> \<open>Nox_Packet\<close>, \<open>Nox_Channel\<close>, \<open>Nox_Frames\<close>: the two contexts, the binary packet protocol in the clear and encrypted, and
  what it guarantees end to end: the packets are those of RFC 4253, section 6, and are read back; in-order delivery under
  every fragmentation (\<open>packet_channel\<close>, interpreted for both directions), acceptance only with the right MAC, the exact condition of the overrun of the receive buffer.

  \<^item> \<open>Nox_Kex\<close>, \<open>Nox_Handshake\<close>, \<open>Nox_Halting\<close>, \<open>Nox_Agreement\<close>, \<open>Nox_Progress\<close>: KEXINIT, exchange hash, key derivation, host
  key signatures and the curve25519 exchange of both sides; the conversation followed message by message; the
  waiting loop returns; the keys are those of RFC 4253, section 7.2, with the last exchange hash as session identifier, so
  the RFC's own in the first exchange only; a completed exchange has authenticated the server, both sides hold the same keys and are in
  step; and two honest endpoints do complete an exchange.

  \<^item> \<open>Nox_Client\<close>, \<open>Nox_Lifecycle\<close>: every operation of the client's interface, and the contexts that calls in any order
  and with any outcome can reach: the stages of a session presuppose each other, everything stored fits into its
  array, \<open>authenticate\<close> succeeds only on a message of the authenticated transport.

  \<^item> \<open>Nox_Server\<close>, \<open>Nox_Login\<close>: user authentication, dispatch, the session channel, the loop around the child and the
  child's steps before \<open>execl\<close>; an invariant of the whole connection from which follows for whom a child runs.
  \<open>server_steps\<close> and \<open>serve_steps\<close> are the contracts of relations that all parts of the server respect.

  \<^item> \<open>Nox_Session\<close>: client and server together: a login, a command and its output, from the call that sends it to what
  it does at the other end.

  \<^item> \<open>Nox_Text\<close>, \<open>Nox_Identity\<close>, \<open>Nox_Hosts\<close>, \<open>Nox_Config\<close>, \<open>Nox_Sockets\<close>, \<open>Nox_Console\<close>: the client program: text routines and host
  patterns, key files, host key trust, settings, connecting, and the run of \<open>main\<close> with keepalives and re-keying.
  Credentials go only to a trusted host; a key accepted on first use is pinned where the known hosts file takes the line;
  settings have their documented precedence, from the words of the command line (\<open>given\<close>) and the blocks of the file
  (\<open>applying\<close>); no descriptor is left open. All reads of the standard input (the question about a host key, the
  password, the shell) take from one stream of bytes, \<open>stdin_left\<close>.

  \<^item> \<open>Nox_Account\<close>, \<open>Nox_Daemon\<close> (with the listening socket in \<open>Nox_Sockets\<close>): authorized keys of an account, the host key
  file with every failing system call, the accepting loop, and the composition: the daemon runs a child only for a
  user whose own trusted file lists the key that signed.

  The properties of the development are the theorems introduced by a number C1 to C40 in the section \<open>Properties\<close> of
  their theory, each followed by a witness where it has hypotheses.

  \<^bold>\<open>Fuel and bounds.\<close> Loops are recursive functions with a measure (bytes to send, unread bytes, rounds of the script).
  Only the mutual recursion of \<open>netnox_ssh_wait_for_message\<close>, \<open>netnox_ssh_handle_server_kexinit\<close> and
  \<open>netnox_ssh_perform_curve25519_kex\<close> takes fuel, its depth; \<open>wait_for_message_terminates\<close> shows that any fuel above the
  number of unread bytes gives one and the same outcome and never \<open>Hang\<close>. The receive operation of the client uses
  the same fuel. Where a script ends, the call it answers fails or reports the end of the stream, as a closed
  connection does.

  \<^bold>\<open>Simplifications.\<close> A null pointer argument is not a value of the model: every function is applied to objects. A C
  string is the list of its characters before the terminator. The static copies of the wire functions in
  \<open>noxssh_server.c\<close> have the text of those in \<open>noxssh_common.c\<close> and share their definitions. The command line has
  fewer than 65536 words. Time limits of sockets are calls that succeed or fail.

  \<^bold>\<open>Not modelled.\<close> NoxTLS (a parameter); the Windows branches (Winsock, \<open>_popen\<close>); debug output, including the dump of
  the key exchange that \<open>NETNOX_SSH_DUMP_KEYS\<close> asks for; usage and progress text and the echo of the terminal; the killing and
  reaping of the child after a session, which changes no modelled state; the default macros and declarations of the
  headers, of which the algorithm lists, sizes and message numbers appear as literals; tests, scripts and packaging.
\<close>

end
